(* ===== verification/Prelude.thy ===== *)
theory Prelude
  imports Main "HOL-Library.Word"
begin

text \<open>
  Shared vocabulary of the development: the machine integers and identifiers of the
  Stegos sources, the outcome of a Rust function (a value, an error, or a panic), the
  collections of rewrite rules the component theories add to, and the generic lemmas on
  options, outcomes and lists that several components use.
\<close>

section \<open>Types\<close>

text \<open>
  Every Cargo profile of the workspace switches overflow checks off, so the arithmetic
  operators on \<open>u32\<close>, \<open>u64\<close> and \<open>i64\<close> wrap: they are words. An \<open>i64\<close> is read
  with \<open>sint\<close> and compared with the signed orders \<open><s\<close> and \<open>\<le>s\<close>.
\<close>

type_synonym u8 = "8 word"
type_synonym u32 = "32 word"
type_synonym u64 = "64 word"
type_synonym i64 = "64 word"

text \<open>
  Byte arrays of a fixed size are words read in big-endian order, so that the order of
  the words is the lexicographic order of the arrays (this is how \<open>Hash\<close> and
  \<open>pbc::PublicKey\<close> are compared); byte vectors are lists. A BLS public key is its
  96-byte encoding and a BLS signature its 48-byte encoding: equality, order and hashing
  of these types all go through \<open>to_bytes\<close>.
\<close>

type_synonym bytes = "u8 list"
type_synonym b32 = "256 word"
type_synonym b48 = "384 word"
type_synonym b96 = "768 word"
type_synonym hash = b32
type_synonym pbc_pkey = b96
type_synonym pbc_skey = b32
type_synonym pbc_sig = b48

section \<open>Outcomes\<close>

text \<open>
  A function that can only panic returns an \<open>option\<close>, with \<open>None\<close> for the panic. A
  function with a \<open>Result\<close> type returns an \<open>outcome\<close>, where a panic (a failed
  assertion, an \<open>unwrap\<close> of nothing) is a third possibility.
\<close>

datatype ('e, 'a) outcome = Ok 'a | Err 'e | Panic

fun obind :: "('e, 'a) outcome \<Rightarrow> ('a \<Rightarrow> ('e, 'b) outcome) \<Rightarrow> ('e, 'b) outcome" where
  "obind (Ok x) f = f x"
| "obind (Err e) f = Err e"
| "obind Panic f = Panic"

fun or_panic :: "'a option \<Rightarrow> ('e, 'a) outcome" where
  "or_panic (Some x) = Ok x"
| "or_panic None = Panic"

fun is_ok :: "('e, 'a) outcome \<Rightarrow> bool" where
  "is_ok (Ok _) = True"
| "is_ok _ = False"

named_theorems outcome_simps \<open>inversion of outcomes and options in hypotheses\<close>

lemma obind_Ok_iff [outcome_simps]:
  "obind m f = Ok y \<longleftrightarrow> (\<exists>x. m = Ok x \<and> f x = Ok y)"
  by (cases m) auto

lemma obind_assoc: "obind (obind m f) g = obind m (\<lambda>x. obind (f x) g)"
  by (cases m) auto

lemma or_panic_Ok_iff [outcome_simps]: "or_panic m = Ok x \<longleftrightarrow> m = Some x"
  by (cases m) auto

lemma or_panic_not_Err [simp]: "or_panic m \<noteq> Err e"
  by (cases m) auto

lemma is_ok_iff [outcome_simps]: "is_ok m \<longleftrightarrow> (\<exists>x. m = Ok x)"
  by (cases m) auto

declare Option.bind_eq_Some_conv [outcome_simps]

section \<open>Signed words\<close>

named_theorems signed_simps \<open>reading signed comparisons as comparisons of integers\<close>

declare word_sless_alt [signed_simps] word_sle_eq [signed_simps]

text \<open>A sum of signed words is the sum of their values when that sum is in range.\<close>

lemma sint_add_in_range:
  fixes a b :: i64
  assumes "- (2 ^ 63) \<le> sint a + sint b" "sint a + sint b < 2 ^ 63"
  shows "sint (a + b) = sint a + sint b"
  using assms by (simp add: sint_word_ariths signed_take_bit_int_eq_self)

lemma sint_range_i64: "- (2 ^ 63) \<le> sint (a :: i64)" "sint (a :: i64) < 2 ^ 63"
  using sint_ge [of a] sint_lt [of a] by simp_all

lemma ucast_add_down:
  assumes "LENGTH('b::len) \<le> LENGTH('a::len)"
  shows "ucast (p + q :: 'a word) = (ucast p + ucast q :: 'b word)"
proof -
  have "take_bit LENGTH('b) (uint (p + q)) = take_bit LENGTH('b) (uint p + uint q)"
    using assms by (simp add: uint_word_arith_bintrs(1) min_absorb1)
  then have "(word_of_int (uint (p + q)) :: 'b word) = word_of_int (uint p + uint q)"
    by (simp only: word_of_int_eq_iff)
  then show ?thesis by (simp only: ucast_eq wi_hom_add)
qed

text \<open>A loop whose body may panic.\<close>

fun fold_option :: "('a \<Rightarrow> 's \<Rightarrow> 's option) \<Rightarrow> 'a list \<Rightarrow> 's \<Rightarrow> 's option" where
  "fold_option f [] s = Some s"
| "fold_option f (x # xs) s = Option.bind (f x s) (fold_option f xs)"

lemma fold_option_append:
  "fold_option f (xs @ ys) s = Option.bind (fold_option f xs s) (fold_option f ys)"
  by (induction xs arbitrary: s) (auto split: bind_splits)

section \<open>Lists\<close>

text \<open>
  Folding an accumulator over a list of increments is one addition of their sum; this
  is how every balance loop of the sources reads.
\<close>

lemma fold_add_acc:
  "fold (\<lambda>x acc. acc + f x) xs (a :: 'a::comm_monoid_add) = a + sum_list (map f xs)"
  by (induction xs arbitrary: a) (simp_all add: add.assoc)

lemma rev_eq_Cons_length: "rev xs = y # ys \<Longrightarrow> length ys < length xs"
  by (metis length_Cons length_rev lessI)

lemma sum_list_filter_split:
  "sum_list (map f (filter P xs)) + sum_list (map f (filter (\<lambda>x. \<not> P x) xs)) =
   (sum_list (map f xs) :: 'a::comm_monoid_add)"
  by (induction xs) (simp_all add: add.assoc add.left_commute)

end
