(* ===== verification/BTreeMap.thy ===== *)
theory BTreeMap
  imports Prelude
begin

text \<open>
  The standard library's \<open>BTreeMap\<close> as the strictly sorted list of its entries: the
  order of iteration is part of the model, and two maps with the same contents are equal.
  \<open>bt_inv\<close> is the representation invariant; every operation keeps it and has the
  expected effect on the abstract content \<open>map_of m\<close>.
\<close>

section \<open>Operations\<close>

type_synonym ('k, 'v) btree = "('k \<times> 'v) list"

definition bt_inv :: "('k::linorder, 'v) btree \<Rightarrow> bool" where
  "bt_inv m \<longleftrightarrow> sorted_wrt (<) (map fst m)"

abbreviation bt_get :: "('k, 'v) btree \<Rightarrow> 'k \<Rightarrow> 'v option" where
  "bt_get \<equiv> map_of"

fun bt_put :: "'k::linorder \<Rightarrow> 'v \<Rightarrow> ('k, 'v) btree \<Rightarrow> ('k, 'v) btree" where
  "bt_put k v [] = [(k, v)]"
| "bt_put k v ((k', v') # m) =
     (if k < k' then (k, v) # (k', v') # m
      else if k = k' then (k, v) # m
      else (k', v') # bt_put k v m)"

fun bt_del :: "'k \<Rightarrow> ('k, 'v) btree \<Rightarrow> ('k, 'v) btree" where
  "bt_del k [] = []"
| "bt_del k ((k', v') # m) = (if k = k' then m else (k', v') # bt_del k m)"

text \<open>The Rust operations return the previous value beside the new map.\<close>

definition bt_insert :: "'k::linorder \<Rightarrow> 'v \<Rightarrow> ('k, 'v) btree \<Rightarrow> 'v option \<times> ('k, 'v) btree" where
  "bt_insert k v m = (bt_get m k, bt_put k v m)"

definition bt_remove :: "'k \<Rightarrow> ('k, 'v) btree \<Rightarrow> 'v option \<times> ('k, 'v) btree" where
  "bt_remove k m = (bt_get m k, bt_del k m)"

definition bt_range :: "'k::linorder \<Rightarrow> 'k \<Rightarrow> ('k, 'v) btree \<Rightarrow> ('k, 'v) btree" where
  "bt_range lo hi m = filter (\<lambda>(k, _). lo \<le> k \<and> k \<le> hi) m"

text \<open>The idiom \<open>*m.entry(k).or_insert(d) = f(old)\<close>.\<close>

definition bt_entry :: "'k::linorder \<Rightarrow> 'v \<Rightarrow> ('v \<Rightarrow> 'v) \<Rightarrow> ('k, 'v) btree \<Rightarrow> ('k, 'v) btree" where
  "bt_entry k d f m = bt_put k (f (case bt_get m k of None \<Rightarrow> d | Some v \<Rightarrow> v)) m"

section \<open>The contract of an ordered map\<close>

text \<open>
  What the clients of an ordered map rely on: the effect of each operation on the
  content, the preservation of the invariant, and that a well-formed map is determined
  by its content. The cancellation laws the undo log needs follow from this alone.
\<close>

locale ordered_map =
  fixes content :: "'m \<Rightarrow> 'k \<Rightarrow> 'v option"
    and put :: "'k \<Rightarrow> 'v \<Rightarrow> 'm \<Rightarrow> 'm"
    and del :: "'k \<Rightarrow> 'm \<Rightarrow> 'm"
    and inv :: "'m \<Rightarrow> bool"
  assumes content_put: "inv m \<Longrightarrow> content (put k v m) = (content m)(k \<mapsto> v)"
    and content_del: "inv m \<Longrightarrow> content (del k m) = (content m)(k := None)"
    and inv_put: "inv m \<Longrightarrow> inv (put k v m)"
    and inv_del: "inv m \<Longrightarrow> inv (del k m)"
    and content_inj: "inv m \<Longrightarrow> inv m' \<Longrightarrow> content m = content m' \<Longrightarrow> m = m'"
begin

lemma del_put_fresh: "inv m \<Longrightarrow> content m k = None \<Longrightarrow> del k (put k v m) = m"
  by (rule content_inj) (auto simp: inv_put inv_del content_put content_del)

lemma put_del_restore: "inv m \<Longrightarrow> content m k = Some v \<Longrightarrow> put k v (del k m) = m"
  by (rule content_inj) (auto simp: inv_put inv_del content_put content_del)

lemma del_put: "inv m \<Longrightarrow> del k (put k v m) = del k m"
  by (rule content_inj) (auto simp: inv_put inv_del content_put content_del)

lemma put_put: "inv m \<Longrightarrow> put k w (put k v m) = put k w m"
  by (rule content_inj) (auto simp: inv_put content_put)

lemma put_same: "inv m \<Longrightarrow> content m k = Some v \<Longrightarrow> put k v m = m"
  by (rule content_inj) (auto simp: inv_put content_put)

lemma del_absent: "inv m \<Longrightarrow> content m k = None \<Longrightarrow> del k m = m"
  by (rule content_inj) (auto simp: inv_del content_del)

lemmas specs = content_put content_del inv_put inv_del

end

section \<open>The sorted list meets the contract\<close>

lemma bt_inv_Nil [simp]: "bt_inv []"
  by (simp add: bt_inv_def)

lemma bt_inv_Cons [simp]:
  "bt_inv ((k, v) # m) \<longleftrightarrow> (\<forall>x \<in> fst ` set m. k < x) \<and> bt_inv m"
  by (auto simp: bt_inv_def)

lemma set_bt_put: "fst ` set (bt_put k v m) = insert k (fst ` set m)"
  by (induction k v m rule: bt_put.induct) auto

lemma set_bt_del: "fst ` set (bt_del k m) \<subseteq> fst ` set m"
  by (induction k m rule: bt_del.induct) auto

lemma bt_inv_put [simp, intro]: "bt_inv m \<Longrightarrow> bt_inv (bt_put k v m)"
  by (induction k v m rule: bt_put.induct) (auto simp: set_bt_put)

lemma bt_inv_del [simp, intro]: "bt_inv m \<Longrightarrow> bt_inv (bt_del k m)"
  by (induction k m rule: bt_del.induct) (use set_bt_del in fastforce)+

lemma bt_inv_distinct: "bt_inv m \<Longrightarrow> distinct (map fst m)"
  by (simp add: bt_inv_def strict_sorted_iff)

lemma map_of_bt_put [simp]: "map_of (bt_put k v m) = (map_of m)(k \<mapsto> v)"
  by (induction k v m rule: bt_put.induct) auto

lemma bt_get_fresh: "(\<forall>x \<in> fst ` set m. (k :: 'k::linorder) < x) \<Longrightarrow> map_of m k = None"
  by (induction m) auto

lemma map_of_bt_del [simp]: "bt_inv m \<Longrightarrow> map_of (bt_del k m) = (map_of m)(k := None)"
proof (induction k m rule: bt_del.induct)
  case (2 k k' v' m)
  then show ?case by (auto simp: fun_eq_iff bt_get_fresh)
qed simp

lemma bt_ext:
  assumes "bt_inv m" "bt_inv m'" "map_of m = map_of m'"
  shows "m = m'"
proof (rule map_sorted_distinct_set_unique [where f = fst])
  have "map_of m k = Some v" if "(k, v) \<in> set m \<union> set m'" for k v
    using that assms bt_inv_distinct [of m] bt_inv_distinct [of m']
    by (auto dest: map_of_is_SomeI)
  then show "inj_on fst (set m \<union> set m')"
    by (intro inj_onI) (metis option.inject prod.collapse)
  show "sorted (map fst m)" "distinct (map fst m)" "sorted (map fst m')" "distinct (map fst m')"
    using assms(1,2) by (simp_all add: bt_inv_def strict_sorted_iff)
  show "set m = set m'"
    using assms bt_inv_distinct [of m] bt_inv_distinct [of m'] by (metis map_of_inject_set)
qed

interpretation bt: ordered_map map_of bt_put bt_del bt_inv
  by unfold_locales (auto intro: bt_ext)

lemma bt_inv_range [simp, intro]: "bt_inv m \<Longrightarrow> bt_inv (bt_range lo hi m)"
  unfolding bt_range_def bt_inv_def
  by (induction m) (auto simp: sorted_wrt_filter split: if_splits)

lemma bt_inv_entry [simp, intro]: "bt_inv m \<Longrightarrow> bt_inv (bt_entry k d f m)"
  by (simp add: bt_entry_def)

lemma bt_get_entry:
  "bt_get (bt_entry k d f m) = (bt_get m)(k \<mapsto> f (case bt_get m k of None \<Rightarrow> d | Some v \<Rightarrow> v))"
  by (simp add: bt_entry_def)

lemma bt_put_eq_Nil [simp]: "bt_put k v m \<noteq> []"
  by (induction k v m rule: bt_put.induct) auto

lemma bt_put_subset: "set (bt_put k v m) \<subseteq> insert (k, v) (set m)"
  by (induction k v m rule: bt_put.induct) auto

lemma bt_del_subset: "set (bt_del k m) \<subseteq> set m"
  by (induction k m rule: bt_del.induct) auto

end
