(* ===== verification/Mvcc.thy ===== *)
theory Mvcc
  imports BTreeMap
begin

text \<open>
  \<open>blockchain/src/mvcc.rs\<close>: the multi-versioned map, a \<open>BTreeMap\<close> with an undo log.
  Every change carries a log sequence number; \<open>rollback_to_lsn\<close> undoes the changes
  with a larger number and \<open>checkpoint\<close> forgets the log and returns the changes made
  since the previous checkpoint as a patch. The theory states the contract of a store
  with an undo log as the locale \<open>undo_log\<close>, proves the roll-back laws inside it and
  interprets it on the map.
\<close>

section \<open>Data\<close>

datatype ('k, 'v, 'lsn) UndoRecord = URemove 'lsn 'k | UInsert 'lsn 'k 'v

text \<open>\<open>undo\<close> is the vector of records in the order of the pushes: the last is the newest.\<close>

record ('k, 'v, 'lsn) MultiVersionedMap =
  mv_map :: "('k, 'v) btree"
  undo :: "('k, 'v, 'lsn) UndoRecord list"
  ckpt_lsn :: 'lsn

section \<open>Operations\<close>

fun record_lsn :: "('k, 'v, 'lsn) UndoRecord \<Rightarrow> 'lsn" where
  "record_lsn (UInsert l k v) = l"
| "record_lsn (URemove l k) = l"

fun record_key :: "('k, 'v, 'lsn) UndoRecord \<Rightarrow> 'k" where
  "record_key (UInsert l k v) = k"
| "record_key (URemove l k) = k"

text \<open>\<open>new\<close>; the argument is \<open>Default::default()\<close> of the type of sequence numbers.\<close>

definition mv_new :: "'lsn \<Rightarrow> ('k, 'v, 'lsn) MultiVersionedMap" where
  "mv_new dflt = \<lparr>mv_map = [], undo = [], ckpt_lsn = dflt\<rparr>"

definition current_lsn :: "('k, 'v, 'lsn) MultiVersionedMap \<Rightarrow> 'lsn" where
  "current_lsn s = (case rev (undo s) of [] \<Rightarrow> ckpt_lsn s | r # _ \<Rightarrow> record_lsn r)"

definition checkpoint_lsn :: "('k, 'v, 'lsn) MultiVersionedMap \<Rightarrow> 'lsn" where
  "checkpoint_lsn s = ckpt_lsn s"

text \<open>\<open>None\<close> is the failed assertion that sequence numbers must not decrease.\<close>

definition mv_insert ::
  "'lsn::linorder \<Rightarrow> 'k::linorder \<Rightarrow> 'v \<Rightarrow> ('k, 'v, 'lsn) MultiVersionedMap \<Rightarrow>
     ('v option \<times> ('k, 'v, 'lsn) MultiVersionedMap) option" where
  "mv_insert lsn key value s =
     (if lsn \<ge> current_lsn s
      then let (r, m) = bt_insert key value (mv_map s);
               undo1 = (case r of Some prev_value \<Rightarrow> undo s @ [UInsert lsn key prev_value]
                        | None \<Rightarrow> undo s)
           in Some (r, s\<lparr>mv_map := m, undo := undo1 @ [URemove lsn key]\<rparr>)
      else None)"

definition mv_remove ::
  "'lsn::linorder \<Rightarrow> 'k::linorder \<Rightarrow> ('k, 'v, 'lsn) MultiVersionedMap \<Rightarrow>
     ('v option \<times> ('k, 'v, 'lsn) MultiVersionedMap) option" where
  "mv_remove lsn key s =
     (if lsn \<ge> current_lsn s
      then let (r, m) = bt_remove key (mv_map s);
               undo1 = (case r of Some prev_value \<Rightarrow> undo s @ [UInsert lsn key prev_value]
                        | None \<Rightarrow> undo s)
           in Some (r, s\<lparr>mv_map := m, undo := undo1\<rparr>)
      else None)"

text \<open>
  The loop of \<open>rollback_to_lsn\<close>: pop the newest record and apply it, with the
  assertions on its number and on the previous value of the key.
\<close>

function rollback_loop ::
  "'lsn::linorder \<Rightarrow> ('k::linorder, 'v, 'lsn) MultiVersionedMap \<Rightarrow>
     ('k, 'v, 'lsn) MultiVersionedMap option" where
  "rollback_loop to_lsn s =
     (if current_lsn s > to_lsn then
        (case rev (undo s) of
           [] \<Rightarrow> None
         | UInsert lsn key value # rest \<Rightarrow>
             (if lsn > to_lsn then
                (case bt_insert key value (mv_map s) of
                   (None, m) \<Rightarrow> rollback_loop to_lsn (s\<lparr>mv_map := m, undo := rev rest\<rparr>)
                 | (Some _, _) \<Rightarrow> None)
              else None)
         | URemove lsn key # rest \<Rightarrow>
             (if lsn > to_lsn then
                (case bt_remove key (mv_map s) of
                   (Some _, m) \<Rightarrow> rollback_loop to_lsn (s\<lparr>mv_map := m, undo := rev rest\<rparr>)
                 | (None, _) \<Rightarrow> None)
              else None))
      else Some s)"
  by pat_completeness auto
termination
  by (relation "measure (\<lambda>(_, s). length (undo s))") (auto dest: rev_eq_Cons_length)

declare rollback_loop.simps [simp del]

definition rollback_to_lsn ::
  "'lsn::linorder \<Rightarrow> ('k::linorder, 'v, 'lsn) MultiVersionedMap \<Rightarrow>
     ('k, 'v, 'lsn) MultiVersionedMap option" where
  "rollback_to_lsn to_lsn s =
     (if to_lsn \<ge> checkpoint_lsn s
      then Option.bind (rollback_loop to_lsn s)
             (\<lambda>s'. if current_lsn s' \<le> to_lsn then Some s' else None)
      else None)"

text \<open>\<open>reverse_patch\<close>: the current value of every key the log mentions.\<close>

definition patch_step ::
  "('k::linorder, 'v) btree \<Rightarrow> ('k, 'v, 'lsn) UndoRecord \<Rightarrow> ('k, 'v option) btree \<Rightarrow>
     ('k, 'v option) btree" where
  "patch_step m r result =
     (case bt_get result (record_key r) of
        Some _ \<Rightarrow> result
      | None \<Rightarrow> bt_put (record_key r) (bt_get m (record_key r)) result)"

definition reverse_patch ::
  "('k::linorder, 'v) btree \<Rightarrow> ('k, 'v, 'lsn) UndoRecord list \<Rightarrow> ('k, 'v option) btree" where
  "reverse_patch m rs = fold (patch_step m) rs []"

definition checkpoint ::
  "('k::linorder, 'v, 'lsn) MultiVersionedMap \<Rightarrow>
     ('k, 'v option) btree \<times> ('k, 'v, 'lsn) MultiVersionedMap" where
  "checkpoint s =
     (reverse_patch (mv_map s) (undo s), s\<lparr>undo := [], ckpt_lsn := current_lsn s\<rparr>)"

definition mv_get :: "('k, 'v, 'lsn) MultiVersionedMap \<Rightarrow> 'k \<Rightarrow> 'v option" where
  "mv_get s k = bt_get (mv_map s) k"

definition mv_range ::
  "'k::linorder \<Rightarrow> 'k \<Rightarrow> ('k, 'v, 'lsn) MultiVersionedMap \<Rightarrow> ('k \<times> 'v) list" where
  "mv_range lo hi s = bt_range lo hi (mv_map s)"

definition mv_iter :: "('k, 'v, 'lsn) MultiVersionedMap \<Rightarrow> ('k \<times> 'v) list" where
  "mv_iter s = mv_map s"

definition mv_reset ::
  "'lsn \<Rightarrow> ('k, 'v, 'lsn) MultiVersionedMap \<Rightarrow> ('k, 'v, 'lsn) MultiVersionedMap" where
  "mv_reset dflt s = s\<lparr>mv_map := [], undo := [], ckpt_lsn := dflt\<rparr>"

text \<open>
  One change of the map, as a value: this is what a sequence of changes is made of.
\<close>

datatype ('k, 'v) MvOp = OpInsert 'k 'v | OpRemove 'k

fun mv_step ::
  "'lsn::linorder \<Rightarrow> ('k::linorder, 'v) MvOp \<Rightarrow> ('k, 'v, 'lsn) MultiVersionedMap \<Rightarrow>
     ('k, 'v, 'lsn) MultiVersionedMap option" where
  "mv_step n (OpInsert k v) s = map_option snd (mv_insert n k v s)"
| "mv_step n (OpRemove k) s = map_option snd (mv_remove n k s)"

text \<open>
  \<open>write_log\<close> of \<open>blockchain.rs\<close>: the patch of a checkpoint applied to the
  persistent table, key by key.
\<close>

definition write_entry :: "'k::linorder \<times> 'v option \<Rightarrow> ('k, 'v) btree \<Rightarrow> ('k, 'v) btree" where
  "write_entry e d = (case e of (k, Some v) \<Rightarrow> bt_put k v d | (k, None) \<Rightarrow> bt_del k d)"

definition write_log :: "('k::linorder, 'v option) btree \<Rightarrow> ('k, 'v) btree \<Rightarrow> ('k, 'v) btree" where
  "write_log diff d = fold write_entry diff d"

section \<open>The contract of a store with an undo log\<close>

fun run_ops ::
  "('l \<Rightarrow> 'op \<Rightarrow> 's \<Rightarrow> 's option) \<Rightarrow> ('l \<times> 'op) list \<Rightarrow> 's \<Rightarrow> 's option" where
  "run_ops stp [] s = Some s"
| "run_ops stp ((n, op) # ops) s = Option.bind (stp n op s) (run_ops stp ops)"

lemma run_ops_append:
  "run_ops stp (xs @ ys) s = Option.bind (run_ops stp xs s) (run_ops stp ys)"
  by (induction stp xs s rule: run_ops.induct) (auto split: bind_splits)

text \<open>
  A step records what it did under its number; rolling back past that number undoes
  exactly that step, and rolling back to a number the state has not passed is the
  identity. \<open>base_lsn\<close> is the number of the last checkpoint, the furthest a
  roll-back may go.
\<close>

locale undo_log =
  fixes inv :: "'s \<Rightarrow> bool"
    and lsn_of :: "'s \<Rightarrow> 'l::linorder"
    and base_lsn :: "'s \<Rightarrow> 'l"
    and stp :: "'l \<Rightarrow> 'op \<Rightarrow> 's \<Rightarrow> 's option"
    and rollback :: "'l \<Rightarrow> 's \<Rightarrow> 's option"
  assumes inv_step: "inv s \<Longrightarrow> stp n op s = Some s' \<Longrightarrow> inv s'"
    and lsn_step: "inv s \<Longrightarrow> stp n op s = Some s' \<Longrightarrow> lsn_of s' \<le> n"
    and base_step: "inv s \<Longrightarrow> stp n op s = Some s' \<Longrightarrow> base_lsn s' = base_lsn s"
    and rollback_stop: "inv s \<Longrightarrow> base_lsn s \<le> l \<Longrightarrow> lsn_of s \<le> l \<Longrightarrow> rollback l s = Some s"
    and rollback_step:
      "inv s \<Longrightarrow> base_lsn s \<le> l \<Longrightarrow> l < n \<Longrightarrow> stp n op s = Some s' \<Longrightarrow>
       rollback l s' = rollback l s"
begin

lemma run_inv: "run_ops stp ops s = Some s' \<Longrightarrow> inv s \<Longrightarrow> inv s' \<and> base_lsn s' = base_lsn s"
proof (induction ops arbitrary: s)
  case (Cons o1 ops)
  then show ?case by (cases o1) (fastforce simp: outcome_simps dest: inv_step base_step)
qed simp

lemma run_rollback:
  assumes "run_ops stp ops s = Some s'" "inv s" "base_lsn s \<le> l" "\<forall>(n, _) \<in> set ops. l < n"
  shows "rollback l s' = rollback l s"
  using assms
proof (induction ops arbitrary: s)
  case (Cons o1 ops)
  obtain n op where o1: "o1 = (n, op)" by (cases o1)
  with Cons.prems obtain t where t: "stp n op s = Some t" "run_ops stp ops t = Some s'"
    by (auto simp: outcome_simps)
  with Cons.prems o1 have "rollback l s' = rollback l t"
    by (intro Cons.IH) (auto dest: inv_step base_step)
  also have "\<dots> = rollback l s"
    using Cons.prems t o1 by (intro rollback_step) auto
  finally show ?case .
qed simp

text \<open>Changes made under larger numbers are undone, all of them and nothing else.\<close>

lemma rollback_undoes:
  assumes "run_ops stp ops s = Some s'" "inv s" "base_lsn s \<le> l" "lsn_of s \<le> l"
    "\<forall>(n, _) \<in> set ops. l < n"
  shows "rollback l s' = Some s"
  using run_rollback [OF assms(1-3,5)] rollback_stop [OF assms(2-4)] by simp

text \<open>
  From a state with nothing to undo, a roll-back to any number since the checkpoint
  succeeds and lands on the state an initial part of the changes had produced.
\<close>

lemma rollback_total:
  assumes "run_ops stp ops s0 = Some s" "inv s0" "lsn_of s0 \<le> base_lsn s0" "base_lsn s0 \<le> l"
  shows "\<exists>xs ys s'. ops = xs @ ys \<and> run_ops stp xs s0 = Some s' \<and> rollback l s = Some s' \<and>
           lsn_of s' \<le> l"
  using assms(1)
proof (induction ops arbitrary: s rule: rev_induct)
  case Nil
  then show ?case using assms rollback_stop [of s0 l] by auto
next
  case (snoc o1 ops)
  obtain n op where o1: "o1 = (n, op)" by (cases o1)
  with snoc.prems obtain t where t: "run_ops stp ops s0 = Some t" "stp n op t = Some s"
    by (auto simp: run_ops_append outcome_simps)
  have inv_t: "inv t" "base_lsn t = base_lsn s0" using run_inv [OF t(1)] assms by auto
  show ?case
  proof (cases "l < n")
    case True
    with inv_t t(2) assms(4) have "rollback l s = rollback l t" by (intro rollback_step) auto
    with snoc.IH [OF t(1)] show ?thesis by (metis append.assoc)
  next
    case False
    have "rollback l s = Some s"
      using inv_t t(2) False assms(4) lsn_step [of t n op s]
      by (intro rollback_stop) (auto dest: inv_step base_step)
    moreover have "lsn_of s \<le> l"
      using lsn_step [OF inv_t(1) t(2)] False by auto
    ultimately show ?thesis using snoc.prems by blast
  qed
qed

end

section \<open>The map meets the contract\<close>

definition mv_inv :: "('k::linorder, 'v, 'lsn::linorder) MultiVersionedMap \<Rightarrow> bool" where
  "mv_inv s \<longleftrightarrow> bt_inv (mv_map s) \<and> sorted (ckpt_lsn s # map record_lsn (undo s))"

lemma current_lsn_simps [simp]:
  "undo s = [] \<Longrightarrow> current_lsn s = ckpt_lsn s"
  "undo s = rs @ [r] \<Longrightarrow> current_lsn s = record_lsn r"
  by (simp_all add: current_lsn_def)

lemma current_lsn_append [simp]:
  "current_lsn (s\<lparr>mv_map := m, undo := rs @ [r]\<rparr>) = record_lsn r"
  by (simp add: current_lsn_def)

lemma mv_inv_new [simp, intro]: "mv_inv (mv_new d)"
  by (simp add: mv_inv_def mv_new_def)

lemma mv_inv_checkpoint: "mv_inv s \<Longrightarrow> mv_inv (snd (checkpoint s))"
  by (simp add: mv_inv_def checkpoint_def)

lemma mv_inv_lsn_le: "mv_inv s \<Longrightarrow> \<forall>r \<in> set (undo s). record_lsn r \<le> current_lsn s"
  by (cases "undo s" rule: rev_cases) (auto simp: mv_inv_def sorted_append)

lemma mv_inv_ckpt_le: "mv_inv s \<Longrightarrow> ckpt_lsn s \<le> current_lsn s"
  by (cases "undo s" rule: rev_cases) (auto simp: mv_inv_def)

lemma mv_inv_push:
  assumes "mv_inv s" "current_lsn s \<le> n" "bt_inv m"
    "\<forall>r \<in> set rs. record_lsn r = n"
  shows "mv_inv (s\<lparr>mv_map := m, undo := undo s @ rs\<rparr>)"
proof -
  have "sorted (map record_lsn rs)"
    using assms(4) by (induction rs) auto
  then show ?thesis
    using assms mv_inv_lsn_le [OF assms(1)] mv_inv_ckpt_le [OF assms(1)]
    by (force simp: mv_inv_def sorted_append)
qed

text \<open>What one change pushes on the log, and the state it leaves.\<close>

fun step_records ::
  "'lsn \<Rightarrow> ('k, 'v) MvOp \<Rightarrow> ('k, 'v) btree \<Rightarrow> ('k, 'v, 'lsn) UndoRecord list" where
  "step_records n (OpInsert k v) m =
     (case bt_get m k of Some p \<Rightarrow> [UInsert n k p, URemove n k] | None \<Rightarrow> [URemove n k])"
| "step_records n (OpRemove k) m = (case bt_get m k of Some p \<Rightarrow> [UInsert n k p] | None \<Rightarrow> [])"

fun step_map :: "('k::linorder, 'v) MvOp \<Rightarrow> ('k, 'v) btree \<Rightarrow> ('k, 'v) btree" where
  "step_map (OpInsert k v) m = bt_put k v m"
| "step_map (OpRemove k) m = bt_del k m"

lemma mv_step_eq:
  "mv_step n op s =
     (if current_lsn s \<le> n
      then Some (s\<lparr>mv_map := step_map op (mv_map s), undo := undo s @ step_records n op (mv_map s)\<rparr>)
      else None)"
  by (cases op) (auto simp: mv_insert_def mv_remove_def bt_insert_def bt_remove_def split: option.splits)

declare mv_step.simps [simp del]

lemma step_map_inv: "bt_inv m \<Longrightarrow> bt_inv (step_map op m)"
  by (cases op) auto

lemma step_records_lsn: "r \<in> set (step_records n op m) \<Longrightarrow> record_lsn r = n"
  by (cases op) (auto split: option.splits)

lemma step_current_lsn:
  assumes "current_lsn s \<le> (n :: 'lsn::linorder)"
  shows "current_lsn (s\<lparr>mv_map := m, undo := undo s @ step_records n op m'\<rparr>) \<le> n"
  using assms by (cases op) (auto simp: current_lsn_def split: option.splits list.splits)

text \<open>One turn of the roll-back loop, by the newest record.\<close>

lemma rollback_loop_stop: "current_lsn s \<le> l \<Longrightarrow> rollback_loop l s = Some s"
  by (subst rollback_loop.simps) (simp add: not_less [symmetric])

lemma rollback_loop_insert:
  assumes "undo s = rs @ [UInsert n k v]" "l < n" "bt_get (mv_map s) k = None"
  shows "rollback_loop l s = rollback_loop l (s\<lparr>mv_map := bt_put k v (mv_map s), undo := rs\<rparr>)"
  using assms by (subst rollback_loop.simps) (simp add: bt_insert_def)

lemma rollback_loop_remove:
  assumes "undo s = rs @ [URemove n k]" "l < n" "bt_get (mv_map s) k = Some p"
  shows "rollback_loop l s = rollback_loop l (s\<lparr>mv_map := bt_del k (mv_map s), undo := rs\<rparr>)"
  using assms by (subst rollback_loop.simps) (simp add: bt_remove_def)

lemma rollback_loop_step:
  assumes "bt_inv (mv_map s)" "l < n"
  shows "rollback_loop l
           (s\<lparr>mv_map := step_map op (mv_map s), undo := undo s @ step_records n op (mv_map s)\<rparr>) =
         rollback_loop l s"
proof (cases op)
  case (OpInsert k v)
  show ?thesis
  proof (cases "bt_get (mv_map s) k")
    case None
    with OpInsert assms show ?thesis
      by (subst rollback_loop_remove [of _ "undo s" n k]) (auto simp: bt.del_put_fresh)
  next
    case (Some p)
    with OpInsert assms show ?thesis
      by (subst rollback_loop_remove [of _ "undo s @ [UInsert n k p]" n k])
         (auto simp: bt.del_put bt.put_del_restore rollback_loop_insert [of _ "undo s" n k p])
  qed
next
  case (OpRemove k)
  with assms show ?thesis
    by (auto simp: bt.del_absent bt.put_del_restore rollback_loop_insert [of _ "undo s" n k]
        split: option.splits)
qed

interpretation mv: undo_log mv_inv current_lsn checkpoint_lsn mv_step rollback_to_lsn
proof unfold_locales
  fix s s' :: "('a::linorder, 'b, 'c::linorder) MultiVersionedMap" and n l op
  show "mv_inv s'" if "mv_inv s" "mv_step n op s = Some s'"
    using that by (auto simp: mv_step_eq step_records_lsn step_map_inv mv_inv_def [of s]
        intro!: mv_inv_push split: if_splits)
  show "current_lsn s' \<le> n" if "mv_step n op s = Some s'"
    using that by (auto simp: mv_step_eq step_current_lsn split: if_splits)
  show "checkpoint_lsn s' = checkpoint_lsn s" if "mv_step n op s = Some s'"
    using that by (auto simp: mv_step_eq checkpoint_lsn_def split: if_splits)
  show "rollback_to_lsn l s = Some s" if "checkpoint_lsn s \<le> l" "current_lsn s \<le> l"
    using that by (simp add: rollback_to_lsn_def rollback_loop_stop)
  show "rollback_to_lsn l s' = rollback_to_lsn l s"
    if "mv_inv s" "l < n" "mv_step n op s = Some s'"
    using that by (auto simp: mv_step_eq rollback_to_lsn_def rollback_loop_step mv_inv_def
        checkpoint_lsn_def split: if_splits)
qed

section \<open>The map and its persistent image\<close>

text \<open>
  The life of a map beside the table its checkpoints are written to: changes, roll-backs
  and checkpoints in any order.
\<close>

inductive mv_sys ::
  "('k::linorder, 'v, 'lsn::linorder) MultiVersionedMap \<times> ('k, 'v) btree \<Rightarrow> bool" where
  init: "mv_sys (mv_new dflt, [])"
| change: "mv_sys (s, d) \<Longrightarrow> mv_step n op s = Some s' \<Longrightarrow> mv_sys (s', d)"
| roll: "mv_sys (s, d) \<Longrightarrow> rollback_to_lsn l s = Some s' \<Longrightarrow> mv_sys (s', d)"
| ckpt: "mv_sys (s, d) \<Longrightarrow> checkpoint s = (diff, s') \<Longrightarrow> mv_sys (s', write_log diff d)"

inductive_cases mv_sysE: "mv_sys (s, d)"

text \<open>A state is \<open>logged\<close> over a table when its log explains the difference.\<close>

definition logged ::
  "('k::linorder, 'v) btree \<Rightarrow> ('k, 'v, 'lsn::linorder) MultiVersionedMap \<Rightarrow> bool" where
  "logged d s \<longleftrightarrow>
     (\<exists>s0 ops. mv_inv s0 \<and> undo s0 = [] \<and> mv_map s0 = d \<and> run_ops mv_step ops s0 = Some s)"

lemma logged_step:
  assumes "logged d s" "mv_step n op s = Some s'"
  shows "logged d s'"
proof -
  obtain s0 ops where "mv_inv s0" "undo s0 = []" "mv_map s0 = d" "run_ops mv_step ops s0 = Some s"
    using assms(1) unfolding logged_def by blast
  moreover from this(4) have "run_ops mv_step (ops @ [(n, op)]) s0 = Some s'"
    using assms(2) by (simp add: run_ops_append)
  ultimately show ?thesis unfolding logged_def by blast
qed

lemma logged_rollback:
  assumes "logged d s" "checkpoint_lsn s \<le> l"
  shows "\<exists>s'. rollback_to_lsn l s = Some s' \<and> current_lsn s' \<le> l \<and> logged d s'"
proof -
  obtain s0 ops where s0: "mv_inv s0" "undo s0 = []" "mv_map s0 = d" "run_ops mv_step ops s0 = Some s"
    using assms(1) unfolding logged_def by blast
  moreover have "checkpoint_lsn s = checkpoint_lsn s0" "current_lsn s0 = checkpoint_lsn s0"
    using mv.run_inv [OF s0(4,1)] s0(2) by (auto simp: checkpoint_lsn_def)
  ultimately show ?thesis
    using mv.rollback_total [OF s0(4,1), of l] assms(2) unfolding logged_def by fastforce
qed

lemma logged_unchanged:
  assumes "run_ops mv_step ops s0 = Some s" "mv_inv s0"
    "k \<notin> record_key ` set (undo s)"
  shows "bt_get (mv_map s) k = bt_get (mv_map s0) k"
  using assms(1,3)
proof (induction ops arbitrary: s rule: rev_induct)
  case (snoc o1 ops)
  obtain n op where o1: "o1 = (n, op)" by (cases o1)
  with snoc.prems obtain t where t: "run_ops mv_step ops s0 = Some t" "mv_step n op t = Some s"
    by (auto simp: run_ops_append outcome_simps)
  moreover have "bt_inv (mv_map t)"
    using mv.run_inv [OF t(1)] assms(2) by (simp add: mv_inv_def)
  ultimately show ?case
    using snoc.IH [OF t(1)] snoc.prems(2)
    by (cases op) (auto simp: mv_step_eq split: if_splits option.splits)
qed simp

text \<open>The patch holds the current value of exactly the keys the log mentions.\<close>

lemma fold_patch:
  "bt_inv result \<Longrightarrow> bt_inv (fold (patch_step m) rs result) \<and>
   bt_get (fold (patch_step m) rs result) k =
     (if k \<in> record_key ` set rs \<and> bt_get result k = None then Some (bt_get m k)
      else bt_get result k)"
proof (induction rs arbitrary: result)
  case (Cons r rs)
  show ?case
    using Cons.prems Cons.IH [of "patch_step m r result"]
    by (auto simp: patch_step_def split: option.splits)
qed simp

lemma reverse_patch_inv: "bt_inv (reverse_patch m rs)"
  using fold_patch [of "[]" m rs] by (simp add: reverse_patch_def)

lemma reverse_patch_get:
  "bt_get (reverse_patch m rs) k = (if k \<in> record_key ` set rs then Some (bt_get m k) else None)"
  using fold_patch [of "[]" m rs] by (simp add: reverse_patch_def)

lemma bt_get_write_log:
  "distinct (map fst diff) \<Longrightarrow> bt_inv d \<Longrightarrow>
   bt_inv (write_log diff d) \<and>
   bt_get (write_log diff d) k = (case bt_get diff k of Some vo \<Rightarrow> vo | None \<Rightarrow> bt_get d k)"
proof (induction diff arbitrary: d)
  case (Cons e diff)
  obtain k' vo where e: "e = (k', vo)" by (cases e)
  have "bt_inv (write_entry e d)"
    using Cons.prems e by (cases vo) (auto simp: write_entry_def)
  moreover have "bt_get diff k' = None"
    using Cons.prems e by (simp add: map_of_eq_None_iff)
  ultimately show ?case
    using Cons.IH [of "write_entry e d"] Cons.prems e
    by (cases vo) (auto simp: write_log_def write_entry_def split: option.splits)
qed (simp add: write_log_def)

lemma logged_patch:
  assumes "logged d s"
  shows "write_log (reverse_patch (mv_map s) (undo s)) d = mv_map s"
proof -
  obtain s0 ops where s0: "mv_inv s0" "undo s0 = []" "mv_map s0 = d" "run_ops mv_step ops s0 = Some s"
    using assms unfolding logged_def by blast
  have inv: "bt_inv d" "bt_inv (mv_map s)"
    using s0 mv.run_inv [OF s0(4,1)] by (auto simp: mv_inv_def)
  note W = bt_get_write_log [OF bt_inv_distinct [OF reverse_patch_inv] inv(1)]
  show ?thesis
  proof (rule bt_ext)
    show "bt_get (write_log (reverse_patch (mv_map s) (undo s)) d) = bt_get (mv_map s)"
      using logged_unchanged [OF s0(4,1)] s0(3)
      by (intro ext) (simp add: W [THEN conjunct2] reverse_patch_get)
  qed (use W inv in auto)
qed

lemma logged_checkpoint: "mv_inv s \<Longrightarrow> checkpoint s = (diff, s') \<Longrightarrow> logged (mv_map s) s'"
  unfolding logged_def
  by (rule exI [of _ s'], rule exI [of _ "[]"]) (auto simp: checkpoint_def mv_inv_def)

lemma logged_inv: "logged d s \<Longrightarrow> mv_inv s"
  unfolding logged_def using mv.run_inv by blast

lemma mv_sys_logged: "mv_sys (s, d) \<Longrightarrow> logged d s"
proof (induction "(s, d)" arbitrary: s d rule: mv_sys.induct)
  case (init dflt)
  show ?case
    unfolding logged_def by (rule exI [of _ "mv_new dflt"], rule exI [of _ "[]"]) (auto simp: mv_new_def mv_inv_def)
next
  case (roll s d l s')
  then show ?case
    using logged_rollback [of d s l] by (auto simp: rollback_to_lsn_def split: if_splits)
next
  case (ckpt s d diff s')
  then show ?case
    using logged_patch [of d s] logged_checkpoint [OF logged_inv] by (auto simp: checkpoint_def)
qed (auto intro: logged_step)

section \<open>Properties\<close>

text \<open>
  The example of the source's documentation: two keys inserted under number 1.
\<close>

definition ex_map :: "(nat, nat, nat) MultiVersionedMap" where
  "ex_map = \<lparr>mv_map = [(101, 1001), (102, 1002)], undo = [URemove 1 101, URemove 1 102], ckpt_lsn = 0\<rparr>"

lemma ex_map_sys: "mv_sys (ex_map, [])"
proof -
  have "run_ops mv_step [(1, OpInsert 101 1001), (1, OpInsert 102 1002)] (mv_new 0) = Some ex_map"
    by (simp add: mv_new_def ex_map_def mv_step_eq current_lsn_def)
  then show ?thesis
    using mv_sys.init [of 0] by (auto simp: outcome_simps intro: mv_sys.change)
qed

text \<open>
  C12: rolling a map back to number \<open>l\<close> after any sequence of inserts and removals made
  under larger numbers restores the whole map (entries, remaining undo log, checkpoint)
  as it was, for every state the map can be in.
\<close>

theorem mvcc_rollback_restores:
  assumes "mv_sys (s, d)" "checkpoint_lsn s \<le> l" "current_lsn s \<le> l"
    and "run_ops mv_step ops s = Some s'" "\<forall>(n, _) \<in> set ops. l < n"
  shows "rollback_to_lsn l s' = Some s"
  using assms mv.rollback_undoes [OF assms(4) logged_inv [OF mv_sys_logged [OF assms(1)]]] by blast

theorem mvcc_rollback_restores_witness:
  "\<exists>s'. run_ops mv_step [(2, OpInsert 102 2002), (2, OpRemove 101), (3, OpInsert 103 2003)] ex_map = Some s' \<and>
        mv_map s' = [(102, 2002), (103, 2003)] \<and> rollback_to_lsn 1 s' = Some ex_map"
proof -
  let ?ops = "[(2, OpInsert 102 2002), (2, OpRemove 101), (3, OpInsert 103 2003)]"
  obtain s' where "run_ops mv_step ?ops ex_map = Some s'" "mv_map s' = [(102, 2002), (103, 2003)]"
    by (simp add: mv_step_eq ex_map_def current_lsn_def)
  moreover from this(1) have "rollback_to_lsn 1 s' = Some ex_map"
    by (intro mvcc_rollback_restores [OF ex_map_sys, where ops = ?ops])
       (simp_all add: ex_map_def checkpoint_lsn_def current_lsn_def)
  ultimately show ?thesis by blast
qed

text \<open>
  No assertion of \<open>rollback_to_lsn\<close> fails on a state the map can be in: a roll-back
  to any number since the last checkpoint returns, and the result is again such a state
  whose number is at most the requested one.
\<close>

theorem mvcc_rollback_total:
  assumes "mv_sys (s, d)" "checkpoint_lsn s \<le> l"
  shows "\<exists>s'. rollback_to_lsn l s = Some s' \<and> current_lsn s' \<le> l \<and> mv_sys (s', d)"
  using logged_rollback [OF mv_sys_logged [OF assms(1)] assms(2)] mv_sys.roll [OF assms(1)] by blast

theorem mvcc_rollback_total_witness:
  "\<exists>s'. rollback_to_lsn 0 ex_map = Some s' \<and> current_lsn s' \<le> 0 \<and> mv_sys (s', [])"
  by (rule mvcc_rollback_total [OF ex_map_sys]) (simp add: ex_map_def checkpoint_lsn_def)

text \<open>
  C29: writing the patch a checkpoint returns to the table that the previous checkpoints
  were written to makes that table equal to the map in memory, whatever changes and
  roll-backs lie between.
\<close>

theorem mvcc_checkpoint_persists:
  assumes "mv_sys (s, d)"
  shows "write_log (fst (checkpoint s)) d = mv_map s"
  using logged_patch [OF mv_sys_logged [OF assms]] by (simp add: checkpoint_def)

theorem mvcc_checkpoint_persists_witness:
  "write_log (fst (checkpoint ex_map)) [] = [(101, 1001), (102, 1002)]"
  using mvcc_checkpoint_persists [OF ex_map_sys] by (simp add: ex_map_def)

end
