(* ===== verification/Hashing.thy ===== *)
theory Hashing
  imports Prelude
begin

text \<open>
  The hashing layer of \<open>crypto/src/hash/mod.rs\<close>. A \<open>Hasher\<close> is fed a sequence of
  byte slices and computes SHA3-256 of their concatenation, so the \<open>Hashable\<close> instance
  of a type is the byte stream it feeds: a function into lists of bytes. SHA3 itself is a
  third-party crate and a parameter of every definition that digests something.

  The theory also holds the encodings the sources use (integers are transmuted, that is,
  written in little-endian order; fixed-size arrays are written as they are), with the
  lemmas that reading gives back what was written.
\<close>

unbundle bit_operations_syntax

section \<open>Fixed-size arrays and integers as bytes\<close>

definition le_bytes :: "nat \<Rightarrow> 'a::len word \<Rightarrow> bytes" where
  "le_bytes n w = map (\<lambda>i. ucast (drop_bit (8 * i) w)) [0..<n]"

definition be_bytes :: "nat \<Rightarrow> 'a::len word \<Rightarrow> bytes" where
  "be_bytes n w = rev (le_bytes n w)"

fun of_le_bytes :: "bytes \<Rightarrow> 'a::len word" where
  "of_le_bytes [] = 0"
| "of_le_bytes (b # bs) = ucast b OR push_bit 8 (of_le_bytes bs)"

definition of_be_bytes :: "bytes \<Rightarrow> 'a::len word" where
  "of_be_bytes bs = of_le_bytes (rev bs)"

text \<open>\<open>str::as_bytes\<close> for the ASCII tags the sources hash.\<close>

definition str_bytes :: "string \<Rightarrow> bytes" where
  "str_bytes s = map (\<lambda>c. word_of_nat (of_char c)) s"

section \<open>Hashable\<close>

definition hash_bool :: "bool \<Rightarrow> bytes" where
  "hash_bool b = [if b then 1 else 0]"

definition hash_u32 :: "u32 \<Rightarrow> bytes" where
  "hash_u32 x = le_bytes 4 x"

definition hash_u64 :: "u64 \<Rightarrow> bytes" where
  "hash_u64 x = le_bytes 8 x"

definition hash_i64 :: "i64 \<Rightarrow> bytes" where
  "hash_i64 x = le_bytes 8 x"

definition hash_str :: "string \<Rightarrow> bytes" where
  "hash_str s = str_bytes s"

definition hash_hash :: "hash \<Rightarrow> bytes" where
  "hash_hash h = be_bytes 32 h"

fun hash_option :: "('a \<Rightarrow> bytes) \<Rightarrow> 'a option \<Rightarrow> bytes" where
  "hash_option f (Some v) = f v"
| "hash_option f None = []"

definition hash_pair :: "('a \<Rightarrow> bytes) \<Rightarrow> ('b \<Rightarrow> bytes) \<Rightarrow> 'a \<times> 'b \<Rightarrow> bytes" where
  "hash_pair f g p = f (fst p) @ g (snd p)"

text \<open>A counted sequence: the length as \<open>u64\<close>, then the elements one after another.\<close>

definition hash_seq :: "('a \<Rightarrow> bytes) \<Rightarrow> 'a list \<Rightarrow> bytes" where
  "hash_seq f xs = hash_u64 (word_of_nat (length xs)) @ concat (map f xs)"

text \<open>The BLS types of \<open>crypto/src/pbc/mod.rs\<close>.\<close>

definition hash_Signature :: "pbc_sig \<Rightarrow> bytes" where
  "hash_Signature s = hash_str ''Signature'' @ be_bytes 48 s"

definition hash_pbc_PublicKey :: "pbc_pkey \<Rightarrow> bytes" where
  "hash_pbc_PublicKey k = hash_str ''PublicKey'' @ be_bytes 96 k"

definition hash_G1 :: "b48 \<Rightarrow> bytes" where
  "hash_G1 g = hash_str ''G1'' @ be_bytes 48 g"

section \<open>Lengths and round trips\<close>

lemma length_le_bytes [simp]: "length (le_bytes n w) = n"
  by (simp add: le_bytes_def)

lemma length_be_bytes [simp]: "length (be_bytes n w) = n"
  by (simp add: be_bytes_def)

lemma length_hash [simp]:
  "length (hash_u32 a) = 4" "length (hash_u64 b) = 8" "length (hash_i64 b) = 8"
  "length (hash_hash h) = 32" "length (hash_bool c) = 1"
  by (simp_all add: hash_u32_def hash_u64_def hash_i64_def hash_hash_def hash_bool_def)

lemma le_bytes_Suc: "le_bytes (Suc n) w = ucast w # le_bytes n (drop_bit 8 w)"
  by (simp add: le_bytes_def upt_conv_Cons map_Suc_upt [symmetric] del: upt_Suc)
    (simp add: comp_def drop_bit_drop_bit add.commute)

lemma bit_of_le_bytes_take:
  "of_le_bytes (le_bytes n w) = take_bit (8 * n) (w :: 'a::len word)"
proof (induction n arbitrary: w)
  case 0
  then show ?case by (simp add: le_bytes_def)
next
  case (Suc n)
  then show ?case
    by (auto simp: le_bytes_Suc bit_eq_iff bit_simps)
qed

lemma of_le_bytes_le_bytes [simp]:
  "LENGTH('a) \<le> 8 * n \<Longrightarrow> of_le_bytes (le_bytes n w) = (w :: 'a::len word)"
  by (simp add: bit_of_le_bytes_take take_bit_word_eq_self)

lemma of_be_bytes_be_bytes [simp]:
  "LENGTH('a) \<le> 8 * n \<Longrightarrow> of_be_bytes (be_bytes n w) = (w :: 'a::len word)"
  by (simp add: of_be_bytes_def be_bytes_def)

lemma le_bytes_inject [simp]:
  "LENGTH('a) \<le> 8 * n \<Longrightarrow> le_bytes n v = le_bytes n w \<longleftrightarrow> v = (w :: 'a::len word)"
  by (metis of_le_bytes_le_bytes)

lemma be_bytes_inject [simp]:
  "LENGTH('a) \<le> 8 * n \<Longrightarrow> be_bytes n v = be_bytes n w \<longleftrightarrow> v = (w :: 'a::len word)"
  by (simp add: be_bytes_def)

text \<open>A simple polynomial hash, used where a definition is evaluated on an example.\<close>

definition sample_sha3 :: "bytes \<Rightarrow> hash" where
  "sample_sha3 = foldl (\<lambda>h b. 31 * h + ucast b + 1) 7"

end
