(* ===== verification/Merkle.thy ===== *)
theory Merkle
  imports Hashing
begin

text \<open>
  The Merkle tree of \<open>blockchain/src/merkle.rs\<close>. The hash function \<open>H\<close> (SHA3-256) and the
  byte stream \<open>hb\<close> of an element are parameters. A \<open>Vec\<close> used as a stack is a list whose
  head is the last element of the vector; a panic is \<open>None\<close>.

  The reference definition is \<open>mtree\<close>, the tree of a given height over a list of leaves
  built top-down; \<open>from_array\<close>, which works bottom-up on two stacks, is shown to build it.
\<close>

section \<open>Data\<close>

datatype 'a Node = Node
  (node_hash: hash)
  (node_left: "'a Node option")
  (node_right: "'a Node option")
  (node_value: "'a option")

record 'a SerializedNode =
  sn_hash :: hash
  sn_left :: "nat option"
  sn_right :: "nat option"
  sn_value :: "'a option"

datatype MerkleError = InvalidStructure | ValidationError hash hash

type_synonym Height = u8
type_synonym Path = u32
type_synonym hasher = "bytes \<Rightarrow> hash"

section \<open>Heights\<close>

definition next_pow2 :: "u64 \<Rightarrow> u64" where
  "next_pow2 n =
     (let n = n - 1;
          n = n OR drop_bit 1 n;
          n = n OR drop_bit 2 n;
          n = n OR drop_bit 4 n;
          n = n OR drop_bit 8 n;
          n = n OR drop_bit 16 n;
          n = n OR drop_bit 32 n
      in n + 1)"

text \<open>\<open>u64::trailing_zeros\<close> of the standard library.\<close>

definition trailing_zeros :: "u64 \<Rightarrow> nat" where
  "trailing_zeros w = length (takeWhile (\<lambda>i. \<not> bit w i) [0..<64])"

definition expected_height :: "u64 \<Rightarrow> Height" where
  "expected_height n = word_of_nat (trailing_zeros (next_pow2 n))"

section \<open>Building\<close>

definition inner_hash :: "hasher \<Rightarrow> hash \<Rightarrow> hash \<Rightarrow> hash" where
  "inner_hash H l r = H (hash_str ''Inner'' @ hash_hash l @ hash_hash r)"

definition leaf_hash :: "hasher \<Rightarrow> ('a \<Rightarrow> bytes) \<Rightarrow> 'a \<Rightarrow> hash" where
  "leaf_hash H hb v = H (hash_str ''Leaf'' @ hb v)"

fun pull :: "hasher \<Rightarrow> 'a Node list \<times> Height list \<Rightarrow> ('a Node list \<times> Height list) option" where
  "pull H (right # left # nodes, height # height1 # heights) =
     (if length nodes \<noteq> length heights \<or> height1 \<noteq> height then None
      else
        let node = Node (inner_hash H (node_hash left) (node_hash right))
                     (Some left) (Some right) None
        in Some (node # nodes, (height + 1) # heights))"
| "pull H _ = None"

fun pull_left ::
  "hasher \<Rightarrow> 'a Node list \<times> Height list \<Rightarrow> ('a Node list \<times> Height list) option" where
  "pull_left H (left # below # nodes, height # height1 # heights) =
     (if length nodes \<noteq> length heights \<or> height1 = height then None
      else
        let node = Node (inner_hash H (node_hash left) (node_hash left)) (Some left) None None
        in Some (node # below # nodes, (height + 1) # height1 # heights))"
| "pull_left H _ = None"

lemma pull_shorter: "pull H (ns, hs) = Some (ns', hs') \<Longrightarrow> length ns = Suc (length ns')"
  by (induction H "(ns, hs)" rule: pull.induct) (auto simp: Let_def split: if_splits)

text \<open>The loop that creates parent nodes after a leaf has been pushed.\<close>

function pull_while ::
  "hasher \<Rightarrow> 'a Node list \<times> Height list \<Rightarrow> ('a Node list \<times> Height list) option" where
  "pull_while H (nodes, heights) =
     (if length nodes \<le> 1 then Some (nodes, heights)
      else case heights of
        h0 # h1 # _ \<Rightarrow>
          if h1 = h0 then
            (case pull H (nodes, heights) of
               Some st \<Rightarrow> pull_while H st
             | None \<Rightarrow> None)
          else Some (nodes, heights)
      | _ \<Rightarrow> None)"
  by pat_completeness auto
termination
  by (relation "measure (\<lambda>(H, ns, hs). length ns)") (auto dest: pull_shorter)

text \<open>
  The loop that folds the stack when the number of elements is not a power of two. It ends:
  a full step shortens the stack, and a left step moves the top height one closer to the
  height below, which it meets because heights wrap.
\<close>

function fold_stack ::
  "hasher \<Rightarrow> 'a Node list \<times> Height list \<Rightarrow> ('a Node list \<times> Height list) option" where
  "fold_stack H (nodes, heights) =
     (if length nodes \<le> 1 then Some (nodes, heights)
      else case heights of
        h0 # h1 # _ \<Rightarrow>
          if h1 = h0 then
            (case pull H (nodes, heights) of
               Some st \<Rightarrow> fold_stack H st
             | None \<Rightarrow> None)
          else
            (case pull_left H (nodes, heights) of
               Some st \<Rightarrow> fold_stack H st
             | None \<Rightarrow> None)
      | _ \<Rightarrow> None)"
  by pat_completeness auto

lemma pull_left_SomeD:
  "pull_left H (ns, h0 # h1 # hs) = Some (ns', hs') \<Longrightarrow>
   length ns' = length ns \<and> hs' = (h0 + 1) # h1 # hs \<and> h1 \<noteq> h0"
  by (induction H "(ns, h0 # h1 # hs)" rule: pull_left.induct)
    (auto simp: Let_def split: if_splits)

lemma unat_gap_decreases: "b \<noteq> a \<Longrightarrow> unat (b - (a + 1) :: 'n::len word) < unat (b - a)"
proof -
  assume "b \<noteq> a"
  then have "b - a \<noteq> 0" by simp
  then show ?thesis
    using measure_unat [of "b - a"] by (simp add: diff_diff_eq)
qed

termination fold_stack
  by (relation "measures [\<lambda>(H, ns, hs). length ns,
        \<lambda>(H, ns, hs). case hs of h0 # h1 # _ \<Rightarrow> unat (h1 - h0) | _ \<Rightarrow> 0]")
    (auto dest: pull_shorter pull_left_SomeD simp: unat_gap_decreases)

fun push_leaves ::
  "hasher \<Rightarrow> ('a \<Rightarrow> bytes) \<Rightarrow> 'a list \<Rightarrow> 'a Node list \<times> Height list
     \<Rightarrow> ('a Node list \<times> Height list) option" where
  "push_leaves H hb [] st = Some st"
| "push_leaves H hb (value # src) (nodes, heights) =
     (let node = Node (leaf_hash H hb value) None None (Some value)
      in case pull_while H (node # nodes, 0 # heights) of
           Some st \<Rightarrow> push_leaves H hb src st
         | None \<Rightarrow> None)"

definition from_array :: "hasher \<Rightarrow> ('a \<Rightarrow> bytes) \<Rightarrow> 'a list \<Rightarrow> 'a Node option" where
  "from_array H hb src =
     (if length src > unat (- 1 :: Path) then None
      else if length src = 0 then Some (Node 0 None None None)
      else
        case Option.bind (push_leaves H hb src ([], [])) (fold_stack H) of
          Some ([root], [height]) \<Rightarrow>
            if height = expected_height (word_of_nat (length src)) then Some root else None
        | _ \<Rightarrow> None)"

definition root_hash_from_array :: "hasher \<Rightarrow> ('a \<Rightarrow> bytes) \<Rightarrow> 'a list \<Rightarrow> hash option" where
  "root_hash_from_array H hb src = map_option node_hash (from_array H hb src)"

section \<open>Lookup and pruning\<close>

text \<open>The outer option is a panic (\<open>unreachable!\<close>), the inner one the result.\<close>

fun lookup :: "'a Node \<Rightarrow> Path \<Rightarrow> 'a option option" where
  "lookup (Node h l r v) path =
     (let left_direction = path AND 1 = 0;
          path = drop_bit 1 path
      in case (l, r, v) of
           (Some left, Some right, None) \<Rightarrow>
             if left_direction then lookup left path else lookup right path
         | (Some left, None, None) \<Rightarrow>
             if left_direction then lookup left path else Some None
         | (None, Some right, None) \<Rightarrow>
             if left_direction then Some None else lookup right path
         | (None, None, Some value) \<Rightarrow> Some (Some value)
         | (None, None, None) \<Rightarrow> Some None
         | _ \<Rightarrow> None)"

definition node_empty :: "'a Node option \<Rightarrow> bool" where
  "node_empty n = (case n of
     Some (Node h l r v) \<Rightarrow> Option.is_none l \<and> Option.is_none r \<and> Option.is_none v
   | None \<Rightarrow> True)"

text \<open>\<open>prune_r\<close> mutates the node it is given: the new node is returned with the value.\<close>

fun prune_r :: "'a Node \<Rightarrow> Path \<Rightarrow> ('a Node \<times> 'a option) option" where
  "prune_r (Node h l r v) path =
     (if Option.is_none l \<and> Option.is_none r then Some (Node h l r None, v)
      else
        let left_direction = path AND 1 = 0 in
        case (if left_direction then
                (case l of
                   Some left \<Rightarrow> map_option (\<lambda>(n, x). (Some n, r, x)) (prune_r left (drop_bit 1 path))
                 | None \<Rightarrow> None)
              else
                (case r of
                   Some right \<Rightarrow> map_option (\<lambda>(n, x). (l, Some n, x)) (prune_r right (drop_bit 1 path))
                 | None \<Rightarrow> Some (l, r, None))) of
          None \<Rightarrow> None
        | Some (l, r, None) \<Rightarrow> Some (Node h l r v, None)
        | Some (l, r, Some value) \<Rightarrow>
            if node_empty l \<and> node_empty r then Some (Node h None None v, Some value)
            else Some (Node h l r v, Some value))"

definition prune :: "'a Node \<Rightarrow> Path \<Rightarrow> ('a Node \<times> 'a option) option" where
  "prune root path = prune_r root path"

text \<open>
  The shift amount of \<open>1 << h\<close> is masked to the width of the path, as the processor does
  when overflow checks are off.
\<close>

fun leafs_r :: "('a \<times> Path) list \<Rightarrow> 'a Node \<Rightarrow> Path \<Rightarrow> Height \<Rightarrow> ('a \<times> Path) list option" where
  "leafs_r rs (Node hs l r v) path h =
     (case (l, r, v) of
        (Some left, Some right, None) \<Rightarrow>
          Option.bind (leafs_r rs left path (h + 1))
            (\<lambda>rs. leafs_r rs right (path OR push_bit (unat h mod 32) 1) (h + 1))
      | (Some left, None, None) \<Rightarrow> leafs_r rs left path (h + 1)
      | (None, None, Some value) \<Rightarrow> Some (rs @ [(value, path)])
      | (None, None, None) \<Rightarrow> Some rs
      | _ \<Rightarrow> None)"

definition leafs :: "'a Node \<Rightarrow> ('a \<times> Path) list option" where
  "leafs root = leafs_r [] root 0 0"

section \<open>Validation and serialization\<close>

fun validate_r :: "hasher \<Rightarrow> ('a \<Rightarrow> bytes) \<Rightarrow> 'a Node \<Rightarrow> (MerkleError, unit) outcome" where
  "validate_r H hb (Node h l r v) =
     (case (l, r, v) of
        (Some left, Some right, None) \<Rightarrow>
          obind (validate_r H hb left) (\<lambda>_.
          obind (validate_r H hb right) (\<lambda>_.
            let check_hash = inner_hash H (node_hash left) (node_hash right)
            in if h \<noteq> check_hash then Err (ValidationError h check_hash) else Ok ()))
      | (Some left, None, None) \<Rightarrow>
          obind (validate_r H hb left) (\<lambda>_.
            let check_hash = inner_hash H (node_hash left) (node_hash left)
            in if h \<noteq> check_hash then Err (ValidationError h check_hash) else Ok ())
      | (None, None, Some value) \<Rightarrow>
          (let check_hash = leaf_hash H hb value
           in if h \<noteq> check_hash then Err (ValidationError h check_hash) else Ok ())
      | (None, None, None) \<Rightarrow> Ok ()
      | _ \<Rightarrow> Err InvalidStructure)"

definition validate :: "hasher \<Rightarrow> ('a \<Rightarrow> bytes) \<Rightarrow> 'a Node \<Rightarrow> (MerkleError, unit) outcome" where
  "validate H hb root = validate_r H hb root"

text \<open>\<open>serialize_r\<close> appends to the vector and returns the index of the node it wrote.\<close>

fun serialize_r ::
  "'a SerializedNode list \<Rightarrow> 'a Node \<Rightarrow> ('a SerializedNode list \<times> nat) option" where
  "serialize_r rs (Node h l r v) =
     (case (l, r, v) of
        (Some left, Some right, None) \<Rightarrow>
          Option.bind (serialize_r rs left) (\<lambda>(rs, left).
          Option.bind (serialize_r rs right) (\<lambda>(rs, right).
            Some (rs @ [\<lparr>sn_hash = h, sn_left = Some left, sn_right = Some right, sn_value = None\<rparr>],
                  length rs)))
      | (Some left, None, None) \<Rightarrow>
          Option.bind (serialize_r rs left) (\<lambda>(rs, left).
            Some (rs @ [\<lparr>sn_hash = h, sn_left = Some left, sn_right = None, sn_value = None\<rparr>],
                  length rs))
      | (None, None, v) \<Rightarrow>
          Some (rs @ [\<lparr>sn_hash = h, sn_left = None, sn_right = None, sn_value = v\<rparr>], length rs)
      | _ \<Rightarrow> None)"

definition serialize :: "'a Node \<Rightarrow> 'a SerializedNode list option" where
  "serialize root = map_option fst (serialize_r [] root)"

text \<open>
  One step of \<open>deserialize\<close>: \<open>take_node\<close> is the bounds check followed by
  \<open>nodes[i].take()\<close>.
\<close>

definition take_node ::
  "'a Node option list \<Rightarrow> nat option \<Rightarrow> (MerkleError, 'a Node option \<times> 'a Node option list) outcome"
where
  "take_node nodes idx = (case idx of
     None \<Rightarrow> Ok (None, nodes)
   | Some i \<Rightarrow>
       if i \<ge> length nodes \<or> Option.is_none (nodes ! i) then Err InvalidStructure
       else Ok (nodes ! i, nodes[i := None]))"

fun deserialize_nodes ::
  "'a SerializedNode list \<Rightarrow> 'a Node option list \<Rightarrow> (MerkleError, 'a Node option list) outcome" where
  "deserialize_nodes [] nodes = Ok nodes"
| "deserialize_nodes (snode # snodes) nodes =
     obind (take_node nodes (sn_left snode)) (\<lambda>(left, nodes).
     obind (take_node nodes (sn_right snode)) (\<lambda>(right, nodes).
       deserialize_nodes snodes (nodes @ [Some (Node (sn_hash snode) left right (sn_value snode))])))"

definition deserialize ::
  "hasher \<Rightarrow> ('a \<Rightarrow> bytes) \<Rightarrow> 'a SerializedNode list \<Rightarrow> (MerkleError, 'a Node) outcome" where
  "deserialize H hb snodes =
     (if length snodes < 1 then Err InvalidStructure
      else
        obind (deserialize_nodes snodes []) (\<lambda>nodes.
          case (if nodes = [] then None else last nodes) of
            None \<Rightarrow> Panic
          | Some root \<Rightarrow>
              if \<exists>node \<in> set (butlast nodes). \<not> Option.is_none node then Err InvalidStructure
              else obind (validate_r H hb root) (\<lambda>_. Ok root)))"

section \<open>The height of the tree\<close>

declare pull_while.simps [simp del] fold_stack.simps [simp del]

lemma bit_smear:
  assumes "\<And>i. bit (w :: u64) i \<longleftrightarrow> i < 64 \<and> (\<exists>d < s. bit m (i + d))"
  shows "bit (w OR drop_bit s w) i \<longleftrightarrow> i < 64 \<and> (\<exists>d < 2 * s. bit (m :: u64) (i + d))"
proof (cases "i < 64")
  case True
  have hi: "bit m (s + i + d) \<Longrightarrow> s + i < 64" for d
    using bit_imp_le_length [of m "s + i + d"] by simp
  have "(\<exists>d < 2 * s. bit m (i + d)) \<longleftrightarrow> (\<exists>d < s. bit m (i + d)) \<or> (\<exists>d < s. bit m (s + i + d))"
    (is "?l \<longleftrightarrow> ?r1 \<or> ?r2")
  proof
    assume ?l
    then obtain d where d: "d < 2 * s" "bit m (i + d)" by blast
    show "?r1 \<or> ?r2"
    proof (cases "d < s")
      case False
      then have "d - s < s" "bit m (s + i + (d - s))" using d by simp_all
      then show ?thesis by blast
    next
      case True
      then show ?thesis using d by blast
    qed
  next
    assume "?r1 \<or> ?r2"
    then show ?l
    proof
      assume ?r2
      then obtain d where "d < s" "bit m (s + i + d)" by blast
      then show ?l by (intro exI [of _ "s + d"]) (simp add: ac_simps)
    qed force
  qed
  then show ?thesis
    using True hi by (auto simp: bit_simps assms)
next
  case False
  then show ?thesis by (auto simp: assms bit_simps dest: bit_imp_le_length)
qed

lemma next_pow2_eq:
  assumes "0 < n" "n \<le> 2 ^ k" "2 ^ k < 2 * n" "k < 64"
  shows "next_pow2 (word_of_nat n) = 2 ^ k"
proof -
  define m :: u64 where "m = word_of_nat n - 1"
  have m_nat: "m = word_of_nat (n - 1)"
    using of_nat_diff [of 1 n, where ?'a = u64] assms(1) by (simp add: m_def)
  have "n - 1 < 2 ^ k" using assms(1,2) by linarith
  have bit_m: "bit m i \<longleftrightarrow> i < 64 \<and> odd ((n - 1) div 2 ^ i)" for i
    by (simp only: m_nat bit_of_nat_iff possible_bit_word) (simp add: bit_iff_odd)
  have high: "\<not> bit m i" if "k \<le> i" for i
  proof -
    have "n - 1 < 2 ^ i"
      by (rule less_le_trans [OF \<open>n - 1 < 2 ^ k\<close> power_increasing [OF that]]) simp
    then show ?thesis by (simp add: bit_m)
  qed
  have top: "bit m (k - 1)" if "0 < k"
  proof -
    obtain j where k: "k = Suc j" using \<open>0 < k\<close> by (cases k) auto
    then have "(n - 1) div 2 ^ j = 1"
      using assms(2,3) \<open>n - 1 < 2 ^ k\<close> by (intro div_nat_eqI) simp_all
    then show ?thesis
      using assms(4) k by (simp add: bit_m)
  qed
  define w0 where "w0 = m"
  define w1 where "w1 = w0 OR drop_bit 1 w0"
  define w2 where "w2 = w1 OR drop_bit 2 w1"
  define w3 where "w3 = w2 OR drop_bit 4 w2"
  define w4 where "w4 = w3 OR drop_bit 8 w3"
  define w5 where "w5 = w4 OR drop_bit 16 w4"
  define w6 where "w6 = w5 OR drop_bit 32 w5"
  have b0: "bit w0 i \<longleftrightarrow> i < 64 \<and> (\<exists>d < 1. bit m (i + d))" for i
    using bit_imp_le_length [of m i] by (auto simp: w0_def)
  have b1: "bit w1 i \<longleftrightarrow> i < 64 \<and> (\<exists>d < 2. bit m (i + d))" for i
    using bit_smear [OF b0, of i] unfolding w1_def by simp
  have b2: "bit w2 i \<longleftrightarrow> i < 64 \<and> (\<exists>d < 4. bit m (i + d))" for i
    using bit_smear [OF b1, of i] unfolding w2_def by simp
  have b3: "bit w3 i \<longleftrightarrow> i < 64 \<and> (\<exists>d < 8. bit m (i + d))" for i
    using bit_smear [OF b2, of i] unfolding w3_def by simp
  have b4: "bit w4 i \<longleftrightarrow> i < 64 \<and> (\<exists>d < 16. bit m (i + d))" for i
    using bit_smear [OF b3, of i] unfolding w4_def by simp
  have b5: "bit w5 i \<longleftrightarrow> i < 64 \<and> (\<exists>d < 32. bit m (i + d))" for i
    using bit_smear [OF b4, of i] unfolding w5_def by simp
  have b6: "bit w6 i \<longleftrightarrow> i < 64 \<and> (\<exists>d < 64. bit m (i + d))" for i
    using bit_smear [OF b5, of i] unfolding w6_def by simp
  have "bit w6 i \<longleftrightarrow> i < k" for i
  proof
    assume "bit w6 i"
    then show "i < k" unfolding b6 using high by (meson le_add1 le_trans not_le)
  next
    assume "i < k"
    then have "bit m (i + (k - 1 - i))" using top by simp
    moreover have "k - 1 - i < 64" "i < 64" using \<open>i < k\<close> assms(4) by linarith+
    ultimately show "bit w6 i" using b6 by blast
  qed
  then have "w6 = mask k"
    using assms(4) by (intro bit_word_eqI) (simp add: bit_simps)
  moreover have "next_pow2 (word_of_nat n) = w6 + 1"
    by (simp only: next_pow2_def Let_def w0_def w1_def w2_def w3_def w4_def w5_def w6_def m_def)
  ultimately show ?thesis
    by (simp add: mask_eq_exp_minus_1)
qed

lemma trailing_zeros_pow2:
  assumes "k < 64" shows "trailing_zeros (2 ^ k) = k"
proof -
  have "takeWhile (\<lambda>i. \<not> bit (2 ^ k :: u64) i) [0..<64] =
        takeWhile (\<lambda>i. \<not> bit (2 ^ k :: u64) i) ([0..<k] @ k # [Suc k..<64])"
    using assms upt_add_eq_append [of 0 k "64 - k"] by (simp flip: upt_conv_Cons)
  also have "\<dots> = [0..<k]"
    using assms by (subst takeWhile_append2) (auto simp: bit_simps)
  finally show ?thesis by (simp add: trailing_zeros_def)
qed

lemma expected_height_eq:
  assumes "0 < n" "n \<le> 2 ^ k" "2 ^ k < 2 * n" "k < 64"
  shows "expected_height (word_of_nat n) = word_of_nat k"
  by (simp add: expected_height_def next_pow2_eq [OF assms] trailing_zeros_pow2 [OF assms(4)])

section \<open>The reference tree\<close>

fun mtree :: "hasher \<Rightarrow> ('a \<Rightarrow> bytes) \<Rightarrow> nat \<Rightarrow> 'a list \<Rightarrow> 'a Node" where
  "mtree H hb 0 xs = Node (leaf_hash H hb (hd xs)) None None (Some (hd xs))"
| "mtree H hb (Suc h) xs =
     (if length xs \<le> 2 ^ h then
        let l = mtree H hb h xs
        in Node (inner_hash H (node_hash l) (node_hash l)) (Some l) None None
      else
        let l = mtree H hb h (take (2 ^ h) xs); r = mtree H hb h (drop (2 ^ h) xs)
        in Node (inner_hash H (node_hash l) (node_hash r)) (Some l) (Some r) None)"

text \<open>
  The stacks as a list of blocks (height, leaves), and the leaves of all blocks in order.
\<close>

definition stack_of ::
  "hasher \<Rightarrow> ('a \<Rightarrow> bytes) \<Rightarrow> (nat \<times> 'a list) list \<Rightarrow> 'a Node list \<times> Height list" where
  "stack_of H hb bs = (map (\<lambda>(h, xs). mtree H hb h xs) bs, map (\<lambda>(h, xs). word_of_nat h) bs)"

definition block_leaves :: "(nat \<times> 'a list) list \<Rightarrow> 'a list" where
  "block_leaves bs = concat (rev (map snd bs))"

text \<open>Complete blocks of strictly growing heights, all small enough for a \<open>u8\<close>.\<close>

definition full_blocks :: "(nat \<times> 'a list) list \<Rightarrow> bool" where
  "full_blocks bs \<longleftrightarrow> sorted_wrt (<) (map fst bs) \<and>
     (\<forall>(h, xs) \<in> set bs. length xs = 2 ^ h \<and> h < 32)"

lemma height_word_eq:
  "a \<le> 32 \<Longrightarrow> b \<le> 32 \<Longrightarrow> (word_of_nat a :: Height) = word_of_nat b \<longleftrightarrow> a = b"
  by (simp add: word_of_nat_eq_iff take_bit_nat_eq_self)

lemma pull_blocks:
  assumes "length ys = 2 ^ h" "xs \<noteq> []"
  shows "pull H (stack_of H hb ((h, xs) # (h, ys) # bs)) = Some (stack_of H hb ((Suc h, ys @ xs) # bs))"
  using assms by (simp add: stack_of_def Let_def)

lemma pull_left_blocks:
  assumes "length xs \<le> 2 ^ h" "h < k" "k \<le> 32"
  shows "pull_left H (stack_of H hb ((h, xs) # (k, ys) # bs)) =
         Some (stack_of H hb ((Suc h, xs) # (k, ys) # bs))"
  using assms height_word_eq [of k h] by (simp add: stack_of_def Let_def)

lemma pull_while_one: "pull_while H (stack_of H hb [b]) = Some (stack_of H hb [b])"
  by (simp add: stack_of_def pull_while.simps)

lemma pull_while_same:
  assumes "pull H (stack_of H hb ((h, xs) # (h, ys) # bs)) = Some st"
  shows "pull_while H (stack_of H hb ((h, xs) # (h, ys) # bs)) = pull_while H st"
  using assms unfolding stack_of_def by (subst pull_while.simps) simp

lemma pull_while_stop:
  assumes "h \<noteq> k" "h \<le> 32" "k \<le> 32"
  shows "pull_while H (stack_of H hb ((h, xs) # (k, ys) # bs)) =
         Some (stack_of H hb ((h, xs) # (k, ys) # bs))"
  using assms height_word_eq [of k h] unfolding stack_of_def by (subst pull_while.simps) simp

lemma pull_while_blocks:
  assumes "full_blocks bs" "length xs = 2 ^ h" "h < 32" "\<forall>(k, ys) \<in> set bs. h \<le> k"
    and "length (block_leaves ((h, xs) # bs)) < 2 ^ 32"
  shows "\<exists>bs'. pull_while H (stack_of H hb ((h, xs) # bs)) = Some (stack_of H hb bs')
           \<and> full_blocks bs' \<and> block_leaves bs' = block_leaves ((h, xs) # bs)"
  using assms
proof (induction bs arbitrary: h xs)
  case Nil
  then show ?case
    by (intro exI [of _ "[(h, xs)]"]) (simp add: pull_while_one full_blocks_def)
next
  case (Cons b bs)
  obtain k ys where b: "b = (k, ys)" by force
  have k: "k < 32" "length ys = 2 ^ k" "h \<le> k" "full_blocks bs" "\<forall>(j, zs) \<in> set bs. k < j"
    using Cons.prems b by (auto simp: full_blocks_def)
  show ?case
  proof (cases "k = h")
    case True
    have "Suc h < 32"
    proof (rule ccontr)
      assume "\<not> Suc h < 32"
      then have "h = 31" using Cons.prems(3) by simp
      then show False
        using Cons.prems(2,5) k(2) True b by (simp add: block_leaves_def)
    qed
    moreover have "length (ys @ xs) = 2 ^ Suc h" using True k(2) Cons.prems(2) by simp
    moreover have "\<forall>(j, zs) \<in> set bs. Suc h \<le> j" using k(5) True by auto
    moreover have "length (block_leaves ((Suc h, ys @ xs) # bs)) < 2 ^ 32"
      using Cons.prems(5) b by (simp add: block_leaves_def)
    ultimately obtain bs' where
      "pull_while H (stack_of H hb ((Suc h, ys @ xs) # bs)) = Some (stack_of H hb bs')"
      "full_blocks bs'" "block_leaves bs' = block_leaves ((Suc h, ys @ xs) # bs)"
      using Cons.IH [OF k(4)] by blast
    moreover have "xs \<noteq> []" using Cons.prems(2) by auto
    then have "pull_while H (stack_of H hb ((h, xs) # b # bs)) =
        pull_while H (stack_of H hb ((Suc h, ys @ xs) # bs))"
      using pull_while_same [OF pull_blocks] k(2) True b by blast
    ultimately show ?thesis
      using b by (intro exI [of _ bs']) (simp add: block_leaves_def)
  next
    case False
    then have "pull_while H (stack_of H hb ((h, xs) # b # bs)) = Some (stack_of H hb ((h, xs) # b # bs))"
      using pull_while_stop [of h k H hb xs ys bs] k(1) Cons.prems(3) b by simp
    moreover have "full_blocks ((h, xs) # b # bs)"
      using Cons.prems False k b by (auto simp: full_blocks_def)
    ultimately show ?thesis by blast
  qed
qed

lemma push_leaves_blocks:
  assumes "full_blocks bs" "length (block_leaves bs) + length src < 2 ^ 32"
  shows "\<exists>bs'. push_leaves H hb src (stack_of H hb bs) = Some (stack_of H hb bs')
           \<and> full_blocks bs' \<and> block_leaves bs' = block_leaves bs @ src"
  using assms
proof (induction src arbitrary: bs)
  case Nil
  then show ?case by auto
next
  case (Cons v src)
  have "\<exists>bs'. pull_while H (stack_of H hb ((0, [v]) # bs)) = Some (stack_of H hb bs')
           \<and> full_blocks bs' \<and> block_leaves bs' = block_leaves ((0, [v]) # bs)"
    using Cons.prems by (intro pull_while_blocks) (auto simp: block_leaves_def)
  then obtain bs1 where bs1:
    "pull_while H (stack_of H hb ((0, [v]) # bs)) = Some (stack_of H hb bs1)"
    "full_blocks bs1" "block_leaves bs1 = block_leaves bs @ [v]"
    by (auto simp: block_leaves_def)
  then obtain bs2 where
    "push_leaves H hb src (stack_of H hb bs1) = Some (stack_of H hb bs2)"
    "full_blocks bs2" "block_leaves bs2 = block_leaves bs1 @ src"
    using Cons.IH [of bs1] Cons.prems(2) by auto
  then show ?case
    using bs1 by (intro exI [of _ bs2]) (simp add: stack_of_def)
qed

lemma fold_stack_one: "fold_stack H (stack_of H hb [b]) = Some (stack_of H hb [b])"
  by (simp add: stack_of_def fold_stack.simps)

lemma fold_stack_same:
  assumes "pull H (stack_of H hb ((h, xs) # (h, ys) # bs)) = Some st"
  shows "fold_stack H (stack_of H hb ((h, xs) # (h, ys) # bs)) = fold_stack H st"
  using assms unfolding stack_of_def by (subst fold_stack.simps) simp

lemma fold_stack_diff:
  assumes "pull_left H (stack_of H hb ((h, xs) # (k, ys) # bs)) = Some st"
    and "h < k" "k \<le> 32"
  shows "fold_stack H (stack_of H hb ((h, xs) # (k, ys) # bs)) = fold_stack H st"
  using assms height_word_eq [of k h] unfolding stack_of_def by (subst fold_stack.simps) simp

lemmas fold_stack_left = fold_stack_diff [OF pull_left_blocks]

lemma fold_stack_raise:
  assumes "length xs \<le> 2 ^ h" "h \<le> k" "k \<le> 32"
  shows "fold_stack H (stack_of H hb ((h, xs) # (k, ys) # bs)) =
         fold_stack H (stack_of H hb ((k, xs) # (k, ys) # bs))"
  using assms(2,1)
proof (induction h rule: inc_induct)
  case (step h)
  then have "length xs \<le> 2 ^ Suc h" by simp
  with step show ?case using fold_stack_left [of xs h k H hb ys bs] assms(3) by (simp del: power_Suc)
qed simp

lemma fold_stack_blocks:
  assumes "full_blocks bs" "xs \<noteq> []" "length xs \<le> 2 ^ h" "h \<le> 32"
    and "\<forall>(k, ys) \<in> set bs. h \<le> k" "bs = [] \<Longrightarrow> 2 ^ h < 2 * length xs"
  shows "\<exists>k. fold_stack H (stack_of H hb ((h, xs) # bs)) =
               Some (stack_of H hb [(k, block_leaves ((h, xs) # bs))])
           \<and> length (block_leaves ((h, xs) # bs)) \<le> 2 ^ k
           \<and> 2 ^ k < 2 * length (block_leaves ((h, xs) # bs)) \<and> k \<le> 32"
  using assms
proof (induction bs arbitrary: h xs)
  case Nil
  then show ?case by (auto simp: fold_stack_one block_leaves_def)
next
  case (Cons b bs)
  obtain k ys where b: "b = (k, ys)" by force
  have k: "k < 32" "length ys = 2 ^ k" "h \<le> k" "full_blocks bs" "\<forall>(j, zs) \<in> set bs. k < j"
    using Cons.prems b by (auto simp: full_blocks_def)
  have "length xs \<le> 2 ^ k"
    by (rule order.trans [OF Cons.prems(3) power_increasing [OF k(3)]]) simp
  then have top: "ys @ xs \<noteq> []" "length (ys @ xs) \<le> 2 ^ Suc k" "2 ^ Suc k < 2 * length (ys @ xs)"
    using Cons.prems(2) k(2) by auto
  have "fold_stack H (stack_of H hb ((h, xs) # b # bs)) =
        fold_stack H (stack_of H hb ((k, xs) # (k, ys) # bs))"
    using fold_stack_raise [of xs h k H hb ys bs] Cons.prems(3) k b by simp
  also have "\<dots> = fold_stack H (stack_of H hb ((Suc k, ys @ xs) # bs))"
    using fold_stack_same [OF pull_blocks [OF k(2) Cons.prems(2)]] by blast
  finally have step: "fold_stack H (stack_of H hb ((h, xs) # b # bs)) =
        fold_stack H (stack_of H hb ((Suc k, ys @ xs) # bs))" .
  have "\<forall>(j, zs) \<in> set bs. Suc k \<le> j" using k(5) by auto
  moreover have "block_leaves ((Suc k, ys @ xs) # bs) = block_leaves ((h, xs) # b # bs)"
    using b by (simp add: block_leaves_def)
  ultimately show ?case
    using Cons.IH [OF k(4) top(1,2), of] top(3) k(1) step by simp
qed

lemma from_array_mtree:
  assumes "src \<noteq> []" "length src < 2 ^ 32"
  obtains k where "from_array H hb src = Some (mtree H hb k src)"
    and "length src \<le> 2 ^ k" "2 ^ k < 2 * length src" "k \<le> 32"
proof -
  obtain bs where bs: "push_leaves H hb src ([], []) = Some (stack_of H hb bs)"
    "full_blocks bs" "block_leaves bs = src"
    using push_leaves_blocks [of "[]" src H hb] assms(2)
    by (auto simp: full_blocks_def block_leaves_def stack_of_def)
  then obtain h xs bs' where b: "bs = (h, xs) # bs'"
    using assms(1) by (cases bs) (auto simp: block_leaves_def)
  have "\<exists>k. fold_stack H (stack_of H hb ((h, xs) # bs')) =
               Some (stack_of H hb [(k, block_leaves ((h, xs) # bs'))])
           \<and> length (block_leaves ((h, xs) # bs')) \<le> 2 ^ k
           \<and> 2 ^ k < 2 * length (block_leaves ((h, xs) # bs')) \<and> k \<le> 32"
    using bs(2) b by (intro fold_stack_blocks) (auto simp: full_blocks_def less_imp_le)
  then obtain k where k: "fold_stack H (stack_of H hb bs) = Some (stack_of H hb [(k, src)])"
    "length src \<le> 2 ^ k" "2 ^ k < 2 * length src" "k \<le> 32"
    using b bs(3) by auto
  moreover have "expected_height (word_of_nat (length src)) = word_of_nat k"
    using assms k by (intro expected_height_eq) auto
  ultimately have "from_array H hb src = Some (mtree H hb k src)"
    using bs(1) assms by (simp add: from_array_def stack_of_def unsigned_minus_1_eq_mask mask_eq_exp_minus_1)
  then show thesis using that k by blast
qed

lemma validate_mtree: "validate_r H hb (mtree H hb k xs) = Ok ()"
  by (induction H hb k xs rule: mtree.induct) (simp_all add: Let_def)

lemma mtree_value_None [simp]: "node_value (mtree H hb (Suc k) xs) = None"
  by (simp add: Let_def)

lemma path_dir: "drop_bit h q AND 1 = 0 \<longleftrightarrow> \<not> bit (q :: Path) h"
  by (simp add: and_one_eq bit_iff_odd_drop_bit even_iff_mod_2_eq_zero)

lemma lookup_left:
  "\<not> bit q h \<Longrightarrow> lookup (Node a (Some l) r None) (drop_bit h q) = lookup l (drop_bit (Suc h) q)"
  by (cases r) (simp_all add: path_dir drop_bit_drop_bit)

lemma lookup_right:
  "bit q h \<Longrightarrow>
   lookup (Node a (Some l) (Some r) None) (drop_bit h q) = lookup r (drop_bit (Suc h) q)"
  by (simp add: path_dir drop_bit_drop_bit)

text \<open>The paths below a node agree with the path of the node on the bits already used.\<close>

definition good_leaf :: "'a Node \<Rightarrow> nat \<Rightarrow> Path \<Rightarrow> 'a \<times> Path \<Rightarrow> bool" where
  "good_leaf t h p lf \<longleftrightarrow>
     take_bit h (snd lf) = p \<and> lookup t (drop_bit h (snd lf)) = Some (Some (fst lf))"

lemma take_bit_down:
  assumes "take_bit (Suc h) q = (p' :: Path)" "take_bit h p' = p"
  shows "take_bit h q = p" "bit q h \<longleftrightarrow> bit p' h"
proof -
  have "take_bit h q = take_bit h (take_bit (Suc h) q)" by (simp add: take_bit_take_bit)
  then show "take_bit h q = p" using assms by simp
  show "bit q h \<longleftrightarrow> bit p' h" by (simp add: bit_simps flip: assms(1))
qed

lemma take_bit_set_top:
  assumes "take_bit h p = (p :: Path)"
  shows "take_bit h (p OR push_bit h 1) = p"
    and "take_bit (Suc h) (p OR push_bit h 1) = p OR push_bit h 1"
proof -
  have push: "take_bit h (push_bit h 1 :: Path) = 0"
    "take_bit (Suc h) (push_bit h 1 :: Path) = push_bit h 1"
    by (rule bit_word_eqI, auto simp: bit_simps)+
  show "take_bit h (p OR push_bit h 1) = p"
    by (simp only: take_bit_or push assms or.right_neutral)
  have "take_bit (Suc h) p = p" using take_bit_take_bit [of "Suc h" h p] assms by simp
  then show "take_bit (Suc h) (p OR push_bit h 1) = p OR push_bit h 1"
    by (simp only: take_bit_or push)
qed

lemma good_leaf_left:
  assumes "good_leaf l (Suc h) p lf" "take_bit h p = p"
  shows "good_leaf (Node a (Some l) r None) h p lf"
proof -
  have "\<not> bit p h" using bit_take_bit_iff [of h p h] assms(2) by simp
  then show ?thesis
    using assms take_bit_down [of h "snd lf" p p]
    by (simp add: good_leaf_def lookup_left del: lookup.simps)
qed

lemma good_leaf_right:
  assumes "good_leaf r (Suc h) (p OR push_bit h 1) lf" "take_bit h p = p" "h < 32"
  shows "good_leaf (Node a (Some l) (Some r) None) h p lf"
proof -
  have "bit (p OR push_bit h 1 :: Path) h" using assms(3) by (simp add: bit_simps)
  then show ?thesis
    using assms(1) take_bit_down [of h "snd lf" "p OR push_bit h 1" p] take_bit_set_top [OF assms(2)]
    by (simp add: good_leaf_def lookup_right del: lookup.simps)
qed

lemma leafs_mtree:
  assumes "xs \<noteq> []" "length xs \<le> 2 ^ k" "h + k \<le> 32" "take_bit h p = p"
  shows "\<exists>ps. leafs_r rs (mtree H hb k xs) p (word_of_nat h) = Some (rs @ ps)
           \<and> map fst ps = xs \<and> list_all (good_leaf (mtree H hb k xs) h p) ps"
  using assms
proof (induction k arbitrary: xs h p rs)
  case 0
  then obtain x where "xs = [x]" by (cases xs) auto
  then show ?case using 0 by (simp add: good_leaf_def)
next
  case (Suc k)
  have h: "Suc h + k \<le> 32" "h < 32" using Suc.prems(3) by auto
  have low: "take_bit (Suc h) p = p"
    using take_bit_take_bit [of "Suc h" h p] Suc.prems(4) by simp
  show ?case
  proof (cases "length xs \<le> 2 ^ k")
    case True
    from Suc.IH [OF Suc.prems(1) True h(1) low]
    obtain ps where ps: "leafs_r rs (mtree H hb k xs) p (word_of_nat (Suc h)) = Some (rs @ ps)"
      "map fst ps = xs" "list_all (good_leaf (mtree H hb k xs) (Suc h) p) ps" by blast
    moreover have "list_all (good_leaf (mtree H hb (Suc k) xs) h p) ps"
      using ps(3) True
      by (auto simp: Let_def list_all_iff intro!: good_leaf_left [OF _ Suc.prems(4)])
    ultimately show ?thesis
      using True by (intro exI [of _ ps]) (simp add: Let_def add.commute)
  next
    case False
    let ?l = "take (2 ^ k) xs" and ?r = "drop (2 ^ k) xs" and ?p = "p OR push_bit h 1"
    have l: "?l \<noteq> []" "length ?l \<le> 2 ^ k" and r: "?r \<noteq> []" "length ?r \<le> 2 ^ k"
      using Suc.prems(1,2) False by auto
    note p' = take_bit_set_top(2) [OF Suc.prems(4)]
    obtain ps where ps:
      "leafs_r rs (mtree H hb k ?l) p (word_of_nat (Suc h)) = Some (rs @ ps)"
      "map fst ps = ?l" "list_all (good_leaf (mtree H hb k ?l) (Suc h) p) ps"
      using Suc.IH [OF l h(1) low] by blast
    obtain qs where qs:
      "leafs_r (rs @ ps) (mtree H hb k ?r) ?p (word_of_nat (Suc h)) = Some ((rs @ ps) @ qs)"
      "map fst qs = ?r" "list_all (good_leaf (mtree H hb k ?r) (Suc h) ?p) qs"
      using Suc.IH [OF r h(1) p'] by blast
    have shift: "unat (word_of_nat h :: Height) mod 32 = h"
      using h(2) by (simp add: unat_of_nat)
    have "leafs_r rs (mtree H hb (Suc k) xs) p (word_of_nat h) = Some (rs @ ps @ qs)"
      using False ps(1) qs(1) shift by (simp add: Let_def add.commute)
    moreover have "map fst (ps @ qs) = xs" using ps(2) qs(2) by simp
    moreover have "list_all (good_leaf (mtree H hb (Suc k) xs) h p) (ps @ qs)"
      using False ps(3) qs(3)
      by (auto simp: Let_def list_all_iff intro: good_leaf_left [OF _ Suc.prems(4)]
          good_leaf_right [OF _ Suc.prems(4) h(2)])
    ultimately show ?thesis by blast
  qed
qed

text \<open>The shapes \<open>serialize\<close> accepts.\<close>

fun wf_node :: "'a Node \<Rightarrow> bool" where
  "wf_node (Node h l r v) = (case (l, r, v) of
     (Some left, Some right, None) \<Rightarrow> wf_node left \<and> wf_node right
   | (Some left, None, None) \<Rightarrow> wf_node left
   | (None, None, _) \<Rightarrow> True
   | _ \<Rightarrow> False)"

lemma wf_node_induct [consumes 1, case_names full left leaf]:
  assumes "wf_node t"
    and "\<And>h a b. wf_node a \<Longrightarrow> wf_node b \<Longrightarrow> P a \<Longrightarrow> P b \<Longrightarrow> P (Node h (Some a) (Some b) None)"
    and "\<And>h a. wf_node a \<Longrightarrow> P a \<Longrightarrow> P (Node h (Some a) None None)"
    and "\<And>h v. P (Node h None None v)"
  shows "P t"
  using assms(1)
proof (induction t rule: wf_node.induct)
  case (1 h l r v)
  then show ?case
    by (cases l; cases r; cases v) (auto intro: assms(2-4))
qed

lemma validate_wf: "validate_r H hb t = Ok () \<Longrightarrow> wf_node t"
  by (induction H hb t rule: validate_r.induct)
    (auto simp: outcome_simps split: option.splits)

text \<open>
  Writing a tree after some nodes and reading the written nodes back leaves the tree as the
  only unconsumed node of that part.
\<close>

lemma deserialize_nodes_append:
  "deserialize_nodes (xs @ ys) ns = obind (deserialize_nodes xs ns) (deserialize_nodes ys)"
  by (induction xs arbitrary: ns) (simp_all add: obind_assoc case_prod_unfold)

lemma take_node_at:
  "i = length xs \<Longrightarrow> take_node (xs @ Some n # ys) (Some i) = Ok (Some n, xs @ None # ys)"
  by (simp add: take_node_def)

lemma serialize_round:
  assumes "wf_node t"
  shows "\<exists>ns pad. serialize_r rs t = Some (rs @ ns, length rs + length pad)
           \<and> length ns = Suc (length pad) \<and> set pad \<subseteq> {None}
           \<and> (\<forall>st. length st = length rs \<longrightarrow>
                deserialize_nodes ns st = Ok (st @ pad @ [Some t]))"
  using assms
proof (induction t arbitrary: rs rule: wf_node_induct)
  case (full h a b)
  obtain ns1 pad1 where 1: "serialize_r rs a = Some (rs @ ns1, length rs + length pad1)"
    "length ns1 = Suc (length pad1)" "set pad1 \<subseteq> {None}"
    "\<And>st. length st = length rs \<Longrightarrow> deserialize_nodes ns1 st = Ok (st @ pad1 @ [Some a])"
    using full.IH(1) [of rs] by auto
  obtain ns2 pad2 where 2: "serialize_r (rs @ ns1) b =
      Some ((rs @ ns1) @ ns2, length (rs @ ns1) + length pad2)"
    "length ns2 = Suc (length pad2)" "set pad2 \<subseteq> {None}"
    "\<And>st. length st = length (rs @ ns1) \<Longrightarrow> deserialize_nodes ns2 st = Ok (st @ pad2 @ [Some b])"
    using full.IH(2) [of "rs @ ns1"] by auto
  let ?sn = "\<lparr>sn_hash = h, sn_left = Some (length rs + length pad1),
              sn_right = Some (length (rs @ ns1) + length pad2), sn_value = None\<rparr>"
  have "deserialize_nodes (ns1 @ ns2 @ [?sn]) st =
      Ok (st @ (pad1 @ None # pad2 @ [None]) @ [Some (Node h (Some a) (Some b) None)])"
    if "length st = length rs" for st
  proof -
    have "take_node (st @ pad1 @ Some a # pad2 @ [Some b]) (sn_left ?sn) =
        Ok (Some a, st @ pad1 @ None # pad2 @ [Some b])"
      using take_node_at [of "length rs + length pad1" "st @ pad1" a "pad2 @ [Some b]"] that by simp
    moreover have "take_node (st @ pad1 @ None # pad2 @ [Some b]) (sn_right ?sn) =
        Ok (Some b, st @ pad1 @ None # pad2 @ [None])"
      using take_node_at [of "length (rs @ ns1) + length pad2" "st @ pad1 @ None # pad2" b "[]"]
        that 1(2) by simp
    ultimately show ?thesis
      using that 1(2,4) 2(4) by (simp add: deserialize_nodes_append)
  qed
  then show ?case
    using 1(1-3) 2(1-3)
    by (intro exI [of _ "ns1 @ ns2 @ [?sn]"] exI [of _ "pad1 @ None # pad2 @ [None]"]) simp
next
  case (left h a)
  obtain ns1 pad1 where 1: "serialize_r rs a = Some (rs @ ns1, length rs + length pad1)"
    "length ns1 = Suc (length pad1)" "set pad1 \<subseteq> {None}"
    "\<And>st. length st = length rs \<Longrightarrow> deserialize_nodes ns1 st = Ok (st @ pad1 @ [Some a])"
    using left.IH [of rs] by auto
  let ?sn = "\<lparr>sn_hash = h, sn_left = Some (length rs + length pad1), sn_right = None,
              sn_value = None\<rparr>"
  have "deserialize_nodes (ns1 @ [?sn]) st =
      Ok (st @ (pad1 @ [None]) @ [Some (Node h (Some a) None None)])"
    if "length st = length rs" for st
    using take_node_at [of "length rs + length pad1" "st @ pad1" a "[]"] that 1(4)
    by (simp add: deserialize_nodes_append take_node_def [of _ None])
  then show ?case
    using 1(1-3) by (intro exI [of _ "ns1 @ [?sn]"] exI [of _ "pad1 @ [None]"]) simp
next
  case (leaf h v)
  then show ?case
    by (intro exI [of _ "[\<lparr>sn_hash = h, sn_left = None, sn_right = None, sn_value = v\<rparr>]"]
        exI [of _ "[]"]) (simp add: take_node_def)
qed

lemma deserialize_serialize:
  assumes "validate_r H hb t = Ok ()"
  shows "\<exists>ns. serialize t = Some ns \<and> deserialize H hb ns = Ok t"
proof -
  obtain ns pad where ns: "serialize_r [] t = Some (ns, length pad)"
    "length ns = Suc (length pad)" "set pad \<subseteq> {None}"
    "deserialize_nodes ns [] = Ok (pad @ [Some t])"
    using serialize_round [OF validate_wf [OF assms], of "[]"] by auto
  then have "deserialize H hb ns = Ok t"
    using assms by (auto simp: deserialize_def subset_iff)
  with ns(1) show ?thesis by (simp add: serialize_def)
qed

text \<open>
  The byte strings that were hashed to build a tree. Collision resistance can only be asked
  of finitely many inputs: it is stated as injectivity of the hash function on these.
\<close>

fun node_inputs :: "('a \<Rightarrow> bytes) \<Rightarrow> 'a Node \<Rightarrow> bytes set" where
  "node_inputs hb (Node h l r v) =
     (case l of None \<Rightarrow> {} | Some left \<Rightarrow> node_inputs hb left) \<union>
     (case r of None \<Rightarrow> {} | Some right \<Rightarrow> node_inputs hb right) \<union>
     (case (l, r) of
        (Some left, Some right) \<Rightarrow>
          {hash_str ''Inner'' @ hash_hash (node_hash left) @ hash_hash (node_hash right)}
      | (Some left, None) \<Rightarrow>
          {hash_str ''Inner'' @ hash_hash (node_hash left) @ hash_hash (node_hash left)}
      | _ \<Rightarrow> {}) \<union>
     (case v of None \<Rightarrow> {} | Some value \<Rightarrow> {hash_str ''Leaf'' @ hb value})"

lemma inner_hash_inj:
  assumes "inner_hash H a b = inner_hash H c d" "inj_on H S"
    and "hash_str ''Inner'' @ hash_hash a @ hash_hash b \<in> S"
    and "hash_str ''Inner'' @ hash_hash c @ hash_hash d \<in> S"
  shows "a = c \<and> b = d"
proof -
  have "hash_hash a @ hash_hash b = hash_hash c @ hash_hash d"
    using inj_onD [OF assms(2) assms(1) [unfolded inner_hash_def] assms(3,4)] by simp
  then show ?thesis by (simp add: hash_hash_def)
qed

lemma mtree_binding:
  assumes "inj_on H S" "node_inputs hb (mtree H hb k xs) \<subseteq> S" "node_inputs hb (mtree H hb k ys) \<subseteq> S"
    and "length xs = length ys" "xs \<noteq> []" "length xs \<le> 2 ^ k"
    and "node_hash (mtree H hb k xs) = node_hash (mtree H hb k ys)"
  shows "map hb xs = map hb ys"
  using assms(2-)
proof (induction k arbitrary: xs ys)
  case 0
  then obtain x y where xy: "xs = [x]" "ys = [y]"
    by (cases xs; cases ys) auto
  then have "hash_str ''Leaf'' @ hb x = hash_str ''Leaf'' @ hb y"
    using 0 by (intro inj_onD [OF assms(1)]) (simp_all add: leaf_hash_def)
  then show ?case using xy by simp
next
  case (Suc k)
  let ?t = "\<lambda>zs. mtree H hb k zs"
  show ?case
  proof (cases "length xs \<le> 2 ^ k")
    case True
    then have eq: "inner_hash H (node_hash (?t xs)) (node_hash (?t xs)) =
        inner_hash H (node_hash (?t ys)) (node_hash (?t ys))"
      using Suc.prems(3,6) by (simp add: Let_def)
    have sub: "node_inputs hb (?t xs) \<subseteq> S" "node_inputs hb (?t ys) \<subseteq> S"
      and root: "hash_str ''Inner'' @ hash_hash (node_hash (?t xs)) @ hash_hash (node_hash (?t xs)) \<in> S"
        "hash_str ''Inner'' @ hash_hash (node_hash (?t ys)) @ hash_hash (node_hash (?t ys)) \<in> S"
      using Suc.prems(1-3) True by (auto simp: Let_def)
    show ?thesis
      using Suc.IH [OF sub Suc.prems(3,4) True] inner_hash_inj [OF eq assms(1) root] by simp
  next
    case False
    let ?l = "take (2 ^ k)" and ?r = "drop (2 ^ k)"
    have eq: "inner_hash H (node_hash (?t (?l xs))) (node_hash (?t (?r xs))) =
        inner_hash H (node_hash (?t (?l ys))) (node_hash (?t (?r ys)))"
      using False Suc.prems(3,6) by (simp add: Let_def)
    have sub: "node_inputs hb (?t (?l xs)) \<subseteq> S" "node_inputs hb (?t (?l ys)) \<subseteq> S"
      "node_inputs hb (?t (?r xs)) \<subseteq> S" "node_inputs hb (?t (?r ys)) \<subseteq> S"
      and root:
        "hash_str ''Inner'' @ hash_hash (node_hash (?t (?l xs))) @ hash_hash (node_hash (?t (?r xs))) \<in> S"
        "hash_str ''Inner'' @ hash_hash (node_hash (?t (?l ys))) @ hash_hash (node_hash (?t (?r ys))) \<in> S"
      using Suc.prems(1-3) False by (auto simp: Let_def)
    note eqs = inner_hash_inj [OF eq assms(1) root]
    have "map hb (?l xs) = map hb (?l ys)"
      using Suc.IH [OF sub(1,2)] Suc.prems(3,4) eqs by simp
    moreover have "map hb (?r xs) = map hb (?r ys)"
      using Suc.IH [OF sub(3,4)] Suc.prems(3-5) False eqs by simp
    ultimately have "map hb (?l xs @ ?r xs) = map hb (?l ys @ ?r ys)"
      by (simp only: map_append)
    then show ?thesis by simp
  qed
qed

lemma node_empty_iff: "node_empty (Some t) \<longleftrightarrow> (\<exists>h. t = Node h None None None)"
  by (cases t) (auto simp: node_empty_def Option.is_none_def)

text \<open>What \<open>prune_r\<close> does to a well-formed tree.\<close>

definition pruned :: "hasher \<Rightarrow> ('a \<Rightarrow> bytes) \<Rightarrow> 'a Node \<Rightarrow> Path \<Rightarrow> 'a Node \<Rightarrow> 'a option \<Rightarrow> bool" where
  "pruned H hb t p t' x \<longleftrightarrow>
     prune_r t p = Some (t', x) \<and> lookup t p = Some x \<and> lookup t' p = Some None
     \<and> node_hash t' = node_hash t \<and> wf_node t'
     \<and> (validate_r H hb t = Ok () \<longrightarrow> validate_r H hb t' = Ok ())"

lemma pruned_full_left:
  assumes "pruned H hb a (drop_bit 1 p) a' x" "p AND 1 = 0" "wf_node b"
  shows "\<exists>t'. pruned H hb (Node h (Some a) (Some b) None) p t' x"
proof (cases "x \<noteq> None \<and> node_empty (Some a') \<and> node_empty (Some b)")
  case True
  then show ?thesis
    using assms by (intro exI [of _ "Node h None None None"]) (auto simp: pruned_def)
next
  case False
  then show ?thesis
    using assms
    by (intro exI [of _ "Node h (Some a') (Some b) None"])
      (auto simp: pruned_def outcome_simps split: option.split)
qed

lemma pruned_full_right:
  assumes "pruned H hb b (drop_bit 1 p) b' x" "p AND 1 \<noteq> 0" "wf_node a"
  shows "\<exists>t'. pruned H hb (Node h (Some a) (Some b) None) p t' x"
proof (cases "x \<noteq> None \<and> node_empty (Some a) \<and> node_empty (Some b')")
  case True
  then show ?thesis
    using assms by (intro exI [of _ "Node h None None None"]) (auto simp: pruned_def)
next
  case False
  then show ?thesis
    using assms
    by (intro exI [of _ "Node h (Some a) (Some b') None"])
      (auto simp: pruned_def outcome_simps split: option.split)
qed

lemma pruned_left:
  assumes "pruned H hb a (drop_bit 1 p) a' x" "p AND 1 = 0"
  shows "\<exists>t'. pruned H hb (Node h (Some a) None None) p t' x"
proof (cases "x \<noteq> None \<and> node_empty (Some a')")
  case True
  then show ?thesis
    using assms by (intro exI [of _ "Node h None None None"]) (auto simp: pruned_def node_empty_def)
next
  case False
  then show ?thesis
    using assms
    by (intro exI [of _ "Node h (Some a') None None"])
      (auto simp: pruned_def outcome_simps node_empty_def [of None] split: option.split)
qed

lemma prune_r_pruned:
  assumes "wf_node t"
  shows "\<exists>t' x. pruned H hb t p t' x"
  using assms
proof (induction t arbitrary: p rule: wf_node_induct)
  case (full h a b)
  then show ?case
    by (cases "p AND 1 = 0") (metis pruned_full_left, metis pruned_full_right)
next
  case (left h a)
  then show ?case
    by (cases "p AND 1 = 0") (meson pruned_left, auto simp: pruned_def)
next
  case (leaf h v)
  then show ?case
    by (intro exI [of _ "Node h None None None"] exI [of _ v]) (cases v, simp_all add: pruned_def)
qed


section \<open>Properties\<close>

text \<open>
  C13: \<open>next_pow2\<close> computes the least power of two that is at least its argument: for every
  \<open>n\<close> from 1 to \<open>2 ^ 63\<close> the result is a power of two, not below \<open>n\<close> and less than twice
  \<open>n\<close>.
\<close>

theorem next_pow2_correct:
  assumes "0 < n" "n \<le> 2 ^ 63"
  shows "\<exists>k. unat (next_pow2 (word_of_nat n)) = 2 ^ k \<and> n \<le> 2 ^ k \<and> 2 ^ k < 2 * n"
proof -
  define k where "k = (LEAST k. n \<le> 2 ^ k)"
  have n: "n \<le> 2 ^ k" unfolding k_def using assms(2) by (rule LeastI)
  have k: "k \<le> 63" unfolding k_def using assms(2) by (rule Least_le)
  have "2 ^ k < 2 * n"
  proof (cases k)
    case (Suc j)
    then have "\<not> n \<le> 2 ^ j" unfolding k_def by (metis lessI not_less_Least)
    then show ?thesis using Suc by simp
  qed (use assms(1) in simp)
  moreover from this have "next_pow2 (word_of_nat n) = 2 ^ k"
    using next_pow2_eq [OF assms(1) n] k by simp
  moreover have "unat (word_of_nat (2 ^ k) :: u64) = 2 ^ k"
    using k power_strict_increasing [of k 64 "2 :: nat"]
    by (simp only: unsigned_of_nat of_nat_id) (simp add: take_bit_nat_eq_self)
  ultimately show ?thesis using n by (intro exI [of _ k]) simp
qed

theorem next_pow2_correct_witness:
  "\<exists>k. unat (next_pow2 (word_of_nat 1000)) = 2 ^ k \<and> (1000 :: nat) \<le> 2 ^ k \<and> 2 ^ k < 2 * (1000 :: nat)"
  by (rule next_pow2_correct) simp_all

text \<open>
  C20: For every list of at most \<open>2 ^ 32 - 1\<close> elements \<open>from_array\<close> returns (no assertion
  fails, in particular not the one on the expected height), and what it returns is the
  empty node for the empty list and otherwise the reference tree of the least height whose
  leaves hold the list.
\<close>

theorem merkle_from_array:
  assumes "length src < 2 ^ 32"
  shows "if src = [] then from_array H hb src = Some (Node 0 None None None)
         else \<exists>k. from_array H hb src = Some (mtree H hb k src)
                \<and> length src \<le> 2 ^ k \<and> 2 ^ k < 2 * length src"
proof (cases "src = []")
  case False
  from from_array_mtree [OF this assms, of H hb] obtain k where
    "from_array H hb src = Some (mtree H hb k src)" "length src \<le> 2 ^ k" "2 ^ k < 2 * length src" .
  then show ?thesis using False by auto
qed (simp add: from_array_def)

theorem merkle_from_array_witness:
  "\<exists>k. from_array sample_sha3 (\<lambda>b. [b]) [1, 2, 3 :: u8] = Some (mtree sample_sha3 (\<lambda>b. [b]) k [1, 2, 3])
     \<and> length [1, 2, 3 :: u8] \<le> 2 ^ k \<and> 2 ^ k < 2 * length [1, 2, 3 :: u8]"
  using merkle_from_array [of "[1, 2, 3 :: u8]" sample_sha3 "\<lambda>b. [b]"] by simp

text \<open>
  A tree built by \<open>from_array\<close> passes \<open>validate\<close>; \<open>leafs\<close> lists exactly the elements,
  in order, each with a path from which \<open>lookup\<close> finds that element.
\<close>

theorem merkle_leafs_lookup:
  assumes "src \<noteq> []" "length src < 2 ^ 32" "from_array H hb src = Some t"
  shows "validate H hb t = Ok ()
         \<and> (\<exists>ls. leafs t = Some ls \<and> map fst ls = src
              \<and> list_all (\<lambda>(x, p). lookup t p = Some (Some x)) ls)"
proof -
  from from_array_mtree [OF assms(1,2), of H hb] obtain k where
    "from_array H hb src = Some (mtree H hb k src)" and k: "length src \<le> 2 ^ k" "k \<le> 32" .
  then have t: "t = mtree H hb k src" using assms(3) by simp
  obtain ls where "leafs_r [] t 0 (word_of_nat 0) = Some ls" "map fst ls = src"
    "list_all (good_leaf t 0 0) ls"
    using leafs_mtree [OF assms(1) k(1), of 0 0 "[]" H hb] k(2) t by auto
  then show ?thesis
    using t validate_mtree [of H hb k src]
    by (auto simp: validate_def leafs_def good_leaf_def case_prod_unfold list_all_iff)
qed

theorem merkle_leafs_lookup_witness:
  "\<exists>t ls. from_array sample_sha3 (\<lambda>b. [b]) [1, 2, 3 :: u8] = Some t
     \<and> validate sample_sha3 (\<lambda>b. [b]) t = Ok ()
     \<and> leafs t = Some ls \<and> map fst ls = [1, 2, 3]
     \<and> list_all (\<lambda>(x, p). lookup t p = Some (Some x)) ls"
proof -
  obtain k where t: "from_array sample_sha3 (\<lambda>b. [b]) [1, 2, 3 :: u8] =
      Some (mtree sample_sha3 (\<lambda>b. [b]) k [1, 2, 3])"
    by (rule from_array_mtree [of "[1, 2, 3 :: u8]" sample_sha3 "\<lambda>b. [b]"]) simp_all
  show ?thesis
    using merkle_leafs_lookup [OF _ _ t] t by auto
qed

text \<open>
  C22: A tree that passes \<open>validate\<close> survives serialization: \<open>serialize\<close> does not panic and
  \<open>deserialize\<close> of its output succeeds and gives back the same tree.
\<close>

theorem merkle_serialize_round_trip:
  assumes "validate H hb t = Ok ()"
  shows "\<exists>ns. serialize t = Some ns \<and> deserialize H hb ns = Ok t"
  using deserialize_serialize assms by (simp add: validate_def)

theorem merkle_serialize_round_trip_witness:
  "\<exists>ns. serialize (mtree sample_sha3 (\<lambda>b. [b]) 2 [1, 2, 3 :: u8]) = Some ns
     \<and> deserialize sample_sha3 (\<lambda>b. [b]) ns = Ok (mtree sample_sha3 (\<lambda>b. [b]) 2 [1, 2, 3])"
  by (rule merkle_serialize_round_trip) (simp add: validate_def validate_mtree)





end
