(* ===== verification/Errors.thy ===== *)
theory Errors
  imports Hashing
begin

text \<open>
  The error types of the blockchain crate, with the constructors of
  \<open>blockchain/src/error.rs\<close> and \<open>blockchain/src/output.rs\<close> in the order of the sources.
  Errors of third-party types (storage, UTF-8, \<open>failure::Error\<close>) are kept without their
  payload. The conversions \<open>From\<close> between them are the constructors themselves, except for
  slashing errors, which become transaction errors.
\<close>

text \<open>The errors of the crypto crate that the modelled functions return.\<close>

datatype CryptoError =
    InvalidPoint | BadKeyingSignature | TooLarge
  | InvalidBinaryLength nat nat | InvalidVRFRandomness | InvalidVRFSource

record ViewChangeProof =
  multimap :: "bool list"
  multisig :: pbc_sig

datatype OutputError =
    InvalidBulletProof hash
  | InvalidPayloadLength hash nat nat
  | PayloadDecryptionError hash
  | DataIsTooLong nat nat
  | UnsupportedDataType hash u8
  | TrailingGarbage hash
  | InvalidAmount hash i64
  | InvalidStakeSignature hash
  | UtxoLocked hash u64 u64
  | CryptoError CryptoError
  | UtfError
  | InvalidCertificate

datatype SlashingError =
    InvalidProofHeight u64 u64
  | InvalidProofEpoch u64 u64
  | DifferentLeader u32 u32
  | BlockWithoutConflicts u64 u32 hash
  | WrongLeader pbc_pkey pbc_pkey
  | LastValidator pbc_pkey
  | NotValidator pbc_pkey
  | DifferentHistory hash hash
  | DifferentEpoch u64 u64
  | DifferentOffset u32 u32
  | IncorrectTxins hash
  | IncorrectTxouts hash

datatype TransactionError =
    InvalidSignature hash
  | InvalidMonetaryBalance hash
  | NegativeFee hash
  | NegativeReward hash
  | NoInputs hash
  | MissingInput hash hash
  | DuplicateInput hash hash
  | DuplicateOutput hash hash
  | OutputHashCollision hash hash
  | ReceivedInvalidTransaction string
  | NonPaymentOutputInCoinbase hash hash
  | InvalidRestakingInput hash hash
  | RestakingValidatorKeyMismatch hash hash
  | MixedRestakingOwners hash hash
  | NoRestakingTxins hash
  | InvalidRestakingOutput hash hash
  | MixedTxoutValidators hash hash
  | UnexpectedTxType
  | ImbalancedRestaking hash
  | SlashingError SlashingError

datatype MultisignatureError =
    TooBigBitmap nat nat
  | NotEnoughtVotes i64 i64
  | InvalidSignature hash

datatype (plugins only: size) BlockError =
    InvalidMicroBlockPreviousHash u64 u32 hash hash hash
  | InvalidMacroBlockPreviousHash u64 hash hash hash
  | MicroBlockHashCollision u64 u32 hash
  | MacroBlockHashCollision u64 hash
  | OutOfOrderMacroBlock hash u64 u64
  | OutOfOrderMicroBlock hash u64 u32 u64 u32
  | InvalidMicroBlockFee u64 u32 hash i64 i64
  | InvalidMacroBlockFee u64 hash i64 i64
  | CoinbaseMustBeFirst hash
  | NoServiceAwardTx hash
  | AwardMoreThanOneWinner hash nat
  | AwardDifferentWinner hash b32 b32
  | AwardDifferentOutputType hash
  | AwardDifferentReward hash i64 i64
  | InvalidBlockBalance u64 hash
  | InvalidMacroBlockInputsHash u64 hash hash hash
  | InvalidMacroBlockOutputsHash u64 hash hash hash
  | InvalidMacroBlockCanariesHash u64 hash hash hash
  | InvalidMacroBlockInputsLen u64 hash nat nat
  | InvalidMacroBlockOutputsLen u64 hash nat nat
  | InvalidMicroBlockTransactionsHash u64 u32 hash hash hash
  | InvalidMicroBlockInputsHash u64 u32 hash hash hash
  | InvalidMicroBlockOutputsHash u64 u32 hash hash hash
  | InvalidMicroBlockCanariesHash u64 u32 hash hash hash
  | InvalidMicroBlockTransactionsLen u64 u32 hash nat nat
  | InvalidMicroBlockInputsLen u64 u32 hash nat nat
  | InvalidMicroBlockOutputsLen u64 u32 hash nat nat
  | InvalidMicroBlockCanariesLen u64 u32 hash nat nat
  | MissingBlockInput u64 hash hash
  | DuplicateBlockInput u64 hash hash
  | DuplicateBlockOutput u64 hash hash
  | OutputHashCollision u64 hash hash
  | LeaderIsNotValidator u64 hash
  | MoreThanOneSignatureAtPropose u64 hash
  | DifferentPublicKey pbc_pkey pbc_pkey
  | InvalidLeaderSignature u64 hash
  | InvalidBlockSignature MultisignatureError u64 hash
  | InvalidBlockVersion u64 hash u64 u64
  | IncorrectRandom u64 hash
  | InvalidVDFProof u64 hash
  | UnexpectedVDFComplexity u64 hash u64 u64
  | InvalidViewChange u64 hash u32 u32
  | InvalidViewChangeProof u64 ViewChangeProof
  | NoProofWasFound u64 u32 hash u32 u32
  | ElectionResultForPastEpoch u64 u64
  | ElectionResultForFutureBlock u64 u64
  | InvalidMacroBlockReward u64 hash i64 i64
  | InvalidMicroBlockReward u64 u32 hash i64 i64
  | TooBigActivitymap nat nat
  | OutdatedBlock u64 hash u64 u64
  | OutOfSyncTimestamp u64 hash u64 u64
  | InvalidBlockProposal u64 hash hash
  | InvalidBlockEpoch u64 u64
  | OutOfSyncViewChange u64 hash u32 u32

datatype BlockchainError =
    IncompatibleGenesis hash hash
  | ExpectedMacroBlock u64 u32 hash
  | ExpectedMicroBlock u64 u32 hash
  | HaveMicroBlocks u64 u32 hash
  | StakeOutputWithDifferentAccountKey b32 b32 hash
  | StakeIsLocked pbc_pkey i64 i64
  | StorageError
  | TransactionError TransactionError
  | BlockError BlockError
  | OutputError OutputError
  | CryptoError CryptoError
  | UtfError
  | FailureError

text \<open>\<open>From<SlashingError> for BlockchainError\<close>.\<close>

definition of_SlashingError :: "SlashingError \<Rightarrow> BlockchainError" where
  "of_SlashingError e = BlockchainError.TransactionError (TransactionError.SlashingError e)"

abbreviation txErr :: "TransactionError \<Rightarrow> (BlockchainError, 'a) outcome" where
  "txErr e \<equiv> Err (BlockchainError.TransactionError e)"

abbreviation blockErr :: "BlockError \<Rightarrow> (BlockchainError, 'a) outcome" where
  "blockErr e \<equiv> Err (BlockchainError.BlockError e)"

abbreviation outErr :: "OutputError \<Rightarrow> (BlockchainError, 'a) outcome" where
  "outErr e \<equiv> Err (BlockchainError.OutputError e)"

end
