(* ===== verification/Scc.thy ===== *)
theory Scc
  imports Errors
begin

text \<open>
  The Ristretto group layer of \<open>crypto/src/scc/mod.rs\<close> and
  \<open>crypto/src/bulletproofs/mod.rs\<close>: points that may be held in compressed form and may
  turn out not to decode, Pedersen commitments, Schnorr signatures and the AES-CTR
  encryption keyed by a Diffie-Hellman point.

  The crates underneath (curve25519-dalek, bulletproofs, aes-ctr, sha3, pairing, vdf) are
  parameters, the fields of the record \<open>crypto\<close>. Ristretto points are a type \<open>'g\<close> of
  class \<open>ab_group_add\<close> and scalars a type \<open>'f\<close> of class \<open>comm_ring_1\<close>; what the code
  relies on beyond these classes is stated by \<open>dalek_laws\<close>.
\<close>

section \<open>Third-party primitives\<close>

record ('g, 'f) crypto =
  sha3 :: "bytes \<Rightarrow> hash"
  compress :: "'g \<Rightarrow> b32"
  decompress :: "b32 \<Rightarrow> 'g option"
  smul :: "'f \<Rightarrow> 'g \<Rightarrow> 'g"
  B_base :: 'g
  B_blinding :: 'g
  scalar_of_u64 :: "u64 \<Rightarrow> 'f"
  scalar_bytes :: "'f \<Rightarrow> b32"
  from_canonical_bytes :: "b32 \<Rightarrow> 'f option"
  from_bytes_mod_order :: "b32 \<Rightarrow> 'f"
  prove_single :: "u64 \<Rightarrow> 'f \<Rightarrow> bytes \<times> b32"
  verify_single :: "bytes \<Rightarrow> b32 \<Rightarrow> bool"
  aes128_keystream :: "bytes \<Rightarrow> bytes \<Rightarrow> nat \<Rightarrow> u8"
  bls_sign :: "pbc_skey \<Rightarrow> hash \<Rightarrow> b48"
  bls_verify :: "b96 \<Rightarrow> hash \<Rightarrow> b48 \<Rightarrow> bool"
  g1_decodes :: "b48 \<Rightarrow> bool"
  g2_decodes :: "b96 \<Rightarrow> bool"
  g1_sum :: "b48 \<Rightarrow> b48 \<Rightarrow> b48"
  g2_sum :: "b96 \<Rightarrow> b96 \<Rightarrow> b96"
  g1_zero :: b48
  g2_zero :: b96
  vrf_proof :: "pbc_skey \<Rightarrow> hash \<Rightarrow> b48"
  vrf_rand :: "b48 \<Rightarrow> hash"
  vrf_check :: "b48 \<Rightarrow> b96 \<Rightarrow> hash \<Rightarrow> bool"
  vdf_verify :: "bytes \<Rightarrow> u64 \<Rightarrow> bytes \<Rightarrow> bool"

text \<open>
  The documented behaviour of curve25519-dalek: compression is injective and undone by
  decompression, and scalar multiplication makes the points a module over the scalars.
\<close>

definition dalek_laws :: "('g::ab_group_add, 'f::comm_ring_1) crypto \<Rightarrow> bool" where
  "dalek_laws c \<longleftrightarrow>
     (\<forall>p. decompress c (compress c p) = Some p) \<and>
     (\<forall>a p q. smul c a (p + q) = smul c a p + smul c a q) \<and>
     (\<forall>a b p. smul c (a + b) p = smul c a p + smul c b p) \<and>
     (\<forall>a b p. smul c (a * b) p = smul c a (smul c b p)) \<and>
     (\<forall>p. smul c 1 p = p)"

definition digest :: "('g, 'f) crypto \<Rightarrow> bytes \<Rightarrow> hash" where
  "digest c bs = sha3 c bs"

section \<open>Points\<close>

datatype 'g Pt = PtRaw 'g | PtCmpr b32 | PtNone

definition pt_inf :: "'g::zero Pt" where
  "pt_inf = PtRaw 0"

definition pt_one :: "('g, 'f) crypto \<Rightarrow> 'g Pt" where
  "pt_one c = PtRaw (B_blinding c)"

fun pt_is_identity :: "('g::zero, 'f) crypto \<Rightarrow> 'g Pt \<Rightarrow> bool" where
  "pt_is_identity c (PtRaw ipt) = (ipt = 0)"
| "pt_is_identity c (PtCmpr ipt) =
     (case decompress c ipt of None \<Rightarrow> False | Some pt \<Rightarrow> pt = 0)"
| "pt_is_identity c PtNone = False"

fun pt_decompress :: "('g, 'f) crypto \<Rightarrow> 'g Pt \<Rightarrow> (CryptoError, 'g Pt) outcome" where
  "pt_decompress c (PtRaw ipt) = Ok (PtRaw ipt)"
| "pt_decompress c (PtCmpr ipt) =
     (case decompress c ipt of None \<Rightarrow> Err InvalidPoint | Some pt \<Rightarrow> Ok (PtRaw pt))"
| "pt_decompress c PtNone = Err InvalidPoint"

fun pt_to_bytes :: "('g, 'f) crypto \<Rightarrow> 'g Pt \<Rightarrow> b32 option" where
  "pt_to_bytes c (PtRaw ipt) = Some (compress c ipt)"
| "pt_to_bytes c (PtCmpr ipt) = Some ipt"
| "pt_to_bytes c PtNone = None"

definition pt_try_from_bytes :: "bytes \<Rightarrow> (CryptoError, 'g Pt) outcome" where
  "pt_try_from_bytes bs =
     (if length bs \<noteq> 32 then Err (InvalidBinaryLength 32 (length bs))
      else Ok (PtCmpr (of_be_bytes bs)))"

fun internal_use_compress :: "('g::zero, 'f) crypto \<Rightarrow> 'g Pt \<Rightarrow> b32" where
  "internal_use_compress c (PtRaw ipt) = compress c ipt"
| "internal_use_compress c (PtCmpr ipt) = ipt"
| "internal_use_compress c PtNone = compress c 0"

text \<open>\<open>From<Pt> for RistrettoPoint\<close>: a point that does not decode becomes the identity.\<close>

fun ristretto_of_pt :: "('g::zero, 'f) crypto \<Rightarrow> 'g Pt \<Rightarrow> 'g" where
  "ristretto_of_pt c (PtRaw ipt) = ipt"
| "ristretto_of_pt c (PtCmpr ipt) =
     (case decompress c ipt of Some pt \<Rightarrow> pt | None \<Rightarrow> 0)"
| "ristretto_of_pt c PtNone = 0"

fun pt_mul :: "('g, 'f) crypto \<Rightarrow> 'g Pt \<Rightarrow> 'f \<Rightarrow> 'g Pt" where
  "pt_mul c (PtRaw ipt) other = PtRaw (smul c other ipt)"
| "pt_mul c (PtCmpr ipt) other =
     (case decompress c ipt of None \<Rightarrow> PtNone | Some pt \<Rightarrow> PtRaw (smul c other pt))"
| "pt_mul c PtNone other = PtNone"

fun pt_neg :: "('g::uminus, 'f) crypto \<Rightarrow> 'g Pt \<Rightarrow> 'g Pt" where
  "pt_neg c (PtRaw pt) = PtRaw (- pt)"
| "pt_neg c (PtCmpr pt) =
     (case decompress c pt of None \<Rightarrow> PtNone | Some pt \<Rightarrow> PtRaw (- pt))"
| "pt_neg c PtNone = PtNone"

fun pt_add :: "('g::plus, 'f) crypto \<Rightarrow> 'g Pt \<Rightarrow> 'g Pt \<Rightarrow> 'g Pt" where
  "pt_add c (PtRaw ipt) (PtRaw opt) = PtRaw (ipt + opt)"
| "pt_add c (PtRaw ipt) (PtCmpr opt) =
     (case decompress c opt of None \<Rightarrow> PtNone | Some pt \<Rightarrow> PtRaw (ipt + pt))"
| "pt_add c (PtRaw ipt) PtNone = PtNone"
| "pt_add c (PtCmpr ipt) other =
     (case decompress c ipt of
        None \<Rightarrow> PtNone
      | Some pt \<Rightarrow>
          (case other of
             PtRaw opt \<Rightarrow> PtRaw (pt + opt)
           | PtCmpr opt \<Rightarrow>
               (case decompress c opt of None \<Rightarrow> PtNone | Some pt2 \<Rightarrow> PtRaw (pt + pt2))
           | PtNone \<Rightarrow> PtNone))"
| "pt_add c PtNone other = PtNone"

definition pt_sub :: "('g::group_add, 'f) crypto \<Rightarrow> 'g Pt \<Rightarrow> 'g Pt \<Rightarrow> 'g Pt" where
  "pt_sub c a b = pt_add c a (pt_neg c b)"

fun pt_eq :: "('g, 'f) crypto \<Rightarrow> 'g Pt \<Rightarrow> 'g Pt \<Rightarrow> bool" where
  "pt_eq c (PtRaw apt) (PtRaw bpt) = (apt = bpt)"
| "pt_eq c (PtRaw apt) (PtCmpr bpt) =
     (case decompress c bpt of None \<Rightarrow> False | Some pt \<Rightarrow> apt = pt)"
| "pt_eq c (PtRaw apt) PtNone = False"
| "pt_eq c (PtCmpr apt) other =
     (case decompress c apt of
        None \<Rightarrow> False
      | Some pt \<Rightarrow>
          (case other of
             PtRaw bpt \<Rightarrow> pt = bpt
           | PtCmpr bpt \<Rightarrow>
               (case decompress c bpt of None \<Rightarrow> False | Some pt2 \<Rightarrow> pt = pt2)
           | PtNone \<Rightarrow> False))"
| "pt_eq c PtNone other = False"

text \<open>Feeding a point to a hasher panics when the point is \<open>PtNone\<close>.\<close>

definition hash_enc_pt :: "b32 \<Rightarrow> bytes" where
  "hash_enc_pt b = hash_str ''PtPoint'' @ be_bytes 32 b"

definition hash_Pt :: "('g, 'f) crypto \<Rightarrow> 'g Pt \<Rightarrow> bytes option" where
  "hash_Pt c p = map_option hash_enc_pt (pt_to_bytes c p)"

definition hash_enc_PublicKey :: "b32 \<Rightarrow> bytes" where
  "hash_enc_PublicKey b = hash_str ''PublicKey'' @ hash_enc_pt b"

definition hash_PublicKey :: "('g, 'f) crypto \<Rightarrow> 'g Pt \<Rightarrow> bytes option" where
  "hash_PublicKey c p = map_option (\<lambda>bs. hash_str ''PublicKey'' @ bs) (hash_Pt c p)"

definition hash_Fr :: "('g, 'f) crypto \<Rightarrow> 'f \<Rightarrow> bytes" where
  "hash_Fr c x = hash_str ''Fr'' @ be_bytes 32 (scalar_bytes c x)"

section \<open>Commitments\<close>

definition simple_commit :: "('g::plus, 'f) crypto \<Rightarrow> 'f \<Rightarrow> 'f \<Rightarrow> 'g Pt" where
  "simple_commit c blind val = PtRaw (smul c blind (B_blinding c) + smul c val (B_base c))"

definition fee_a :: "('g, 'f) crypto \<Rightarrow> i64 \<Rightarrow> 'g Pt option" where
  "fee_a c val = (if val <s 0 then None
                  else Some (PtRaw (smul c (scalar_of_u64 c val) (B_base c))))"

text \<open>\<open>From<i64> for Fr\<close>.\<close>

definition fr_of_i64 :: "('g, 'f) crypto \<Rightarrow> i64 \<Rightarrow> 'f option" where
  "fr_of_i64 c val = (if val <s 0 then None else Some (scalar_of_u64 c val))"

section \<open>Keys and Schnorr signatures\<close>

text \<open>
  A secret key is a scalar. The \<open>K\<close> of a signature is held encoded: hashing it and
  reading it as a point give the same for a raw point and for its encoding.
\<close>

record 'f SchnorrSig =
  sig_u :: 'f
  sig_K :: b32

definition schnorr_new :: "('g::zero, 'f::zero) crypto \<Rightarrow> 'f SchnorrSig" where
  "schnorr_new c = \<lparr>sig_u = 0, sig_K = compress c 0\<rparr>"

definition hash_SecretKey :: "('g, 'f) crypto \<Rightarrow> 'f \<Rightarrow> bytes" where
  "hash_SecretKey c s = hash_str ''SecretKey'' @ hash_Fr c s"

definition hash_SchnorrSig :: "('g, 'f) crypto \<Rightarrow> 'f SchnorrSig \<Rightarrow> bytes" where
  "hash_SchnorrSig c s = hash_str ''SchnorrSig'' @ hash_Fr c (sig_u s) @ hash_enc_pt (sig_K s)"

definition pkey_of_skey :: "('g::zero, 'f) crypto \<Rightarrow> 'f \<Rightarrow> 'g Pt" where
  "pkey_of_skey c s = PtRaw (smul c s (ristretto_of_pt c (pt_one c)))"

definition schnorr_add ::
  "('g::{plus, zero}, 'f::plus) crypto \<Rightarrow> 'f SchnorrSig \<Rightarrow> 'f SchnorrSig \<Rightarrow> 'f SchnorrSig" where
  "schnorr_add c a b =
     (let sum_u = sig_u a + sig_u b;
          sum_k = ristretto_of_pt c (PtCmpr (sig_K a)) + ristretto_of_pt c (PtCmpr (sig_K b))
      in \<lparr>sig_u = sum_u, sig_K = compress c sum_k\<rparr>)"

text \<open>
  The signing key's public key is a raw point, so hashing it cannot panic; in
  \<open>sign_hash_with_kval\<close> the two sums come from the caller.
\<close>

definition sign_hash ::
  "('g::zero, 'f::{plus, times}) crypto \<Rightarrow> hash \<Rightarrow> 'f \<Rightarrow> 'f SchnorrSig" where
  "sign_hash c hmsg skey =
     (let h = digest c (hash_hash hmsg @ hash_SecretKey c skey);
          k = from_bytes_mod_order c h;
          big_k = smul c k (ristretto_of_pt c (pt_one c));
          pkey = smul c skey (ristretto_of_pt c (pt_one c));
          h = digest c (hash_enc_pt (compress c big_k) @ hash_enc_PublicKey (compress c pkey)
                        @ hash_hash hmsg);
          u = k + from_bytes_mod_order c h * skey
      in \<lparr>sig_u = u, sig_K = compress c big_k\<rparr>)"

definition sign_hash_with_kval ::
  "('g::zero, 'f::{plus, times}) crypto \<Rightarrow> hash \<Rightarrow> 'f \<Rightarrow> 'f \<Rightarrow> 'g Pt \<Rightarrow> 'g Pt
     \<Rightarrow> 'f SchnorrSig option" where
  "sign_hash_with_kval c hmsg skey kval sumK sumPKey =
     (let my_big_k = smul c kval (ristretto_of_pt c (pt_one c))
      in case (hash_Pt c sumK, hash_PublicKey c sumPKey) of
           (Some hk, Some hp) \<Rightarrow>
             let h = digest c (hk @ hp @ hash_hash hmsg);
                 u = kval + from_bytes_mod_order c h * skey
             in Some \<lparr>sig_u = u, sig_K = compress c my_big_k\<rparr>
         | _ \<Rightarrow> None)"

definition validate_sig ::
  "('g::ab_group_add, 'f) crypto \<Rightarrow> hash \<Rightarrow> 'f SchnorrSig \<Rightarrow> 'g Pt
     \<Rightarrow> (CryptoError, unit) outcome" where
  "validate_sig c hmsg sig pkey =
     (case hash_PublicKey c pkey of
        None \<Rightarrow> Panic
      | Some hp \<Rightarrow>
          let h = digest c (hash_enc_pt (sig_K sig) @ hp @ hash_hash hmsg);
              Ppt = ristretto_of_pt c pkey;
              Kpt = ristretto_of_pt c (PtCmpr (sig_K sig));
              uval = sig_u sig
          in if smul c uval (ristretto_of_pt c (pt_one c))
                = Kpt + smul c (from_bytes_mod_order c h) Ppt
             then Ok () else Err BadKeyingSignature)"

section \<open>Encryption\<close>

definition aes_encrypt_with_key :: "('g, 'f) crypto \<Rightarrow> bytes \<Rightarrow> bytes \<Rightarrow> bytes" where
  "aes_encrypt_with_key c msg key =
     map (\<lambda>(i, b). b XOR aes128_keystream c (take 16 key) (drop 16 key) i)
         (List.enumerate 0 msg)"

definition aes_encrypt ::
  "('g::zero, 'f) crypto \<Rightarrow> bytes \<Rightarrow> 'g Pt \<Rightarrow> ('g Pt \<times> bytes \<times> 'f) option" where
  "aes_encrypt c msg pkey =
     (case hash_PublicKey c pkey of
        None \<Rightarrow> None
      | Some hp \<Rightarrow>
          let h = digest c msg;
              hh = digest c (hash_str ''encr_alpha'' @ hp @ hash_hash h);
              alpha = from_bytes_mod_order c hh;
              ppt = ristretto_of_pt c pkey;
              ap = smul c alpha ppt;
              ag = smul c alpha (ristretto_of_pt c (pt_one c));
              key = be_bytes 32 (digest c (hash_enc_pt (compress c ap)))
          in Some (PtRaw ag, aes_encrypt_with_key c msg key, alpha))"

definition aes_decrypt :: "('g::zero, 'f) crypto \<Rightarrow> 'g Pt \<Rightarrow> bytes \<Rightarrow> 'f \<Rightarrow> bytes" where
  "aes_decrypt c ag payload skey =
     (let asg = smul c skey (ristretto_of_pt c ag);
          key = be_bytes 32 (digest c (hash_enc_pt (compress c asg)))
      in aes_encrypt_with_key c payload key)"

definition aes_decrypt_with_rvalue ::
  "('g::zero, 'f) crypto \<Rightarrow> bytes \<Rightarrow> 'f \<Rightarrow> 'g Pt \<Rightarrow> bytes" where
  "aes_decrypt_with_rvalue c payload rvalue pkey =
     (let asg = smul c rvalue (ristretto_of_pt c pkey);
          key = be_bytes 32 (digest c (hash_enc_pt (compress c asg)))
      in aes_encrypt_with_key c payload key)"

section \<open>Points as partial group elements\<close>

text \<open>
  Whatever its representation, a point stands for at most one group element. The
  operations compute on these elements and are strict in failure.
\<close>

fun pt_val :: "('g, 'f) crypto \<Rightarrow> 'g Pt \<Rightarrow> 'g option" where
  "pt_val c (PtRaw p) = Some p"
| "pt_val c (PtCmpr b) = decompress c b"
| "pt_val c PtNone = None"

named_theorems pt_simps \<open>the group element of a computed point\<close>

lemma pt_val_add [pt_simps]:
  "pt_val c (pt_add c p q) = (case (pt_val c p, pt_val c q) of
     (Some x, Some y) \<Rightarrow> Some (x + y) | _ \<Rightarrow> None)"
  by (cases p; cases q) (auto split: option.split)

lemma pt_val_neg [pt_simps]: "pt_val c (pt_neg c p) = map_option uminus (pt_val c p)"
  by (cases p) (auto split: option.split)

lemma pt_val_sub [pt_simps]:
  "pt_val c (pt_sub c p q) = (case (pt_val c p, pt_val c q) of
     (Some x, Some y) \<Rightarrow> Some (x - y) | _ \<Rightarrow> None)"
  by (auto simp: pt_sub_def pt_simps split: option.split)

lemma pt_val_mul [pt_simps]: "pt_val c (pt_mul c p a) = map_option (smul c a) (pt_val c p)"
  by (cases p) (auto split: option.split)

lemma pt_eq_iff [pt_simps]:
  "pt_eq c p q \<longleftrightarrow> (\<exists>x. pt_val c p = Some x \<and> pt_val c q = Some x)"
  by (cases p; cases q) (auto split: option.split)

lemma pt_val_inf [simp]: "pt_val c pt_inf = Some 0"
  by (simp add: pt_inf_def)

lemma pt_val_commit [simp]:
  "pt_val c (simple_commit c g v) = Some (smul c g (B_blinding c) + smul c v (B_base c))"
  by (simp add: simple_commit_def)

lemma ristretto_of_pt_val: "pt_val c p = Some x \<Longrightarrow> ristretto_of_pt c p = x"
  by (cases p) auto

lemma ristretto_of_pt_undef: "pt_val c p = None \<Longrightarrow> ristretto_of_pt c p = 0"
  by (cases p) auto

lemma ristretto_of_one [simp]: "ristretto_of_pt c (pt_one c) = B_blinding c"
  by (simp add: pt_one_def)

lemma dalek_lawsD:
  assumes "dalek_laws c"
  shows "decompress c (compress c p) = Some p"
    and "smul c a (p + q) = smul c a p + smul c a q"
    and "smul c (a + b) p = smul c a p + smul c b p"
    and "smul c (a * b) p = smul c a (smul c b p)"
    and "smul c 1 p = p"
  using assms by (simp_all add: dalek_laws_def)

lemma smul_zero_left:
  assumes "dalek_laws c" shows "smul c 0 p = 0"
  using dalek_lawsD(3) [OF assms, of 0 0 p] by simp

lemma smul_zero_right:
  assumes "dalek_laws c" shows "smul c a 0 = 0"
  using dalek_lawsD(2) [OF assms, of a 0 0] by simp

lemma smul_comm:
  assumes "dalek_laws c" shows "smul c a (smul c b p) = smul c b (smul c a p)"
  using dalek_lawsD(4) [OF assms, of a b p] dalek_lawsD(4) [OF assms, of b a p]
  by (simp add: mult.commute)

section \<open>A concrete instance\<close>

text \<open>
  Arithmetic modulo 256 in place of the curve: points and scalars are bytes, an encoding is
  valid when it is below 256, and signatures are linear in the key as BLS signatures are.
  It satisfies the laws above and is used to evaluate the definitions on examples.
\<close>

definition sample_crypto :: "(8 word, 8 word) crypto" where
  "sample_crypto =
     \<lparr>sha3 = sample_sha3,
      compress = ucast,
      decompress = (\<lambda>b. if b < 256 then Some (ucast b) else None),
      smul = (*),
      B_base = 3,
      B_blinding = 5,
      scalar_of_u64 = ucast,
      scalar_bytes = ucast,
      from_canonical_bytes = (\<lambda>b. if b < 256 then Some (ucast b) else None),
      from_bytes_mod_order = ucast,
      prove_single = (\<lambda>v g. ([], ucast (g * 5 + ucast v * 3))),
      verify_single = (\<lambda>_ _. True),
      aes128_keystream = (\<lambda>_ _ i. word_of_nat i),
      bls_sign = (\<lambda>sk h. ucast sk * ucast h),
      bls_verify = (\<lambda>pk h s. s = ucast pk * ucast h),
      g1_decodes = (\<lambda>_. True),
      g2_decodes = (\<lambda>_. True),
      g1_sum = (+),
      g2_sum = (+),
      g1_zero = 0,
      g2_zero = 0,
      vrf_proof = (\<lambda>sk seed. ucast sk * ucast seed),
      vrf_rand = ucast,
      vrf_check = (\<lambda>p pk seed. p = ucast pk * ucast seed),
      vdf_verify = (\<lambda>_ _ _. True)\<rparr>"

lemma sample_crypto_dalek: "dalek_laws sample_crypto"
proof -
  have byte: "ucast p < (256 :: b32)" "ucast (ucast p :: b32) = p" for p :: "8 word"
  proof -
    have "uint p < 256"
      using uint_lt2p [of p] by simp
    then show "ucast p < (256 :: b32)"
      by (simp add: word_less_def uint_up_ucast is_up)
    show "ucast (ucast p :: b32) = p"
      by (rule bit_word_eqI) (simp add: bit_simps)
  qed
  show ?thesis
    by (simp add: dalek_laws_def sample_crypto_def byte algebra_simps)
qed

section \<open>Properties\<close>

lemma validate_sign_hash:
  assumes "dalek_laws c"
  shows "validate_sig c h (sign_hash c h skey) (pkey_of_skey c skey) = Ok ()"
  by (simp add: validate_sig_def sign_hash_def pkey_of_skey_def hash_PublicKey_def hash_Pt_def
      hash_enc_PublicKey_def Let_def dalek_lawsD [OF assms])

text \<open>
  C26: A Schnorr signature produced by \<open>sign_hash\<close> with a secret key is accepted by
  \<open>validate_sig\<close> for the same message and the public key of that secret key.
\<close>

theorem schnorr_sign_validates:
  assumes "dalek_laws c"
  shows "validate_sig c h (sign_hash c h skey) (pkey_of_skey c skey) = Ok ()"
  by (rule validate_sign_hash [OF assms])

theorem schnorr_sign_validates_witness:
  "validate_sig sample_crypto 9 (sign_hash sample_crypto 9 4) (pkey_of_skey sample_crypto 4) = Ok ()"
  by (rule schnorr_sign_validates [OF sample_crypto_dalek])

text \<open>Adding signatures adds their two halves.\<close>

lemma schnorr_fold:
  assumes "dalek_laws c"
    and "\<And>s. s \<in> set sigs \<Longrightarrow> \<exists>x. decompress c (sig_K s) = Some x"
    and "sig_K acc = compress c a"
  shows "sig_u (foldl (schnorr_add c) acc sigs) = sig_u acc + sum_list (map sig_u sigs)"
    and "sig_K (foldl (schnorr_add c) acc sigs) =
         compress c (a + sum_list (map (\<lambda>s. ristretto_of_pt c (PtCmpr (sig_K s))) sigs))"
  using assms(2,3)
  by (induction sigs arbitrary: acc a)
    (simp_all add: schnorr_add_def Let_def dalek_lawsD [OF assms(1)] add.assoc)

lemma those_map_Some: "those (map (\<lambda>x. Some (f x)) xs) = Some (map f xs)"
  by (induction xs) simp_all

lemma smul_sum_list:
  assumes "dalek_laws c"
  shows "smul c (sum_list (map f xs)) p = sum_list (map (\<lambda>x. smul c (f x) p) xs)"
  by (induction xs) (simp_all add: smul_zero_left [OF assms] dalek_lawsD [OF assms])

text \<open>
  C27: The multi-party signature of a super-transaction: when every participant signs with
  \<open>sign_hash_with_kval\<close>, passing the sum of all nonce commitments and the sum of all
  public keys, no participant panics and the sum of the partial signatures is accepted for
  the sum of the public keys.
\<close>

theorem schnorr_multi_signature:
  assumes "dalek_laws c"
    and "sumK = PtRaw (sum_list (map (\<lambda>(s, k). smul c k (B_blinding c)) ps))"
    and "sumP = PtRaw (sum_list (map (\<lambda>(s, k). smul c s (B_blinding c)) ps))"
  shows "\<exists>sigs. those (map (\<lambda>(s, k). sign_hash_with_kval c h s k sumK sumP) ps) = Some sigs
           \<and> validate_sig c h (foldl (schnorr_add c) (schnorr_new c) sigs) sumP = Ok ()"
proof -
  note laws = dalek_lawsD [OF assms(1)]
  define K where "K = sum_list (map (\<lambda>(s, k). smul c k (B_blinding c)) ps)"
  define P where "P = sum_list (map (\<lambda>(s, k). smul c s (B_blinding c)) ps)"
  define e where "e = from_bytes_mod_order c
    (digest c (hash_enc_pt (compress c K) @ hash_enc_PublicKey (compress c P) @ hash_hash h))"
  define sigs where
    "sigs = map (\<lambda>(s, k). \<lparr>sig_u = k + e * s, sig_K = compress c (smul c k (B_blinding c))\<rparr>) ps"
  let ?sum = "foldl (schnorr_add c) (schnorr_new c) sigs"
  have sign: "(\<lambda>(s, k). sign_hash_with_kval c h s k sumK sumP) = (\<lambda>p. Some ((\<lambda>(s, k).
      \<lparr>sig_u = k + e * s, sig_K = compress c (smul c k (B_blinding c))\<rparr>) p))"
    by (auto simp: assms(2,3) K_def P_def e_def sign_hash_with_kval_def hash_Pt_def
        hash_PublicKey_def hash_enc_PublicKey_def Let_def)
  have dec: "\<exists>x. decompress c (sig_K s) = Some x" if "s \<in> set sigs" for s
    using that by (auto simp: sigs_def laws)
  have "sig_K ?sum = compress c K"
    using schnorr_fold(2) [where sigs = sigs and acc = "schnorr_new c" and a = 0, OF assms(1) dec]
    by (simp add: schnorr_new_def sigs_def K_def comp_def case_prod_unfold laws)
  moreover have "sig_u ?sum = sum_list (map (\<lambda>(s, k). k) ps) + e * sum_list (map (\<lambda>(s, k). s) ps)"
    using schnorr_fold(1) [where sigs = sigs and acc = "schnorr_new c" and a = 0, OF assms(1) dec]
    by (simp add: schnorr_new_def sigs_def comp_def case_prod_unfold sum_list_addf
        sum_list_const_mult)
  moreover have "smul c (sum_list (map (\<lambda>(s, k). k) ps)) (B_blinding c) = K"
    "smul c (sum_list (map (\<lambda>(s, k). s) ps)) (B_blinding c) = P"
    by (simp_all add: K_def P_def case_prod_unfold smul_sum_list [OF assms(1)])
  ultimately have "validate_sig c h ?sum sumP = Ok ()"
    by (simp add: assms(3) validate_sig_def hash_PublicKey_def hash_Pt_def Let_def laws
        flip: P_def e_def hash_enc_PublicKey_def)
  then show ?thesis
    by (auto simp: sign those_map_Some simp flip: sigs_def)
qed

theorem schnorr_multi_signature_witness:
  "\<exists>sigs. those (map (\<lambda>(s, k). sign_hash_with_kval sample_crypto 9 s k (PtRaw 50) (PtRaw 55))
             [(4, 1), (7, 9)]) = Some sigs
     \<and> validate_sig sample_crypto 9 (foldl (schnorr_add sample_crypto) (schnorr_new sample_crypto) sigs)
         (PtRaw 55) = Ok ()"
  by (rule schnorr_multi_signature [OF sample_crypto_dalek]) (simp_all add: sample_crypto_def)

text \<open>XOR with the same keystream twice is the identity.\<close>

lemma aes_encrypt_with_key_invol:
  "aes_encrypt_with_key c (aes_encrypt_with_key c msg key) key = msg"
  by (rule nth_equalityI)
    (simp_all add: aes_encrypt_with_key_def nth_enumerate_eq xor.assoc)

lemma length_aes_encrypt_with_key [simp]:
  "length (aes_encrypt_with_key c msg key) = length msg"
  by (simp add: aes_encrypt_with_key_def)

lemma aes_round:
  assumes "dalek_laws c"
  shows "\<exists>ag payload rvalue. aes_encrypt c msg (pkey_of_skey c skey) = Some (ag, payload, rvalue)
           \<and> length payload = length msg
           \<and> aes_decrypt c ag payload skey = msg
           \<and> aes_decrypt_with_rvalue c payload rvalue (pkey_of_skey c skey) = msg"
proof -
  have "smul c skey (smul c a (B_blinding c)) = smul c a (smul c skey (B_blinding c))" for a
    by (rule smul_comm [OF assms])
  then show ?thesis
    by (simp add: aes_encrypt_def aes_decrypt_def aes_decrypt_with_rvalue_def pkey_of_skey_def
        hash_PublicKey_def hash_Pt_def Let_def aes_encrypt_with_key_invol)
qed

text \<open>
  C28: Whatever is encrypted for a public key is recovered both by the holder of the secret
  key, from the hint stored next to the ciphertext, and by whoever is given the random
  value used by the sender (the payment certificate).
\<close>

theorem aes_round_trip:
  assumes "dalek_laws c"
  shows "\<exists>ag payload rvalue. aes_encrypt c msg (pkey_of_skey c skey) = Some (ag, payload, rvalue)
           \<and> length payload = length msg
           \<and> aes_decrypt c ag payload skey = msg
           \<and> aes_decrypt_with_rvalue c payload rvalue (pkey_of_skey c skey) = msg"
  by (rule aes_round [OF assms])

theorem aes_round_trip_witness:
  "\<exists>ag payload rvalue.
     aes_encrypt sample_crypto [1, 2, 3] (pkey_of_skey sample_crypto 4) = Some (ag, payload, rvalue)
     \<and> length payload = length [1, 2, 3 :: u8]
     \<and> aes_decrypt sample_crypto ag payload 4 = [1, 2, 3]
     \<and> aes_decrypt_with_rvalue sample_crypto payload rvalue (pkey_of_skey sample_crypto 4) = [1, 2, 3]"
  by (rule aes_round_trip [OF sample_crypto_dalek])

text \<open>
  C40: A public key whose bytes do not decode is treated as the identity by
  \<open>validate_sig\<close>, so anybody who picks a scalar has a signature on any message that is
  accepted for that key, without a secret key.
\<close>

theorem schnorr_undecodable_key_forgery:
  assumes "dalek_laws c" and "decompress c b = None"
  shows "validate_sig c h \<lparr>sig_u = u, sig_K = compress c (smul c u (B_blinding c))\<rparr> (PtCmpr b) = Ok ()"
  by (simp add: validate_sig_def hash_PublicKey_def hash_Pt_def Let_def assms
      smul_zero_right dalek_lawsD [OF assms(1)])

theorem schnorr_undecodable_key_forgery_witness:
  "validate_sig sample_crypto 9
     \<lparr>sig_u = 6, sig_K = compress sample_crypto (smul sample_crypto 6 (B_blinding sample_crypto))\<rparr>
     (PtCmpr 300) = Ok ()"
  by (rule schnorr_undecodable_key_forgery [OF sample_crypto_dalek])
    (simp add: sample_crypto_def)

end
