(* ===== verification/Pbc.thy ===== *)
theory Pbc
  imports Scc
begin

text \<open>
  The BLS layer of \<open>crypto/src/pbc/mod.rs\<close>. Elements of the two pairing groups are held by
  their encodings (equality, order and hashing of \<open>G1\<close> and \<open>G2\<close> are those of the encoding);
  a sum with an encoding that does not decode is \<open>G1None\<close> or \<open>G2None\<close>, here \<open>None\<close>. The
  pairing crate is a parameter: decoding, sums, signing and verification, the verifiable
  random function.
\<close>

section \<open>Groups\<close>

type_synonym G1 = "b48 option"
type_synonym G2 = "b96 option"

definition g1_add :: "('g, 'f) crypto \<Rightarrow> G1 \<Rightarrow> G1 \<Rightarrow> G1" where
  "g1_add c a b = (case (a, b) of
     (Some x, Some y) \<Rightarrow> if g1_decodes c x \<and> g1_decodes c y then Some (g1_sum c x y) else None
   | _ \<Rightarrow> None)"

definition g2_add :: "('g, 'f) crypto \<Rightarrow> G2 \<Rightarrow> G2 \<Rightarrow> G2" where
  "g2_add c a b = (case (a, b) of
     (Some x, Some y) \<Rightarrow> if g2_decodes c x \<and> g2_decodes c y then Some (g2_sum c x y) else None
   | _ \<Rightarrow> None)"

section \<open>Signatures\<close>

definition pbc_sign_hash :: "('g, 'f) crypto \<Rightarrow> hash \<Rightarrow> pbc_skey \<Rightarrow> pbc_sig" where
  "pbc_sign_hash c h skey = bls_sign c skey h"

text \<open>The key is decoded first, then the signature; the arguments may be \<open>None\<close> points.\<close>

definition check_hash :: "('g, 'f) crypto \<Rightarrow> hash \<Rightarrow> G1 \<Rightarrow> G2 \<Rightarrow> (CryptoError, unit) outcome" where
  "check_hash c h sig pkey =
     (case pkey of
        None \<Rightarrow> Err InvalidPoint
      | Some p \<Rightarrow>
          if \<not> g2_decodes c p then Err InvalidPoint
          else case sig of
            None \<Rightarrow> Err InvalidPoint
          | Some s \<Rightarrow>
              if \<not> g1_decodes c s then Err InvalidPoint
              else if bls_verify c p h s then Ok ()
              else Err BadKeyingSignature)"

section \<open>Verifiable random function\<close>

record VRF =
  vrf_random :: hash
  vrf_pt :: b48

definition hash_VRF :: "VRF \<Rightarrow> bytes" where
  "hash_VRF v = hash_hash (vrf_random v) @ hash_G1 (vrf_pt v)"

definition make_VRF :: "('g, 'f) crypto \<Rightarrow> pbc_skey \<Rightarrow> hash \<Rightarrow> VRF" where
  "make_VRF c skey seed =
     (let proof = vrf_proof c skey seed
      in \<lparr>vrf_random = vrf_rand c proof, vrf_pt = proof\<rparr>)"

definition validate_VRF_randomness :: "('g, 'f) crypto \<Rightarrow> VRF \<Rightarrow> (CryptoError, unit) outcome" where
  "validate_VRF_randomness c v =
     (if \<not> g1_decodes c (vrf_pt v) then Err InvalidPoint
      else if vrf_random v = vrf_rand c (vrf_pt v) then Ok ()
      else Err InvalidVRFRandomness)"

definition validate_VRF_source ::
  "('g, 'f) crypto \<Rightarrow> VRF \<Rightarrow> pbc_pkey \<Rightarrow> hash \<Rightarrow> (CryptoError, unit) outcome" where
  "validate_VRF_source c v pkey seed =
     (if \<not> g2_decodes c pkey then Err InvalidPoint
      else if \<not> g1_decodes c (vrf_pt v) then Err InvalidPoint
      else if vrf_check c (vrf_pt v) pkey seed then Ok ()
      else Err InvalidVRFSource)"

section \<open>Laws of the pairing crate\<close>

text \<open>
  What the multi-signature code relies on: sums of decodable points decode, the zero
  signature verifies for the zero key, and verification is additive.
\<close>

definition bls_laws :: "('g, 'f) crypto \<Rightarrow> bool" where
  "bls_laws c \<longleftrightarrow>
     g1_decodes c (g1_zero c) \<and> g2_decodes c (g2_zero c) \<and>
     (\<forall>x y. g1_decodes c x \<longrightarrow> g1_decodes c y \<longrightarrow> g1_decodes c (g1_sum c x y)) \<and>
     (\<forall>x y. g2_decodes c x \<longrightarrow> g2_decodes c y \<longrightarrow> g2_decodes c (g2_sum c x y)) \<and>
     (\<forall>h. bls_verify c (g2_zero c) h (g1_zero c)) \<and>
     (\<forall>h p q s t. bls_verify c p h s \<longrightarrow> bls_verify c q h t
        \<longrightarrow> bls_verify c (g2_sum c p q) h (g1_sum c s t))"

lemma bls_lawsD:
  assumes "bls_laws c"
  shows "g1_decodes c (g1_zero c)" "g2_decodes c (g2_zero c)"
    and "g1_decodes c x \<Longrightarrow> g1_decodes c y \<Longrightarrow> g1_decodes c (g1_sum c x y)"
    and "g2_decodes c p \<Longrightarrow> g2_decodes c q \<Longrightarrow> g2_decodes c (g2_sum c p q)"
    and "bls_verify c (g2_zero c) h (g1_zero c)"
    and "bls_verify c p h x \<Longrightarrow> bls_verify c q h y \<Longrightarrow> bls_verify c (g2_sum c p q) h (g1_sum c x y)"
  using assms by (auto simp: bls_laws_def)

lemma sample_crypto_bls: "bls_laws sample_crypto"
proof -
  have "ucast (p + q) = (ucast p + ucast q :: b48)" for p q :: b96
    by (rule ucast_add_down) simp
  then show ?thesis
    by (simp add: bls_laws_def sample_crypto_def algebra_simps)
qed

lemma check_hash_Ok_iff:
  "check_hash c h sig pkey = Ok () \<longleftrightarrow>
   (\<exists>s p. sig = Some s \<and> pkey = Some p \<and> g1_decodes c s \<and> g2_decodes c p \<and> bls_verify c p h s)"
  by (auto simp: check_hash_def split: option.splits)

end
