(* ===== verification/Output.thy ===== *)
theory Output
  imports Pbc
begin

text \<open>
  Unspent transaction outputs, \<open>blockchain/src/output.rs\<close>: the three kinds of outputs with
  their hashes, validation and Pedersen commitments, and the encrypted payload of a payment.
  Points stored in an output (recipient key, commitment, keying hint) are 32-byte encodings,
  as they arrive from the network; the code decodes them when it computes with them.
\<close>

section \<open>Data\<close>

record BulletProof =
  vcmt :: b32
  range_proof :: bytes

record PaymentOutput =
  po_recipient :: b32
  po_proof :: BulletProof
  po_ag :: b32
  po_payload :: bytes

record PublicPaymentOutput =
  pp_recipient :: b32
  pp_serno :: i64
  pp_amount :: i64

record StakeOutput =
  so_recipient :: b32
  so_validator :: pbc_pkey
  so_amount :: i64
  so_serno :: i64
  so_signature :: pbc_sig

datatype Output =
    PaymentOutput PaymentOutput
  | PublicPaymentOutput PublicPaymentOutput
  | StakeOutput StakeOutput

record PaymentCanary =
  pc_ag :: b32
  pc_canary :: bytes

datatype Canary =
    PaymentCanary PaymentCanary
  | PublicPaymentCanary b32
  | StakeCanary b32

abbreviation PAYMENT_PAYLOAD_CANARY_LEN :: nat where
  "PAYMENT_PAYLOAD_CANARY_LEN \<equiv> 4"

abbreviation PAYMENT_PAYLOAD_LEN :: nat where
  "PAYMENT_PAYLOAD_LEN \<equiv> 1024"

abbreviation PAYMENT_DATA_LEN :: nat where
  "PAYMENT_DATA_LEN \<equiv> PAYMENT_PAYLOAD_LEN - PAYMENT_PAYLOAD_CANARY_LEN - 32 - 32 - 8 - 64"

section \<open>Hashing\<close>

definition hash_BulletProof :: "BulletProof \<Rightarrow> bytes" where
  "hash_BulletProof p = hash_str ''BulletProof'' @ hash_enc_pt (vcmt p) @ range_proof p"

definition hash_PaymentOutput :: "PaymentOutput \<Rightarrow> bytes" where
  "hash_PaymentOutput o' =
     hash_str ''Payment'' @ hash_enc_PublicKey (po_recipient o') @ hash_BulletProof (po_proof o')
     @ hash_enc_pt (po_ag o') @ po_payload o'"

definition hash_PublicPaymentOutput :: "PublicPaymentOutput \<Rightarrow> bytes" where
  "hash_PublicPaymentOutput o' =
     hash_str ''PublicPayment'' @ hash_enc_PublicKey (pp_recipient o') @ hash_i64 (pp_serno o')
     @ hash_i64 (pp_amount o')"

definition hash_StakeOutput :: "StakeOutput \<Rightarrow> bytes" where
  "hash_StakeOutput o' =
     hash_str ''Stake'' @ hash_enc_PublicKey (so_recipient o') @ hash_pbc_PublicKey (so_validator o')
     @ hash_i64 (so_amount o') @ hash_i64 (so_serno o')"

fun hash_Output :: "Output \<Rightarrow> bytes" where
  "hash_Output (PaymentOutput payment) = hash_PaymentOutput payment"
| "hash_Output (PublicPaymentOutput payment) = hash_PublicPaymentOutput payment"
| "hash_Output (StakeOutput stake) = hash_StakeOutput stake"

fun hash_Canary :: "Canary \<Rightarrow> bytes" where
  "hash_Canary (PaymentCanary can) = hash_str ''Payment'' @ hash_enc_pt (pc_ag can) @ pc_canary can"
| "hash_Canary (PublicPaymentCanary recipient) =
     hash_str ''PublicPayment'' @ hash_enc_PublicKey recipient"
| "hash_Canary (StakeCanary recipient) = hash_str ''Stake'' @ hash_enc_PublicKey recipient"

section \<open>Validation, commitments, canaries\<close>

definition validate_range_proof :: "('g, 'f) crypto \<Rightarrow> BulletProof \<Rightarrow> bool" where
  "validate_range_proof c bp = verify_single c (range_proof bp) (vcmt bp)"

definition validate_PaymentOutput ::
  "('g, 'f) crypto \<Rightarrow> PaymentOutput \<Rightarrow> (BlockchainError, unit) outcome" where
  "validate_PaymentOutput c o' =
     (if \<not> validate_range_proof c (po_proof o')
      then outErr (InvalidBulletProof (digest c (hash_PaymentOutput o')))
      else if length (po_payload o') \<noteq> PAYMENT_PAYLOAD_LEN
      then outErr (InvalidPayloadLength (digest c (hash_PaymentOutput o')) PAYMENT_PAYLOAD_LEN
                     (length (po_payload o')))
      else Ok ())"

definition validate_PublicPaymentOutput ::
  "('g, 'f) crypto \<Rightarrow> PublicPaymentOutput \<Rightarrow> (BlockchainError, unit) outcome" where
  "validate_PublicPaymentOutput c o' =
     (if pp_amount o' \<le>s 0
      then outErr (InvalidAmount (digest c (hash_PublicPaymentOutput o')) (pp_amount o'))
      else Ok ())"

definition validate_StakeOutput ::
  "('g, 'f) crypto \<Rightarrow> StakeOutput \<Rightarrow> (BlockchainError, unit) outcome" where
  "validate_StakeOutput c o' =
     (let output_hash = digest c (hash_StakeOutput o') in
      if so_amount o' \<le>s 0 then outErr (InvalidAmount output_hash (so_amount o'))
      else if \<not> is_ok (check_hash c output_hash (Some (so_signature o')) (Some (so_validator o')))
      then outErr (InvalidStakeSignature output_hash)
      else Ok ())"

fun validate_Output :: "('g, 'f) crypto \<Rightarrow> Output \<Rightarrow> (BlockchainError, unit) outcome" where
  "validate_Output c (PaymentOutput o') = validate_PaymentOutput c o'"
| "validate_Output c (PublicPaymentOutput o') = validate_PublicPaymentOutput c o'"
| "validate_Output c (StakeOutput o') = validate_StakeOutput c o'"

fun recipient_pkey :: "Output \<Rightarrow> 'g Pt" where
  "recipient_pkey (PaymentOutput o') = PtCmpr (po_recipient o')"
| "recipient_pkey (PublicPaymentOutput o') = PtCmpr (pp_recipient o')"
| "recipient_pkey (StakeOutput o') = PtCmpr (so_recipient o')"

text \<open>\<open>None\<close> is the panic of \<open>fee_a\<close> on a negative amount.\<close>

fun pedersen_commitment :: "('g, 'f) crypto \<Rightarrow> Output \<Rightarrow> 'g Pt option" where
  "pedersen_commitment c (PaymentOutput o') = Some (PtCmpr (vcmt (po_proof o')))"
| "pedersen_commitment c (PublicPaymentOutput o') = fee_a c (pp_amount o')"
| "pedersen_commitment c (StakeOutput o') = fee_a c (so_amount o')"

text \<open>
  The slice of the payload panics when it is shorter than the canary. The canary of a stake
  is the one of a public payment.
\<close>

fun canary :: "Output \<Rightarrow> Canary option" where
  "canary (PaymentOutput o') =
     (if length (po_payload o') < PAYMENT_PAYLOAD_CANARY_LEN then None
      else Some (PaymentCanary \<lparr>pc_ag = po_ag o',
                                pc_canary = take PAYMENT_PAYLOAD_CANARY_LEN (po_payload o')\<rparr>))"
| "canary (PublicPaymentOutput o') = Some (PublicPaymentCanary (pp_recipient o'))"
| "canary (StakeOutput o') = Some (PublicPaymentCanary (so_recipient o'))"

definition canary_is_my ::
  "('g::zero, 'f) crypto \<Rightarrow> Canary \<Rightarrow> 'g Pt \<Rightarrow> 'f \<Rightarrow> bool option" where
  "canary_is_my c can pkey skey = (case can of
     PaymentCanary pc \<Rightarrow>
       (let dec = aes_decrypt c (PtCmpr (pc_ag pc)) (take PAYMENT_PAYLOAD_CANARY_LEN (pc_canary pc)) skey
        in if length dec \<noteq> PAYMENT_PAYLOAD_CANARY_LEN then None
           else map_option (\<lambda>b. dec = take PAYMENT_PAYLOAD_CANARY_LEN (be_bytes 32 b))
                  (pt_to_bytes c pkey))
   | PublicPaymentCanary recipient \<Rightarrow> Some (pt_eq c (PtCmpr recipient) pkey)
   | StakeCanary recipient \<Rightarrow> Some (pt_eq c (PtCmpr recipient) pkey))"

definition StakeOutput_new ::
  "('g, 'f) crypto \<Rightarrow> b32 \<Rightarrow> pbc_skey \<Rightarrow> pbc_pkey \<Rightarrow> i64 \<Rightarrow> i64 \<Rightarrow> StakeOutput option" where
  "StakeOutput_new c recipient validator_skey validator amount serno =
     (if \<not> 0 <s amount then None
      else
        let output = \<lparr>so_recipient = recipient, so_validator = validator, so_amount = amount,
                      so_serno = serno, so_signature = g1_zero c\<rparr>;
            h = digest c (hash_StakeOutput output)
        in Some (output\<lparr>so_signature := pbc_sign_hash c h validator_skey\<rparr>))"

end
