(* ===== verification/Payload.thy ===== *)
theory Payload
  imports Output
begin

text \<open>
  The encrypted payload of a payment output and the construction of such outputs,
  \<open>blockchain/src/output.rs\<close>. Random values the code draws are arguments of the definitions.
  A \<open>String\<close> is its UTF-8 bytes.
\<close>

section \<open>UTF-8\<close>

text \<open>
  \<open>std::str::from_utf8\<close>: the well-formed byte sequences of the Unicode standard, as an
  automaton. A state says which continuation bytes are still due: \<open>Due n\<close> wants \<open>n\<close> of them,
  \<open>DueIn lo hi n\<close> wants the next one between \<open>lo\<close> and \<open>hi\<close>, then \<open>n\<close> more.
\<close>

datatype utf8_state = Due nat | DueIn u8 u8 nat

fun utf8_step :: "utf8_state \<Rightarrow> u8 \<Rightarrow> utf8_state option" where
  "utf8_step (Due 0) a =
     (if a < 0x80 then Some (Due 0)
      else if 0xC2 \<le> a \<and> a \<le> 0xDF then Some (Due 1)
      else if a = 0xE0 then Some (DueIn 0xA0 0xBF 1)
      else if a = 0xED then Some (DueIn 0x80 0x9F 1)
      else if 0xE1 \<le> a \<and> a \<le> 0xEF then Some (Due 2)
      else if a = 0xF0 then Some (DueIn 0x90 0xBF 2)
      else if 0xF1 \<le> a \<and> a \<le> 0xF3 then Some (Due 3)
      else if a = 0xF4 then Some (DueIn 0x80 0x8F 2)
      else None)"
| "utf8_step (Due (Suc n)) a = (if 0x80 \<le> a \<and> a \<le> 0xBF then Some (Due n) else None)"
| "utf8_step (DueIn lo hi n) a = (if lo \<le> a \<and> a \<le> hi then Some (Due n) else None)"

fun utf8_run :: "utf8_state \<Rightarrow> bytes \<Rightarrow> utf8_state option" where
  "utf8_run s [] = Some s"
| "utf8_run s (a # bs) = Option.bind (utf8_step s a) (\<lambda>s. utf8_run s bs)"

definition utf8_valid :: "bytes \<Rightarrow> bool" where
  "utf8_valid bs \<longleftrightarrow> utf8_run (Due 0) bs = Some (Due 0)"

section \<open>Payload\<close>

datatype PaymentPayloadData = Comment bytes | ContentHash hash

record 'f PaymentPayload =
  pl_delta :: 'f
  pl_gamma :: 'f
  pl_amount :: i64
  pl_data :: PaymentPayloadData
  pl_signature :: "'f SchnorrSig"

fun discriminant :: "PaymentPayloadData \<Rightarrow> u8" where
  "discriminant (Comment _) = 0"
| "discriminant (ContentHash _) = 1"

fun hash_PaymentPayloadData :: "PaymentPayloadData \<Rightarrow> bytes" where
  "hash_PaymentPayloadData (Comment s) = [discriminant (Comment s)] @ s"
| "hash_PaymentPayloadData (ContentHash h) = [discriminant (ContentHash h)] @ hash_hash h"

fun validate_PaymentPayloadData :: "PaymentPayloadData \<Rightarrow> (OutputError, unit) outcome" where
  "validate_PaymentPayloadData (Comment comment) =
     (if length comment > PAYMENT_DATA_LEN - 2
      then Err (DataIsTooLong (PAYMENT_DATA_LEN - 2) (length comment)) else Ok ())"
| "validate_PaymentPayloadData (ContentHash _) = Ok ()"

definition hash_PaymentPayload :: "('g, 'f) crypto \<Rightarrow> 'f PaymentPayload \<Rightarrow> bytes" where
  "hash_PaymentPayload c p =
     hash_Fr c (pl_delta p) @ hash_Fr c (pl_gamma p) @ hash_i64 (pl_amount p)
     @ hash_PaymentPayloadData (pl_data p)"

definition PaymentPayload_new ::
  "('g::zero, 'f::zero) crypto \<Rightarrow> 'f \<Rightarrow> 'f \<Rightarrow> i64 \<Rightarrow> PaymentPayloadData \<Rightarrow> 'f PaymentPayload" where
  "PaymentPayload_new c delta gamma amount data =
     \<lparr>pl_delta = delta, pl_gamma = gamma, pl_amount = amount, pl_data = data,
      pl_signature = schnorr_new c\<rparr>"

definition new_with_signature ::
  "('g::zero, 'f::comm_ring_1) crypto \<Rightarrow> 'f \<Rightarrow> 'f \<Rightarrow> 'f \<Rightarrow> i64 \<Rightarrow> PaymentPayloadData
     \<Rightarrow> 'f PaymentPayload" where
  "new_with_signature c sender_key delta gamma amount data =
     (let payload = PaymentPayload_new c delta gamma amount data;
          h = digest c (hash_PaymentPayload c payload)
      in payload\<lparr>pl_signature := sign_hash c h sender_key\<rparr>)"

text \<open>
  Writing a slice at the cursor: \<open>payload[pos..pos + n].copy_from_slice(src)\<close> followed by
  \<open>pos += n\<close>; it panics when the slice is out of range.
\<close>

definition put_slice :: "bytes \<Rightarrow> bytes \<times> nat \<Rightarrow> (bytes \<times> nat) option" where
  "put_slice src = (\<lambda>(buf, pos).
     if pos + length src > length buf then None
     else Some (take pos buf @ src @ drop (pos + length src) buf, pos + length src))"

fun put_slices :: "bytes list \<Rightarrow> bytes \<times> nat \<Rightarrow> (bytes \<times> nat) option" where
  "put_slices [] st = Some st"
| "put_slices (s # ss) st = Option.bind (put_slice s st) (put_slices ss)"

fun data_bytes :: "PaymentPayloadData \<Rightarrow> bytes" where
  "data_bytes (Comment comment) = comment"
| "data_bytes (ContentHash h) = be_bytes 32 h"

text \<open>The plain payload written by \<open>encrypt\<close>.\<close>

definition encode_payload ::
  "('g, 'f) crypto \<Rightarrow> 'f PaymentPayload \<Rightarrow> 'g Pt \<Rightarrow> bytes option" where
  "encode_payload c p pkey =
     Option.bind (pt_to_bytes c pkey) (\<lambda>pk.
     Option.bind
       (put_slices [take PAYMENT_PAYLOAD_CANARY_LEN (be_bytes 32 pk),
                    be_bytes 32 (scalar_bytes c (pl_gamma p)),
                    be_bytes 32 (scalar_bytes c (pl_delta p)),
                    le_bytes 8 (pl_amount p),
                    be_bytes 32 (scalar_bytes c (sig_u (pl_signature p))),
                    be_bytes 32 (sig_K (pl_signature p)),
                    [discriminant (pl_data p)]]
          (replicate PAYMENT_PAYLOAD_LEN 0, 0)) (\<lambda>st.
     if \<not> is_ok (validate_PaymentPayloadData (pl_data p)) then None
     else Option.bind (put_slice (data_bytes (pl_data p)) st) (\<lambda>(buf, pos).
       if pos \<le> PAYMENT_PAYLOAD_LEN then Some buf else None)))"

definition encrypt_payload ::
  "('g::zero, 'f) crypto \<Rightarrow> 'f PaymentPayload \<Rightarrow> 'g Pt \<Rightarrow> ('g Pt \<times> bytes \<times> 'f) option" where
  "encrypt_payload c p pkey = Option.bind (encode_payload c p pkey) (\<lambda>payload. aes_encrypt c payload pkey)"

definition slice :: "nat \<Rightarrow> nat \<Rightarrow> bytes \<Rightarrow> bytes" where
  "slice pos n bs = take n (drop pos bs)"

text \<open>The loop that finds the end of a comment: trailing zero bytes are not part of it.\<close>

fun comment_end :: "bytes \<Rightarrow> nat \<Rightarrow> nat \<Rightarrow> nat" where
  "comment_end payload pos 0 = 0"
| "comment_end payload pos (Suc e) =
     (if Suc e > pos \<and> payload ! e = 0 then comment_end payload pos e else Suc e)"

text \<open>
  The reader of a decrypted payload. \<open>Fr::try_from_bytes(..).expect("ok")\<close> panics on bytes
  that are not a canonical scalar.
\<close>

definition extract_decrypted_info ::
  "('g, 'f) crypto \<Rightarrow> hash \<Rightarrow> bytes \<Rightarrow> 'g Pt \<Rightarrow> (OutputError, 'f PaymentPayload) outcome" where
  "extract_decrypted_info c output_hash payload pkey =
     (if length payload \<noteq> PAYMENT_PAYLOAD_LEN then Panic
      else
        obind (or_panic (pt_to_bytes c pkey)) (\<lambda>pk.
        if slice 0 4 payload \<noteq> take PAYMENT_PAYLOAD_CANARY_LEN (be_bytes 32 pk)
        then Err (PayloadDecryptionError output_hash)
        else
        obind (or_panic (from_canonical_bytes c (of_be_bytes (slice 4 32 payload)))) (\<lambda>gamma.
        obind (or_panic (from_canonical_bytes c (of_be_bytes (slice 36 32 payload)))) (\<lambda>delta.
        let amount = of_le_bytes (slice 68 8 payload) in
        if amount <s 0 then Err (InvalidAmount output_hash amount)
        else
        obind (or_panic (from_canonical_bytes c (of_be_bytes (slice 76 32 payload)))) (\<lambda>signature_u.
        let signature_k = of_be_bytes (slice 108 32 payload);
            code = payload ! 140 in
        obind
          (if code = 0 then
             let s = slice 141 (comment_end payload 141 (length payload) - 141) payload
             in if utf8_valid s then Ok (Comment s, length payload) else Err OutputError.UtfError
           else if code = 1 then Ok (ContentHash (of_be_bytes (slice 141 32 payload)), 173)
           else Err (UnsupportedDataType output_hash code)) (\<lambda>(data, pos).
        if \<exists>byte \<in> set (drop pos payload). byte \<noteq> 0 then Err (TrailingGarbage output_hash)
        else Ok \<lparr>pl_delta = delta, pl_gamma = gamma, pl_amount = amount, pl_data = data,
                 pl_signature = \<lparr>sig_u = signature_u, sig_K = signature_k\<rparr>\<rparr>))))))"

definition decrypt_payload ::
  "('g::zero, 'f) crypto \<Rightarrow> hash \<Rightarrow> 'g Pt \<Rightarrow> bytes \<Rightarrow> 'g Pt \<Rightarrow> 'f
     \<Rightarrow> (OutputError, 'f PaymentPayload) outcome" where
  "decrypt_payload c output_hash ag payload pkey skey =
     (if length payload \<noteq> PAYMENT_PAYLOAD_LEN
      then Err (InvalidPayloadLength output_hash PAYMENT_PAYLOAD_LEN (length payload))
      else extract_decrypted_info c output_hash (aes_decrypt c ag payload skey) pkey)"

definition decrypt_with_rvalue ::
  "('g::zero, 'f) crypto \<Rightarrow> hash \<Rightarrow> bytes \<Rightarrow> 'f \<Rightarrow> 'g Pt \<Rightarrow> (OutputError, 'f PaymentPayload) outcome"
where
  "decrypt_with_rvalue c output_hash payload rvalue pkey =
     (if length payload \<noteq> PAYMENT_PAYLOAD_LEN
      then Err (InvalidPayloadLength output_hash PAYMENT_PAYLOAD_LEN (length payload))
      else extract_decrypted_info c output_hash (aes_decrypt_with_rvalue c payload rvalue pkey) pkey)"

section \<open>Building and checking payment outputs\<close>

definition make_range_proof ::
  "('g, 'f) crypto \<Rightarrow> i64 \<Rightarrow> 'f \<Rightarrow> (BulletProof \<times> 'f) option" where
  "make_range_proof c secret_value blinding =
     (if secret_value <s 0 then None
      else
        let (proof, committed_value) = prove_single c secret_value blinding
        in case decompress c committed_value of
             None \<Rightarrow> None
           | Some pt \<Rightarrow> Some (\<lparr>vcmt = compress c pt, range_proof = proof\<rparr>, blinding))"

definition synthetic_random :: "('g, 'f) crypto \<Rightarrow> bytes \<Rightarrow> string \<Rightarrow> bytes \<Rightarrow> hash \<Rightarrow> 'f" where
  "synthetic_random c UNIQ pref uniq h =
     from_bytes_mod_order c (digest c (hash_str pref @ uniq @ hash_hash h @ UNIQ))"

text \<open>\<open>rnd\<close> is the scalar drawn by \<open>Fr::random\<close>, \<open>UNIQ\<close> the salt of the process.\<close>

definition cloak_key ::
  "('g::ab_group_add, 'f::comm_ring_1) crypto \<Rightarrow> bytes \<Rightarrow> 'f \<Rightarrow> 'g Pt \<Rightarrow> 'f \<Rightarrow> ('g Pt \<times> 'f) option"
where
  "cloak_key c UNIQ rnd recipient gamma =
     Option.bind (hash_PublicKey c recipient) (\<lambda>hp.
       let h = digest c (hp @ hash_Fr c rnd);
           delta = synthetic_random c UNIQ ''PKey'' (hash_Fr c gamma) h;
           cloaked = (if gamma = 0 then pt_add c recipient (pt_mul c (pt_one c) delta)
                      else pt_add c recipient (pt_mul c (pt_one c) (gamma * delta)))
       in Some (cloaked, delta))"

text \<open>
  \<open>blinding\<close> is the random blinding factor of the range proof. The last step stores the
  cloaked key and the keying hint in encoded form; a point without an encoding panics when the
  output is first hashed.
\<close>

definition with_payload ::
  "('g::ab_group_add, 'f::comm_ring_1) crypto \<Rightarrow> bytes \<Rightarrow> 'f \<Rightarrow> 'f \<Rightarrow> 'f option \<Rightarrow> 'g Pt \<Rightarrow> i64
     \<Rightarrow> PaymentPayloadData \<Rightarrow> (PaymentOutput \<times> 'f \<times> 'f) option" where
  "with_payload c UNIQ rnd blinding sender_key recipient amount data =
     Option.bind (make_range_proof c amount blinding) (\<lambda>(proof, gamma).
     Option.bind (cloak_key c UNIQ rnd recipient gamma) (\<lambda>(cloaked, delta).
     let payload = (case sender_key of
           Some key \<Rightarrow> new_with_signature c key delta gamma amount data
         | None \<Rightarrow> PaymentPayload_new c delta gamma amount data) in
     Option.bind (encrypt_payload c payload recipient) (\<lambda>(ag, payload, rvalue).
     Option.bind (pt_to_bytes c cloaked) (\<lambda>cloaked.
     Option.bind (pt_to_bytes c ag) (\<lambda>ag.
       Some (\<lparr>po_recipient = cloaked, po_proof = proof, po_ag = ag, po_payload = payload\<rparr>,
             gamma, rvalue))))))"

definition output_decrypt_payload ::
  "('g::zero, 'f) crypto \<Rightarrow> PaymentOutput \<Rightarrow> 'g Pt \<Rightarrow> 'f \<Rightarrow> (OutputError, 'f PaymentPayload) outcome"
where
  "output_decrypt_payload c o' pkey skey =
     decrypt_payload c (digest c (hash_PaymentOutput o')) (PtCmpr (po_ag o')) (po_payload o') pkey skey"

definition validate_certificate ::
  "('g::ab_group_add, 'f) crypto \<Rightarrow> PaymentOutput \<Rightarrow> 'g Pt \<Rightarrow> 'g Pt \<Rightarrow> 'f
     \<Rightarrow> (OutputError, i64) outcome" where
  "validate_certificate c o' spender_pkey recipient rvalue =
     (case decrypt_with_rvalue c (digest c (hash_PaymentOutput o')) (po_payload o') rvalue recipient of
        Panic \<Rightarrow> Panic
      | Err _ \<Rightarrow> Err InvalidCertificate
      | Ok payload \<Rightarrow>
          (case validate_sig c (digest c (hash_PaymentPayload c payload)) (pl_signature payload)
                  spender_pkey of
             Panic \<Rightarrow> Panic
           | Err _ \<Rightarrow> Err InvalidCertificate
           | Ok _ \<Rightarrow> Ok (pl_amount payload)))"

section \<open>Layout of the payload\<close>

text \<open>Canonical encodings of scalars are read back (curve25519-dalek).\<close>

definition scalar_laws :: "('g, 'f) crypto \<Rightarrow> bool" where
  "scalar_laws c \<longleftrightarrow> (\<forall>x. from_canonical_bytes c (scalar_bytes c x) = Some x)"

lemma put_slices_append:
  assumes "length (concat ss) \<le> length rest"
  shows "put_slices ss (pre @ rest, length pre) =
         Some (pre @ concat ss @ drop (length (concat ss)) rest, length pre + length (concat ss))"
  using assms
proof (induction ss arbitrary: pre rest)
  case (Cons s ss)
  have "put_slice s (pre @ rest, length pre) =
      Some ((pre @ s) @ drop (length s) rest, length (pre @ s))"
    using Cons.prems by (simp add: put_slice_def)
  then show ?case
    using Cons.IH [where pre = "pre @ s" and rest = "drop (length s) rest"] Cons.prems
    by (simp add: add.commute add.left_commute)
qed simp

text \<open>What \<open>encode_payload\<close> writes.\<close>

definition payload_prefix :: "('g, 'f) crypto \<Rightarrow> 'f PaymentPayload \<Rightarrow> b32 \<Rightarrow> bytes" where
  "payload_prefix c p pk =
     take 4 (be_bytes 32 pk) @ be_bytes 32 (scalar_bytes c (pl_gamma p))
     @ be_bytes 32 (scalar_bytes c (pl_delta p)) @ le_bytes 8 (pl_amount p)
     @ be_bytes 32 (scalar_bytes c (sig_u (pl_signature p))) @ be_bytes 32 (sig_K (pl_signature p))
     @ [discriminant (pl_data p)]"

lemma length_payload_prefix [simp]: "length (payload_prefix c p pk) = 141"
  by (simp add: payload_prefix_def)

lemma data_bytes_fit:
  "validate_PaymentPayloadData d = Ok () \<Longrightarrow> length (data_bytes d) \<le> 882"
  by (cases d) (auto split: if_splits)

lemma encode_payload_eq:
  assumes "pt_to_bytes c pkey = Some pk" "validate_PaymentPayloadData (pl_data p) = Ok ()"
  shows "encode_payload c p pkey = Some (payload_prefix c p pk @ data_bytes (pl_data p)
           @ replicate (883 - length (data_bytes (pl_data p))) 0)"
proof -
  let ?ss = "[take 4 (be_bytes 32 pk), be_bytes 32 (scalar_bytes c (pl_gamma p)),
      be_bytes 32 (scalar_bytes c (pl_delta p)), le_bytes 8 (pl_amount p),
      be_bytes 32 (scalar_bytes c (sig_u (pl_signature p))), be_bytes 32 (sig_K (pl_signature p)),
      [discriminant (pl_data p)]]"
  have concat: "concat ?ss = payload_prefix c p pk" by (simp add: payload_prefix_def)
  have "put_slices ?ss (replicate 1024 0, 0) = Some (payload_prefix c p pk @ replicate 883 0, 141)"
    using put_slices_append [of ?ss "replicate 1024 0" "[]"] unfolding concat by simp
  moreover have "put_slice (data_bytes (pl_data p)) (payload_prefix c p pk @ replicate 883 0, 141) =
      Some (payload_prefix c p pk @ data_bytes (pl_data p)
              @ replicate (883 - length (data_bytes (pl_data p))) 0, 141 + length (data_bytes (pl_data p)))"
    using data_bytes_fit [OF assms(2)] by (simp add: put_slice_def)
  ultimately show ?thesis
    using data_bytes_fit [OF assms(2)] assms(2)
    by (simp add: encode_payload_def assms(1) del: put_slices.simps)
qed

text \<open>Trailing zero bytes of a comment are lost.\<close>

definition rstrip :: "bytes \<Rightarrow> bytes" where
  "rstrip cs = rev (dropWhile (\<lambda>b. b = 0) (rev cs))"

lemma rstrip_snoc: "rstrip (cs @ [b]) = (if b = 0 then rstrip cs else cs @ [b])"
  by (simp add: rstrip_def)

lemma rstrip_zeros: "rstrip (cs @ replicate n 0) = rstrip cs"
  by (induction n) (simp_all add: rstrip_snoc replicate_append_same [symmetric]
      flip: append_assoc del: replicate_append_same)

lemma rstrip_split: "\<exists>n. cs = rstrip cs @ replicate n 0"
proof (induction cs rule: rev_induct)
  case (snoc b cs)
  then obtain n where "cs = rstrip cs @ replicate n 0" by blast
  then have "b = 0 \<Longrightarrow> cs @ [b] = rstrip (cs @ [b]) @ replicate (Suc n) 0"
    by (simp add: rstrip_snoc flip: replicate_append_same append_assoc)
  moreover have "b \<noteq> 0 \<Longrightarrow> cs @ [b] = rstrip (cs @ [b]) @ replicate 0 0"
    by (simp add: rstrip_snoc)
  ultimately show ?case by blast
qed (simp add: rstrip_def)

lemma rstrip_prefix: "take (length (rstrip cs)) cs = rstrip cs"
  using rstrip_split [of cs] by (metis append_eq_conv_conj)

lemma rstrip_id: "cs = [] \<or> last cs \<noteq> 0 \<Longrightarrow> rstrip cs = cs"
  by (cases cs rule: rev_cases) (auto simp: rstrip_snoc, simp add: rstrip_def)

lemma comment_end_eq:
  assumes "pos \<le> e" "e \<le> length payload"
  shows "comment_end payload pos e = pos + length (rstrip (slice pos (e - pos) payload))"
  using assms
proof (induction e)
  case 0
  then show ?case by (simp add: slice_def rstrip_def)
next
  case (Suc e)
  show ?case
  proof (cases "pos \<le> e")
    case True
    then have "slice pos (Suc e - pos) payload = slice pos (e - pos) payload @ [payload ! e]"
      using Suc.prems by (simp add: slice_def Suc_diff_le take_Suc_conv_app_nth)
    moreover have "length (slice pos (e - pos) payload) = e - pos"
      using Suc.prems by (simp add: slice_def)
    ultimately show ?thesis using Suc True by (simp add: rstrip_snoc)
  next
    case False
    then show ?thesis using Suc.prems by (simp add: slice_def rstrip_def)
  qed
qed

text \<open>In every state reached a zero byte is only accepted between two characters.\<close>

fun utf8_due :: "utf8_state \<Rightarrow> bool" where
  "utf8_due (Due n) = True"
| "utf8_due (DueIn lo hi n) = (0 < lo)"

lemma utf8_step_due: "utf8_step s a = Some t \<Longrightarrow> utf8_due t"
  by (induction s a rule: utf8_step.induct) (auto split: if_splits)

lemma utf8_run_due: "utf8_due s \<Longrightarrow> utf8_run s bs = Some t \<Longrightarrow> utf8_due t"
  by (induction s bs rule: utf8_run.induct) (auto simp: outcome_simps dest: utf8_step_due)

lemma utf8_run_append: "utf8_run s (as @ bs) = Option.bind (utf8_run s as) (\<lambda>t. utf8_run t bs)"
  by (induction s as rule: utf8_run.induct) (auto split: Option.bind_split)

lemma utf8_step_zero: "utf8_due s \<Longrightarrow> utf8_step s 0 = Some t \<Longrightarrow> s = Due 0"
  by (induction s "0 :: u8" rule: utf8_step.induct) (auto split: if_splits)

lemma utf8_valid_strip: "utf8_valid (cs @ [0]) \<Longrightarrow> utf8_valid cs"
proof -
  assume "utf8_valid (cs @ [0])"
  then obtain s where s: "utf8_run (Due 0) cs = Some s" "utf8_step s 0 = Some (Due 0)"
    by (auto simp: utf8_valid_def utf8_run_append outcome_simps)
  moreover have "utf8_due s" using utf8_run_due [OF _ s(1)] by simp
  ultimately show ?thesis using utf8_step_zero by (auto simp: utf8_valid_def)
qed

lemma utf8_valid_rstrip: "utf8_valid cs \<Longrightarrow> utf8_valid (rstrip cs)"
proof (induction cs rule: rev_induct)
  case (snoc b cs)
  then show ?case using utf8_valid_strip by (auto simp: rstrip_snoc)
qed (simp add: rstrip_def utf8_valid_def)

fun strip_data :: "PaymentPayloadData \<Rightarrow> PaymentPayloadData" where
  "strip_data (Comment cs) = Comment (rstrip cs)"
| "strip_data (ContentHash h) = ContentHash h"

fun valid_data :: "PaymentPayloadData \<Rightarrow> bool" where
  "valid_data (Comment cs) \<longleftrightarrow> utf8_valid cs \<and> length cs \<le> 882"
| "valid_data (ContentHash h) \<longleftrightarrow> True"

lemma valid_data_validate: "valid_data d \<Longrightarrow> validate_PaymentPayloadData d = Ok ()"
  by (cases d) auto

text \<open>Reading the fixed-size fields back from the written prefix.\<close>

lemma payload_fields:
  fixes c :: "('g, 'f) crypto" and rest :: bytes
  defines "buf \<equiv> \<lambda>p pk. payload_prefix c p pk @ rest"
  shows "slice 0 4 (buf p pk) = take 4 (be_bytes 32 pk)"
    and "of_be_bytes (slice 4 32 (buf p pk)) = scalar_bytes c (pl_gamma p)"
    and "of_be_bytes (slice 36 32 (buf p pk)) = scalar_bytes c (pl_delta p)"
    and "of_le_bytes (slice 68 8 (buf p pk)) = pl_amount p"
    and "of_be_bytes (slice 76 32 (buf p pk)) = scalar_bytes c (sig_u (pl_signature p))"
    and "of_be_bytes (slice 108 32 (buf p pk)) = sig_K (pl_signature p)"
    and "buf p pk ! 140 = discriminant (pl_data p)"
  by (simp_all add: buf_def payload_prefix_def slice_def nth_append)

lemma extract_encoded:
  assumes "scalar_laws c" "pt_to_bytes c pkey = Some pk" "valid_data (pl_data p)" "0 \<le>s pl_amount p"
    and "encode_payload c p pkey = Some buf"
  shows "length buf = 1024 \<and>
         extract_decrypted_info c h buf pkey = Ok (p\<lparr>pl_data := strip_data (pl_data p)\<rparr>)"
proof -
  let ?d = "data_bytes (pl_data p)" and ?z = "replicate (883 - length (data_bytes (pl_data p))) (0 :: u8)"
  have fit: "length ?d \<le> 882"
    using data_bytes_fit [OF valid_data_validate [OF assms(3)]] .
  have buf: "buf = payload_prefix c p pk @ ?d @ ?z"
    using encode_payload_eq [OF assms(2) valid_data_validate [OF assms(3)]] assms(5) by simp
  then have len: "length buf = 1024" using fit by simp
  have scalars: "from_canonical_bytes c (scalar_bytes c x) = Some x" for x
    using assms(1) by (simp add: scalar_laws_def)
  have amount: "\<not> pl_amount p <s 0" using assms(4) by (simp add: signed_simps)
  note fields = payload_fields [of c p pk "?d @ ?z", folded buf]
  show ?thesis
  proof (cases "pl_data p")
    case (Comment cs)
    have "comment_end buf 141 1024 = 141 + length (rstrip cs)"
      using comment_end_eq [of 141 1024 buf] len Comment buf
      by (simp add: slice_def rstrip_zeros)
    moreover have "slice 141 (length (rstrip cs)) buf = rstrip cs"
      using buf Comment rstrip_prefix [of "cs @ ?z"] rstrip_zeros [of cs]
      by (simp add: slice_def)
    ultimately show ?thesis
      using Comment assms(3) len amount utf8_valid_rstrip [of cs]
      by (simp add: extract_decrypted_info_def assms(2) fields scalars)
  next
    case (ContentHash hh)
    then have "of_be_bytes (slice 141 32 buf) = hh" "drop 173 buf = ?z"
      using buf by (simp_all add: slice_def)
    then show ?thesis
      using ContentHash len amount
      by (simp add: extract_decrypted_info_def assms(2) fields scalars)
  qed
qed

section \<open>Properties\<close>

text \<open>
  The documented behaviour of the range-proof crate: the commitment that comes with a proof
  is the Pedersen commitment to the value under the given blinding factor, and the proof
  verifies for it.
\<close>

definition bulletproof_laws :: "('g::ab_group_add, 'f::comm_ring_1) crypto \<Rightarrow> bool" where
  "bulletproof_laws c \<longleftrightarrow> (\<forall>v g.
     let cmt = compress c (smul c g (B_blinding c) + smul c (scalar_of_u64 c v) (B_base c))
     in snd (prove_single c v g) = cmt \<and> verify_single c (fst (prove_single c v g)) cmt)"

lemma sample_crypto_scalar: "scalar_laws sample_crypto"
  using sample_crypto_dalek
  by (simp add: scalar_laws_def dalek_laws_def sample_crypto_def)

lemma sample_crypto_bulletproof: "bulletproof_laws sample_crypto"
  by (simp add: bulletproof_laws_def sample_crypto_def Let_def)

lemma pkey_of_skey_bytes: "pt_to_bytes c (pkey_of_skey c s) = Some (compress c (smul c s (B_blinding c)))"
  by (simp add: pkey_of_skey_def)

lemma encrypt_payload_round:
  assumes "dalek_laws c" "scalar_laws c" "valid_data (pl_data p)" "0 \<le>s pl_amount p"
  shows "\<exists>ag payload rvalue.
           encrypt_payload c p (pkey_of_skey c skey) = Some (PtRaw ag, payload, rvalue)
         \<and> length payload = PAYMENT_PAYLOAD_LEN
         \<and> decrypt_payload c h (PtRaw ag) payload (pkey_of_skey c skey) skey =
             Ok (p\<lparr>pl_data := strip_data (pl_data p)\<rparr>)
         \<and> decrypt_with_rvalue c h payload rvalue (pkey_of_skey c skey) =
             Ok (p\<lparr>pl_data := strip_data (pl_data p)\<rparr>)"
proof -
  let ?pk = "pkey_of_skey c skey"
  obtain buf where buf: "encode_payload c p ?pk = Some buf"
    using encode_payload_eq [OF pkey_of_skey_bytes valid_data_validate [OF assms(3)]] by blast
  note dec = extract_encoded [OF assms(2) pkey_of_skey_bytes assms(3,4) buf, of h]
  obtain ag payload rvalue where enc: "aes_encrypt c buf ?pk = Some (PtRaw ag, payload, rvalue)"
    by (simp add: aes_encrypt_def pkey_of_skey_def hash_PublicKey_def hash_Pt_def Let_def)
  then have "length payload = length buf" "aes_decrypt c (PtRaw ag) payload skey = buf"
    "aes_decrypt_with_rvalue c payload rvalue ?pk = buf"
    using aes_round [OF assms(1), of buf skey] by auto
  then show ?thesis
    using buf enc dec
    by (simp add: encrypt_payload_def decrypt_payload_def decrypt_with_rvalue_def)
qed

text \<open>
  C24: The payload of a payment, serialized and encrypted for the recipient, is read back by
  the recipient and by the holder of the certificate value; every field is restored, and of
  a comment everything but its trailing zero bytes. No step panics.
\<close>

theorem payload_round_trip:
  assumes "dalek_laws c" "scalar_laws c" "valid_data (pl_data p)" "0 \<le>s pl_amount p"
  shows "\<exists>ag payload rvalue.
           encrypt_payload c p (pkey_of_skey c skey) = Some (ag, payload, rvalue)
         \<and> decrypt_payload c h ag payload (pkey_of_skey c skey) skey =
             Ok (p\<lparr>pl_data := strip_data (pl_data p)\<rparr>)
         \<and> decrypt_with_rvalue c h payload rvalue (pkey_of_skey c skey) =
             Ok (p\<lparr>pl_data := strip_data (pl_data p)\<rparr>)"
  using encrypt_payload_round [OF assms] by blast

theorem payload_round_trip_witness:
  "\<exists>ag payload rvalue.
     encrypt_payload sample_crypto (PaymentPayload_new sample_crypto 3 4 100 (Comment [0x68, 0x69]))
       (pkey_of_skey sample_crypto 7) = Some (ag, payload, rvalue)
     \<and> decrypt_payload sample_crypto 0 ag payload (pkey_of_skey sample_crypto 7) 7 =
         Ok (PaymentPayload_new sample_crypto 3 4 100 (Comment [0x68, 0x69]))
     \<and> decrypt_with_rvalue sample_crypto 0 payload rvalue (pkey_of_skey sample_crypto 7) =
         Ok (PaymentPayload_new sample_crypto 3 4 100 (Comment [0x68, 0x69]))"
  using payload_round_trip [OF sample_crypto_dalek sample_crypto_scalar,
      of "PaymentPayload_new sample_crypto 3 4 100 (Comment [0x68, 0x69])" 7 0]
  by (simp add: PaymentPayload_new_def utf8_valid_def signed_simps rstrip_def)

text \<open>
  C39: Whoever knows a public key can make its owner panic: a payload of the right length
  that starts with the canary of the key and whose gamma is not a canonical scalar is
  encrypted without complaint, and decrypting it ends in the \<open>expect("ok")\<close> of the reader.
\<close>

theorem payload_noncanonical_panics:
  assumes "dalek_laws c" "length buf = PAYMENT_PAYLOAD_LEN"
    and "take 4 buf = take 4 (be_bytes 32 (compress c (smul c skey (B_blinding c))))"
    and "from_canonical_bytes c (of_be_bytes (slice 4 32 buf)) = None"
  shows "\<exists>ag payload rvalue.
           aes_encrypt c buf (pkey_of_skey c skey) = Some (ag, payload, rvalue)
         \<and> decrypt_payload c h ag payload (pkey_of_skey c skey) skey = Panic"
proof -
  obtain ag payload rvalue where
    "aes_encrypt c buf (pkey_of_skey c skey) = Some (ag, payload, rvalue)"
    "length payload = length buf" "aes_decrypt c ag payload skey = buf"
    using aes_round [OF assms(1)] by blast
  then show ?thesis
    using assms(2-4)
    by (auto simp: decrypt_payload_def extract_decrypted_info_def pkey_of_skey_bytes slice_def)
qed

theorem payload_noncanonical_panics_witness:
  "\<exists>ag payload rvalue.
     aes_encrypt sample_crypto (be_bytes 32 (5 :: b32) @ replicate 992 1) (pkey_of_skey sample_crypto 1)
       = Some (ag, payload, rvalue)
     \<and> decrypt_payload sample_crypto 0 ag payload (pkey_of_skey sample_crypto 1) 1 = Panic"
proof (rule payload_noncanonical_panics [OF sample_crypto_dalek])
  show "take 4 (be_bytes 32 (5 :: b32) @ replicate 992 1) =
    take 4 (be_bytes 32 (compress sample_crypto (smul sample_crypto 1 (B_blinding sample_crypto))))"
    by (simp add: sample_crypto_def)
  have "slice 4 32 (be_bytes 32 (5 :: b32) @ replicate 992 1) = replicate 27 0 @ [5, 1, 1, 1, 1]"
    by code_simp
  moreover have "(of_be_bytes (replicate 27 0 @ [5, 1, 1, 1, 1 :: u8]) :: b32) = 0x501010101"
    by code_simp
  ultimately show "from_canonical_bytes sample_crypto
      (of_be_bytes (slice 4 32 (be_bytes 32 (5 :: b32) @ replicate 992 1))) = None"
    by (simp add: sample_crypto_def)
qed simp

lemma make_range_proof_eq:
  assumes "dalek_laws c" "bulletproof_laws c" "0 \<le>s amount"
  shows "\<exists>pf. make_range_proof c amount gamma = Some (pf, gamma)
           \<and> vcmt pf = compress c (smul c gamma (B_blinding c) + smul c (scalar_of_u64 c amount) (B_base c))
           \<and> validate_range_proof c pf"
proof -
  have "\<not> amount <s 0" using assms(3) by (simp add: signed_simps)
  moreover have "snd (prove_single c amount gamma) =
      compress c (smul c gamma (B_blinding c) + smul c (scalar_of_u64 c amount) (B_base c))"
    and "verify_single c (fst (prove_single c amount gamma))
      (compress c (smul c gamma (B_blinding c) + smul c (scalar_of_u64 c amount) (B_base c)))"
    using assms(2) by (simp_all add: bulletproof_laws_def Let_def)
  ultimately show ?thesis
    by (simp add: make_range_proof_def case_prod_unfold dalek_lawsD [OF assms(1)]
        validate_range_proof_def)
qed

lemma cloak_key_eq:
  "\<exists>delta. cloak_key c UNIQ rnd (pkey_of_skey c rkey) gamma =
     Some (PtRaw (smul c rkey (B_blinding c)
             + smul c (if gamma = 0 then delta else gamma * delta) (B_blinding c)), delta)"
  by (simp add: cloak_key_def pkey_of_skey_def hash_PublicKey_def hash_Pt_def pt_one_def Let_def)

text \<open>The payload that \<open>with_payload\<close> puts into an output.\<close>

definition made_payload ::
  "('g::zero, 'f::comm_ring_1) crypto \<Rightarrow> 'f option \<Rightarrow> 'f \<Rightarrow> 'f \<Rightarrow> i64 \<Rightarrow> PaymentPayloadData
     \<Rightarrow> 'f PaymentPayload" where
  "made_payload c sender delta gamma amount data = (case sender of
     Some key \<Rightarrow> new_with_signature c key delta gamma amount data
   | None \<Rightarrow> PaymentPayload_new c delta gamma amount data)"

lemma made_payload_fields [simp]:
  "pl_delta (made_payload c s d g a data) = d" "pl_gamma (made_payload c s d g a data) = g"
  "pl_amount (made_payload c s d g a data) = a" "pl_data (made_payload c s d g a data) = data"
  by (simp_all add: made_payload_def PaymentPayload_new_def new_with_signature_def Let_def
      split: option.split)

lemma with_payload_eq:
  assumes laws: "dalek_laws c" "scalar_laws c" "bulletproof_laws c"
    and data: "valid_data data" "strip_data data = data" and "0 \<le>s amount"
    and pk: "pk = pkey_of_skey c rkey"
  shows "\<exists>o' rvalue delta. with_payload c UNIQ rnd gamma sender pk amount data = Some (o', gamma, rvalue)
           \<and> vcmt (po_proof o') = compress c (smul c gamma (B_blinding c)
                                   + smul c (scalar_of_u64 c amount) (B_base c))
           \<and> validate_PaymentOutput c o' = Ok ()
           \<and> decompress c (po_recipient o') = Some (smul c rkey (B_blinding c)
               + smul c (if gamma = 0 then delta else gamma * delta) (B_blinding c))
           \<and> output_decrypt_payload c o' pk rkey = Ok (made_payload c sender delta gamma amount data)
           \<and> decrypt_with_rvalue c (digest c (hash_PaymentOutput o')) (po_payload o') rvalue pk =
               Ok (made_payload c sender delta gamma amount data)"
proof -
  obtain pf where pf: "make_range_proof c amount gamma = Some (pf, gamma)"
    "vcmt pf = compress c (smul c gamma (B_blinding c) + smul c (scalar_of_u64 c amount) (B_base c))"
    "validate_range_proof c pf"
    using make_range_proof_eq [OF laws(1,3) assms(6)] by blast
  obtain delta where cl: "cloak_key c UNIQ rnd pk gamma =
     Some (PtRaw (smul c rkey (B_blinding c)
             + smul c (if gamma = 0 then delta else gamma * delta) (B_blinding c)), delta)"
    using cloak_key_eq pk by blast
  let ?p = "made_payload c sender delta gamma amount data"
  have p: "valid_data (pl_data ?p)" "0 \<le>s pl_amount ?p" "?p\<lparr>pl_data := strip_data (pl_data ?p)\<rparr> = ?p"
    using data assms(6) by simp_all
  have "\<exists>ag payload rvalue.
           encrypt_payload c ?p pk = Some (PtRaw ag, payload, rvalue)
         \<and> length payload = PAYMENT_PAYLOAD_LEN
         \<and> (\<forall>h. decrypt_payload c h (PtRaw ag) payload pk rkey = Ok ?p)
         \<and> (\<forall>h. decrypt_with_rvalue c h payload rvalue pk = Ok ?p)"
    using encrypt_payload_round [OF laws(1,2) p(1,2), of rkey, unfolded p(3), folded pk]
    by (metis option.inject prod.inject Pt.inject(1))
  then obtain ag payload rvalue where enc:
    "encrypt_payload c ?p pk = Some (PtRaw ag, payload, rvalue)" "length payload = PAYMENT_PAYLOAD_LEN"
    "\<And>h. decrypt_payload c h (PtRaw ag) payload pk rkey = Ok ?p"
    "\<And>h. decrypt_with_rvalue c h payload rvalue pk = Ok ?p" by blast
  have cmpr: "decrypt_payload c h (PtCmpr (compress c ag)) payload pk rkey = Ok ?p" for h
    using enc(2) enc(3) [of h] dalek_lawsD(1) [OF laws(1), of ag]
    by (simp add: decrypt_payload_def aes_decrypt_def)
  let ?o = "\<lparr>po_recipient = compress c (smul c rkey (B_blinding c)
               + smul c (if gamma = 0 then delta else gamma * delta) (B_blinding c)),
             po_proof = pf, po_ag = compress c ag, po_payload = payload\<rparr>"
  have "with_payload c UNIQ rnd gamma sender pk amount data = Some (?o, gamma, rvalue)"
    using pf(1) cl enc(1) by (simp add: with_payload_def made_payload_def Let_def)
  then show ?thesis
    using pf(2,3) enc(2,4) cmpr dalek_lawsD(1) [OF laws(1)]
    by (intro exI [of _ ?o] exI [of _ rvalue] exI [of _ delta])
      (simp add: validate_PaymentOutput_def output_decrypt_payload_def)
qed

text \<open>
  C25: A payment output made for a recipient and signed by a sender is valid, commits to the
  amount, is decrypted by the recipient to that amount, and its certificate is accepted: with
  the random value of the sender, \<open>validate_certificate\<close> confirms the amount for the sender's
  public key. (A comment must not end in a zero byte, see C1.)
\<close>

theorem payment_certificate:
  assumes "dalek_laws c" "scalar_laws c" "bulletproof_laws c"
    and "valid_data data" "strip_data data = data" "0 \<le>s amount"
  shows "\<exists>o' rvalue p.
           with_payload c UNIQ rnd gamma (Some skey) (pkey_of_skey c rkey) amount data = Some (o', gamma, rvalue)
         \<and> validate_Output c (PaymentOutput o') = Ok ()
         \<and> (\<exists>cmt. pedersen_commitment c (PaymentOutput o') = Some cmt
              \<and> pt_eq c cmt (simple_commit c gamma (scalar_of_u64 c amount)))
         \<and> output_decrypt_payload c o' (pkey_of_skey c rkey) rkey = Ok p \<and> pl_amount p = amount
         \<and> validate_certificate c o' (pkey_of_skey c skey) (pkey_of_skey c rkey) rvalue = Ok amount"
proof -
  obtain o' rvalue delta where o': 
    "with_payload c UNIQ rnd gamma (Some skey) (pkey_of_skey c rkey) amount data = Some (o', gamma, rvalue)"
    "vcmt (po_proof o') = compress c (smul c gamma (B_blinding c)
        + smul c (scalar_of_u64 c amount) (B_base c))"
    "validate_PaymentOutput c o' = Ok ()"
    "output_decrypt_payload c o' (pkey_of_skey c rkey) rkey = Ok (made_payload c (Some skey) delta gamma amount data)"
    "decrypt_with_rvalue c (digest c (hash_PaymentOutput o')) (po_payload o') rvalue (pkey_of_skey c rkey) =
       Ok (made_payload c (Some skey) delta gamma amount data)"
    using with_payload_eq [OF assms refl] by blast
  let ?p = "made_payload c (Some skey) delta gamma amount data"
  have "pl_signature ?p = sign_hash c (digest c (hash_PaymentPayload c ?p)) skey"
    by (simp add: made_payload_def new_with_signature_def PaymentPayload_new_def
        hash_PaymentPayload_def Let_def)
  then have "validate_certificate c o' (pkey_of_skey c skey) (pkey_of_skey c rkey) rvalue = Ok amount"
    using o'(5) validate_sign_hash [OF assms(1)] by (simp add: validate_certificate_def)
  moreover have "pt_eq c (PtCmpr (vcmt (po_proof o'))) (simple_commit c gamma (scalar_of_u64 c amount))"
    by (simp add: o'(2) pt_simps dalek_lawsD [OF assms(1)])
  ultimately show ?thesis
    using o'(1,3,4) by auto
qed

theorem payment_certificate_witness:
  "\<exists>o' rvalue p.
     with_payload sample_crypto [] 1 2 (Some 3) (pkey_of_skey sample_crypto 4) 100 (ContentHash 5)
       = Some (o', 2, rvalue)
     \<and> validate_Output sample_crypto (PaymentOutput o') = Ok ()
     \<and> (\<exists>cmt. pedersen_commitment sample_crypto (PaymentOutput o') = Some cmt
          \<and> pt_eq sample_crypto cmt (simple_commit sample_crypto 2 (scalar_of_u64 sample_crypto 100)))
     \<and> output_decrypt_payload sample_crypto o' (pkey_of_skey sample_crypto 4) 4 = Ok p \<and> pl_amount p = 100
     \<and> validate_certificate sample_crypto o' (pkey_of_skey sample_crypto 3) (pkey_of_skey sample_crypto 4)
         rvalue = Ok 100"
  by (rule payment_certificate [OF sample_crypto_dalek sample_crypto_scalar sample_crypto_bulletproof])
    (simp_all add: signed_simps)

end
