(* ===== verification/Escrow.thy ===== *)
theory Escrow
  imports Payload Mvcc
begin

text \<open>
  The stakes of the validators, \<open>blockchain/src/escrow.rs\<close>: a multi-versioned map from
  (validator key, output hash) to the stake. The theory proves the balance accounting (the
  range scan of one validator agrees with the scan of the whole map), that an accepted
  transaction leaves the locked stake in place, and meets the roll-back contract
  \<open>undo_log\<close> of the versioned map.
\<close>

section \<open>Sequence numbers and keys\<close>

text \<open>
  The pair of an epoch and an offset, compared lexicographically (\<open>blockchain.rs\<close>). The
  keys of the escrow are pairs in the lexicographic order as well.
\<close>

datatype LSN = LSN (lsn_epoch: u64) (lsn_offset: u32)

definition INITIAL_LSN :: LSN where
  "INITIAL_LSN = LSN 0 0"

definition MACRO_BLOCK_OFFSET :: u32 where
  "MACRO_BLOCK_OFFSET = - 1"

instantiation LSN :: linorder
begin

definition less_eq_LSN :: "LSN \<Rightarrow> LSN \<Rightarrow> bool" where
  "less_eq_LSN a b \<longleftrightarrow>
     lsn_epoch a < lsn_epoch b \<or> lsn_epoch a = lsn_epoch b \<and> lsn_offset a \<le> lsn_offset b"

definition less_LSN :: "LSN \<Rightarrow> LSN \<Rightarrow> bool" where
  "less_LSN a b \<longleftrightarrow>
     lsn_epoch a < lsn_epoch b \<or> lsn_epoch a = lsn_epoch b \<and> lsn_offset a < lsn_offset b"

instance
  by standard (auto simp: less_eq_LSN_def less_LSN_def intro: LSN.expand)

end

datatype EscrowKey = EscrowKey (validator_pkey: pbc_pkey) (output_hash: hash)

instantiation EscrowKey :: linorder
begin

definition less_eq_EscrowKey :: "EscrowKey \<Rightarrow> EscrowKey \<Rightarrow> bool" where
  "less_eq_EscrowKey a b \<longleftrightarrow>
     validator_pkey a < validator_pkey b \<or>
     validator_pkey a = validator_pkey b \<and> output_hash a \<le> output_hash b"

definition less_EscrowKey :: "EscrowKey \<Rightarrow> EscrowKey \<Rightarrow> bool" where
  "less_EscrowKey a b \<longleftrightarrow>
     validator_pkey a < validator_pkey b \<or>
     validator_pkey a = validator_pkey b \<and> output_hash a < output_hash b"

instance
  by standard (auto simp: less_eq_EscrowKey_def less_EscrowKey_def intro: EscrowKey.expand)

end

section \<open>Data\<close>

record EscrowValue =
  ev_account_pkey :: b32
  active_until_epoch :: u64
  ev_amount :: i64

text \<open>The \<open>Escrow\<close> structure has this map as its only field.\<close>

type_synonym Escrow = "(EscrowKey, EscrowValue, LSN) MultiVersionedMap"

record StakeInfo =
  si_output_hash :: hash
  si_account_pkey :: b32
  si_active_until_epoch :: "u64 option"
  is_active :: "bool option"
  si_amount :: i64

record ValidatorInfo =
  network_pkey :: pbc_pkey
  active_stake :: i64
  expired_stake :: i64
  stakes :: "StakeInfo list"

section \<open>Operations\<close>

definition escrow_new :: Escrow where
  "escrow_new = mv_new INITIAL_LSN"

text \<open>\<open>None\<close> is a panic: a stake that exists already, or a decreasing sequence number.\<close>

definition stake ::
  "LSN \<Rightarrow> pbc_pkey \<Rightarrow> b32 \<Rightarrow> hash \<Rightarrow> u64 \<Rightarrow> u64 \<Rightarrow> i64 \<Rightarrow> Escrow \<Rightarrow> Escrow option" where
  "stake lsn vpkey account_pkey ohash epoch stakes_epoch amount e =
     (let active_until = epoch + stakes_epoch;
          key = EscrowKey vpkey ohash;
          val = \<lparr>ev_account_pkey = account_pkey, active_until_epoch = active_until,
                 ev_amount = amount\<rparr>
      in case mv_insert lsn key val e of
           Some (None, e') \<Rightarrow> Some e'
         | _ \<Rightarrow> None)"

definition unstake :: "LSN \<Rightarrow> pbc_pkey \<Rightarrow> hash \<Rightarrow> Escrow \<Rightarrow> Escrow option" where
  "unstake lsn vpkey ohash e =
     (case mv_remove lsn (EscrowKey vpkey ohash) e of
        Some (Some _, e') \<Rightarrow> Some e'
      | _ \<Rightarrow> None)"

text \<open>The range scan between the smallest and the largest hash of the validator.\<close>

definition iter_validator_stakes :: "pbc_pkey \<Rightarrow> Escrow \<Rightarrow> (hash \<times> i64 \<times> b32 \<times> u64) list" where
  "iter_validator_stakes vpkey e =
     (let (hash_min, hash_max) = (0, - 1);
          key_min = EscrowKey vpkey hash_min;
          key_max = EscrowKey vpkey hash_max
      in map (\<lambda>(k, v). (output_hash k, ev_amount v, ev_account_pkey v, active_until_epoch v))
           (mv_range key_min key_max e))"

definition validator_balance :: "pbc_pkey \<Rightarrow> u64 \<Rightarrow> Escrow \<Rightarrow> i64 \<times> i64" where
  "validator_balance vpkey epoch e =
     fold (\<lambda>(_, amount, _, until) (active_balance, expired_balance).
             if until \<ge> epoch then (active_balance + amount, expired_balance)
             else (active_balance, expired_balance + amount))
       (iter_validator_stakes vpkey e) (0, 0)"

definition account_by_network_key :: "pbc_pkey \<Rightarrow> Escrow \<Rightarrow> b32 option" where
  "account_by_network_key vpkey e =
     (case iter_validator_stakes vpkey e of
        [] \<Rightarrow> None
      | (_, _, account_pkey, _) # _ \<Rightarrow> Some account_pkey)"

definition staker_step ::
  "u64 \<Rightarrow> EscrowKey \<times> EscrowValue \<Rightarrow> (pbc_pkey, i64) btree \<Rightarrow> (pbc_pkey, i64) btree" where
  "staker_step epoch kv result =
     (if active_until_epoch (snd kv) < epoch then result
      else bt_entry (validator_pkey (fst kv)) 0 (\<lambda>x. x + ev_amount (snd kv)) result)"

definition get_stakers :: "u64 \<Rightarrow> Escrow \<Rightarrow> (pbc_pkey, i64) btree" where
  "get_stakers epoch e = fold (staker_step epoch) (mv_iter e) []"

definition get_stakers_majority :: "u64 \<Rightarrow> i64 \<Rightarrow> Escrow \<Rightarrow> (pbc_pkey \<times> i64) list" where
  "get_stakers_majority epoch min_stake_amount e =
     filter (\<lambda>(_, amount). min_stake_amount \<le>s amount)
       (fold (staker_step epoch) (mv_iter e) [])"

text \<open>
  \<open>validate_stakes\<close>, in its three loops. The balances are kept in a \<open>HashMap\<close>; the model
  walks it in the order of the keys, which decides only which of several locked stakes is
  reported.
\<close>

fun stake_inputs :: "Output list \<Rightarrow> (pbc_pkey, i64) btree \<Rightarrow> (pbc_pkey, i64) btree" where
  "stake_inputs [] b = b"
| "stake_inputs (StakeOutput o' # ins) b =
     stake_inputs ins (bt_entry (so_validator o') 0 (\<lambda>x. x - so_amount o') b)"
| "stake_inputs (PaymentOutput _ # ins) b = stake_inputs ins b"
| "stake_inputs (PublicPaymentOutput _ # ins) b = stake_inputs ins b"

fun stake_outputs ::
  "('g, 'f) crypto \<Rightarrow> Escrow \<Rightarrow> Output list \<Rightarrow> (pbc_pkey, i64) btree \<Rightarrow>
     (BlockchainError, (pbc_pkey, i64) btree) outcome" where
  "stake_outputs c e [] b = Ok b"
| "stake_outputs c e (StakeOutput o' # outs) b =
     (case account_by_network_key (so_validator o') e of
        Some account_pkey \<Rightarrow>
          if \<not> pt_eq c (PtCmpr account_pkey) (PtCmpr (so_recipient o'))
          then Err (StakeOutputWithDifferentAccountKey account_pkey (so_recipient o')
                      (digest c (hash_Output (StakeOutput o'))))
          else stake_outputs c e outs (bt_entry (so_validator o') 0 (\<lambda>x. x + so_amount o') b)
      | None \<Rightarrow> stake_outputs c e outs (bt_entry (so_validator o') 0 (\<lambda>x. x + so_amount o') b))"
| "stake_outputs c e (PaymentOutput _ # outs) b = stake_outputs c e outs b"
| "stake_outputs c e (PublicPaymentOutput _ # outs) b = stake_outputs c e outs b"

fun check_locked :: "Escrow \<Rightarrow> u64 \<Rightarrow> (pbc_pkey, i64) btree \<Rightarrow> (BlockchainError, unit) outcome" where
  "check_locked e epoch [] = Ok ()"
| "check_locked e epoch ((vpkey, balance) # b) =
     (let (active_balance, expired_balance) = validator_balance vpkey epoch e;
          expected_balance = active_balance + expired_balance + balance
      in if expected_balance <s active_balance
         then Err (StakeIsLocked vpkey expected_balance active_balance)
         else check_locked e epoch b)"

definition validate_stakes ::
  "('g, 'f) crypto \<Rightarrow> Output list \<Rightarrow> Output list \<Rightarrow> u64 \<Rightarrow> Escrow \<Rightarrow>
     (BlockchainError, unit) outcome" where
  "validate_stakes c inputs outputs epoch e =
     obind (stake_outputs c e outputs (stake_inputs inputs [])) (check_locked e epoch)"

text \<open>
  \<open>info\<close>: the validators are collected in a \<open>HashMap\<close> (walked here in the order of the
  keys) and sorted by decreasing active stake with a stable sort.
\<close>

definition info_step ::
  "u64 \<Rightarrow> EscrowKey \<times> EscrowValue \<Rightarrow> (pbc_pkey, ValidatorInfo) btree \<Rightarrow>
     (pbc_pkey, ValidatorInfo) btree" where
  "info_step epoch kv validators =
     (let (k, v) = kv;
          act = active_until_epoch v \<ge> epoch;
          st = \<lparr>si_output_hash = output_hash k, si_account_pkey = ev_account_pkey v,
                si_active_until_epoch = Some (active_until_epoch v), is_active = Some act,
                si_amount = ev_amount v\<rparr>
      in bt_entry (validator_pkey k)
           \<lparr>network_pkey = validator_pkey k, active_stake = 0, expired_stake = 0, stakes = []\<rparr>
           (\<lambda>entry. let entry = entry\<lparr>stakes := stakes entry @ [st]\<rparr>
              in if act then entry\<lparr>active_stake := active_stake entry + ev_amount v\<rparr>
                 else entry\<lparr>expired_stake := expired_stake entry + ev_amount v\<rparr>)
           validators)"

definition escrow_info :: "u64 \<Rightarrow> Escrow \<Rightarrow> ValidatorInfo list" where
  "escrow_info epoch e =
     sort_key (\<lambda>x. sint (- active_stake x)) (map snd (fold (info_step epoch) (mv_iter e) []))"

definition escrow_current_lsn :: "Escrow \<Rightarrow> LSN" where
  "escrow_current_lsn e = current_lsn e"

definition escrow_checkpoint :: "Escrow \<Rightarrow> (EscrowKey, EscrowValue option) btree \<times> Escrow" where
  "escrow_checkpoint e = checkpoint e"

definition escrow_rollback_to_lsn :: "LSN \<Rightarrow> Escrow \<Rightarrow> Escrow option" where
  "escrow_rollback_to_lsn to_lsn e = rollback_to_lsn to_lsn e"

section \<open>Effect of a transaction on the escrow\<close>

text \<open>
  The part of \<open>register_inputs_and_outputs\<close> (\<open>blockchain.rs\<close>) that moves stakes: a spent
  stake output is removed, a created one is added, with the assertions on the sequence
  number that follow.
\<close>

fun escrow_input :: "LSN \<Rightarrow> hash \<times> Output \<Rightarrow> Escrow \<Rightarrow> Escrow option" where
  "escrow_input lsn (input_hash, StakeOutput o') e =
     Option.bind (unstake lsn (so_validator o') input_hash e)
       (\<lambda>e'. if escrow_current_lsn e' = lsn then Some e' else None)"
| "escrow_input lsn (input_hash, PaymentOutput _) e = Some e"
| "escrow_input lsn (input_hash, PublicPaymentOutput _) e = Some e"

fun escrow_output :: "LSN \<Rightarrow> u64 \<Rightarrow> u64 \<Rightarrow> hash \<times> Output \<Rightarrow> Escrow \<Rightarrow> Escrow option" where
  "escrow_output lsn epoch stake_epochs (ohash, StakeOutput o') e =
     Option.bind (stake lsn (so_validator o') (so_recipient o') ohash epoch stake_epochs
                    (so_amount o') e)
       (\<lambda>e'. if escrow_current_lsn e' = lsn then Some e' else None)"
| "escrow_output lsn epoch stake_epochs (ohash, PaymentOutput _) e = Some e"
| "escrow_output lsn epoch stake_epochs (ohash, PublicPaymentOutput _) e = Some e"

definition escrow_apply ::
  "LSN \<Rightarrow> u64 \<Rightarrow> u64 \<Rightarrow> (hash \<times> Output) list \<Rightarrow> (hash \<times> Output) list \<Rightarrow> Escrow \<Rightarrow>
     Escrow option" where
  "escrow_apply lsn epoch stake_epochs inputs outputs e =
     Option.bind (fold_option (escrow_input lsn) inputs e)
       (fold_option (escrow_output lsn epoch stake_epochs) outputs)"

section \<open>Balances\<close>

text \<open>The stakes of one validator, and their sum whether expired or not.\<close>

definition stakes_of :: "pbc_pkey \<Rightarrow> (EscrowKey, EscrowValue) btree \<Rightarrow> EscrowValue list" where
  "stakes_of v m = map snd (filter (\<lambda>kv. validator_pkey (fst kv) = v) m)"

definition total_stake :: "pbc_pkey \<Rightarrow> Escrow \<Rightarrow> i64" where
  "total_stake v e = sum_list (map ev_amount (stakes_of v (mv_map e)))"

lemma key_range:
  "EscrowKey v 0 \<le> k \<and> k \<le> EscrowKey v (- 1) \<longleftrightarrow> validator_pkey k = v"
  by (auto simp: less_eq_EscrowKey_def)

lemma iter_validator_stakes_eq:
  "iter_validator_stakes v e =
     map (\<lambda>(k, x). (output_hash k, ev_amount x, ev_account_pkey x, active_until_epoch x))
       (filter (\<lambda>kv. validator_pkey (fst kv) = v) (mv_map e))"
  by (simp add: iter_validator_stakes_def mv_range_def bt_range_def key_range case_prod_unfold)

lemma fold_two_sums:
  "fold (\<lambda>x (a, b). if P x then (a + f x, b) else (a, b + f x)) xs (a, b) =
     (a + sum_list (map f (filter P xs)), b + sum_list (map f (filter (\<lambda>x. \<not> P x) xs)))"
  for a b :: "'a::comm_monoid_add"
  by (induction xs arbitrary: a b) (simp_all add: add.assoc)

lemma validator_balance_eq:
  "validator_balance v epoch e =
     (sum_list (map ev_amount (filter (\<lambda>x. epoch \<le> active_until_epoch x) (stakes_of v (mv_map e)))),
      sum_list (map ev_amount (filter (\<lambda>x. \<not> epoch \<le> active_until_epoch x) (stakes_of v (mv_map e)))))"
proof -
  have "validator_balance v epoch e =
    fold (\<lambda>x (a, b). if epoch \<le> active_until_epoch x then (a + ev_amount x, b) else (a, b + ev_amount x))
      (stakes_of v (mv_map e)) (0, 0)"
    by (simp add: validator_balance_def iter_validator_stakes_eq stakes_of_def fold_map o_def
        case_prod_unfold cong: if_cong)
  then show ?thesis by (simp add: fold_two_sums)
qed

lemma validator_balance_total:
  "fst (validator_balance v epoch e) + snd (validator_balance v epoch e) = total_stake v e"
  by (simp add: validator_balance_eq total_stake_def sum_list_filter_split)

lemma fold_staker_step:
  "bt_get (fold (staker_step epoch) m b) v =
     (let xs = filter (\<lambda>x. epoch \<le> active_until_epoch x) (stakes_of v m) in
      if xs = [] then bt_get b v
      else Some ((case bt_get b v of None \<Rightarrow> 0 | Some y \<Rightarrow> y) + sum_list (map ev_amount xs)))"
proof (induction m arbitrary: b)
  case (Cons kv m)
  then show ?case
    by (auto simp: staker_step_def stakes_of_def bt_get_entry Let_def add.assoc split: option.splits)
qed (simp add: stakes_of_def)

lemma fold_staker_inv: "bt_inv b \<Longrightarrow> bt_inv (fold (staker_step epoch) m b)"
  by (induction m arbitrary: b) (auto simp: staker_step_def)

lemma map_of_filter_inv:
  assumes "bt_inv m"
  shows "(k, v) \<in> set (filter P m) \<longleftrightarrow> bt_get m k = Some v \<and> P (k, v)"
  using assms bt_inv_distinct [OF assms] by (auto dest: map_of_SomeD)

lemma bt_inv_filter: "bt_inv m \<Longrightarrow> bt_inv (filter P m)"
  by (induction m) auto


text \<open>Adding a new stake and removing an existing one, seen by the total.\<close>

lemma sum_put_fresh:
  "bt_get m k = None \<Longrightarrow>
   sum_list (map ev_amount (stakes_of v (bt_put k x m))) =
     sum_list (map ev_amount (stakes_of v m)) + (if validator_pkey k = v then ev_amount x else 0)"
  by (induction k x m rule: bt_put.induct) (auto simp: stakes_of_def algebra_simps split: if_splits)

lemma sum_del_present:
  "bt_get m k = Some x \<Longrightarrow>
   sum_list (map ev_amount (stakes_of v (bt_del k m))) =
     sum_list (map ev_amount (stakes_of v m)) - (if validator_pkey k = v then ev_amount x else 0)"
  by (induction k m rule: bt_del.induct) (auto simp: stakes_of_def algebra_simps split: if_splits)

lemma unstake_SomeD:
  assumes "unstake lsn v h e = Some e'"
  obtains x where "bt_get (mv_map e) (EscrowKey v h) = Some x"
    "mv_map e' = bt_del (EscrowKey v h) (mv_map e)"
  using assms
  by (auto simp: unstake_def mv_remove_def bt_remove_def Let_def split: option.splits if_splits)

lemma stake_SomeD:
  assumes "stake lsn v a h epoch k amount e = Some e'"
  shows "bt_get (mv_map e) (EscrowKey v h) = None"
    "mv_map e' = bt_put (EscrowKey v h)
       \<lparr>ev_account_pkey = a, active_until_epoch = epoch + k, ev_amount = amount\<rparr> (mv_map e)"
  using assms
  by (auto simp: stake_def mv_insert_def bt_insert_def Let_def split: option.splits if_splits)

text \<open>The stake of \<open>v\<close> in a list of outputs, and the outputs whose stake the escrow holds.\<close>

fun stake_amount :: "pbc_pkey \<Rightarrow> Output \<Rightarrow> i64" where
  "stake_amount v (StakeOutput o') = (if so_validator o' = v then so_amount o' else 0)"
| "stake_amount v _ = 0"

fun stakes_for :: "pbc_pkey \<Rightarrow> Output \<Rightarrow> bool" where
  "stakes_for v (StakeOutput o') \<longleftrightarrow> so_validator o' = v"
| "stakes_for v _ \<longleftrightarrow> False"

fun escrow_holds :: "Escrow \<Rightarrow> hash \<times> Output \<Rightarrow> bool" where
  "escrow_holds e (h, StakeOutput o') \<longleftrightarrow>
     (case mv_get e (EscrowKey (so_validator o') h) of
        Some x \<Rightarrow> ev_amount x = so_amount o' | None \<Rightarrow> False)"
| "escrow_holds e _ \<longleftrightarrow> True"

lemma escrow_input_total:
  assumes "escrow_input lsn (h, i) e = Some e'" "escrow_holds e (h, i)"
  shows "total_stake v e' = total_stake v e - stake_amount v i"
proof (cases i)
  case (StakeOutput o')
  with assms(1) have "unstake lsn (so_validator o') h e = Some e'"
    by (auto simp: outcome_simps split: if_splits)
  then obtain x where "bt_get (mv_map e) (EscrowKey (so_validator o') h) = Some x"
      "mv_map e' = bt_del (EscrowKey (so_validator o') h) (mv_map e)"
    by (rule unstake_SomeD)
  with assms(2) StakeOutput show ?thesis by (simp add: total_stake_def sum_del_present mv_get_def)
qed (use assms in auto)

lemma escrow_input_keeps:
  assumes "escrow_input lsn (h, i) e = Some e'" "escrow_holds e (h', j)" "h' \<noteq> h" "bt_inv (mv_map e)"
  shows "escrow_holds e' (h', j) \<and> bt_inv (mv_map e')"
proof (cases i)
  case (StakeOutput o')
  with assms(1) have "unstake lsn (so_validator o') h e = Some e'"
    by (auto simp: outcome_simps split: if_splits)
  then have "mv_map e' = bt_del (EscrowKey (so_validator o') h) (mv_map e)"
    by (rule unstake_SomeD)
  with assms(2-4) show ?thesis by (cases j) (auto simp: mv_get_def)
qed (use assms in auto)

lemma escrow_inputs_total:
  assumes "fold_option (escrow_input lsn) ins e = Some e'" "\<forall>i \<in> set ins. escrow_holds e i"
    "distinct (map fst ins)" "bt_inv (mv_map e)"
  shows "total_stake v e' = total_stake v e - sum_list (map (stake_amount v \<circ> snd) ins)"
  using assms
proof (induction ins arbitrary: e)
  case (Cons i ins)
  obtain h o' where i: "i = (h, o')" by (cases i)
  from Cons.prems(1) i obtain e1 where e1: "escrow_input lsn (h, o') e = Some e1"
      "fold_option (escrow_input lsn) ins e1 = Some e'"
    by (auto simp: outcome_simps)
  have keeps: "escrow_holds e1 j" if "j \<in> set ins" for j
    using that escrow_input_keeps [OF e1(1), of "fst j" "snd j"] Cons.prems i by force
  have "bt_inv (mv_map e1)"
    using escrow_input_keeps [OF e1(1), of "h + 1" "PublicPaymentOutput undefined"] Cons.prems by simp
  then have "total_stake v e' = total_stake v e1 - sum_list (map (stake_amount v \<circ> snd) ins)"
    using keeps Cons.prems by (intro Cons.IH [OF e1(2)]) auto
  with escrow_input_total [OF e1(1), of v] Cons.prems(2) i show ?case by (simp add: comp_def)
qed simp

lemma escrow_output_total:
  assumes "escrow_output lsn epoch k (h, i) e = Some e'"
  shows "total_stake v e' = total_stake v e + stake_amount v i"
proof (cases i)
  case (StakeOutput o')
  with assms have "stake lsn (so_validator o') (so_recipient o') h epoch k (so_amount o') e = Some e'"
    by (auto simp: outcome_simps split: if_splits)
  with StakeOutput show ?thesis by (simp add: stake_SomeD total_stake_def sum_put_fresh)
qed (use assms in auto)

lemma escrow_outputs_total:
  "fold_option (escrow_output lsn epoch k) outs e = Some e' \<Longrightarrow>
   total_stake v e' = total_stake v e + sum_list (map (stake_amount v \<circ> snd) outs)"
proof (induction outs arbitrary: e)
  case (Cons i outs)
  then show ?case
    by (cases i) (auto simp: outcome_simps escrow_output_total add.assoc)
qed simp

lemma sum_stake_none:
  "\<forall>i \<in> set xs. \<not> stakes_for v i \<Longrightarrow> sum_list (map (stake_amount v) xs) = 0"
proof (induction xs)
  case (Cons i xs)
  then show ?case by (cases i) auto
qed simp

lemma stake_inputs_get:
  "bt_inv b \<Longrightarrow> bt_inv (stake_inputs ins b) \<and>
   bt_get (stake_inputs ins b) v =
     (if \<exists>i \<in> set ins. stakes_for v i
      then Some ((case bt_get b v of None \<Rightarrow> 0 | Some x \<Rightarrow> x) - sum_list (map (stake_amount v) ins))
      else bt_get b v)"
  by (induction ins b rule: stake_inputs.induct)
     (auto simp: bt_get_entry sum_stake_none algebra_simps split: option.splits)

lemma stake_outputs_get:
  "stake_outputs c e outs b = Ok b' \<Longrightarrow> bt_inv b \<Longrightarrow> bt_inv b' \<and>
   bt_get b' v =
     (if \<exists>i \<in> set outs. stakes_for v i
      then Some ((case bt_get b v of None \<Rightarrow> 0 | Some x \<Rightarrow> x) + sum_list (map (stake_amount v) outs))
      else bt_get b v)"
  by (induction c e outs b rule: stake_outputs.induct)
     (auto simp: bt_get_entry sum_stake_none algebra_simps split: option.splits if_splits)

lemma check_locked_Ok:
  "check_locked e epoch b = Ok () \<Longrightarrow> (v, balance) \<in> set b \<Longrightarrow>
   \<not> total_stake v e + balance <s fst (validator_balance v epoch e)"
  by (induction b) (auto simp: case_prod_unfold Let_def validator_balance_total split: if_splits)

lemma validate_stakes_Ok:
  assumes "validate_stakes c ins outs epoch e = Ok ()" "\<exists>i \<in> set (ins @ outs). stakes_for v i"
  shows "\<not> total_stake v e - sum_list (map (stake_amount v) ins) + sum_list (map (stake_amount v) outs)
             <s fst (validator_balance v epoch e)"
proof -
  obtain b where b: "stake_outputs c e outs (stake_inputs ins []) = Ok b" "check_locked e epoch b = Ok ()"
    using assms(1) by (auto simp: validate_stakes_def outcome_simps)
  have "bt_get b v = Some (sum_list (map (stake_amount v) outs) - sum_list (map (stake_amount v) ins))"
    using stake_outputs_get [OF b(1), of v] stake_inputs_get [of "[]" ins v] assms(2)
    by (auto simp: sum_stake_none split: if_splits)
  from check_locked_Ok [OF b(2) map_of_SomeD [OF this]] show ?thesis
    by (simp add: algebra_simps)
qed


section \<open>Roll-back\<close>

text \<open>Stakes and releases are changes of the versioned map, so its contract carries over.\<close>

datatype EscrowOp = Stake pbc_pkey b32 hash u64 u64 i64 | Unstake pbc_pkey hash

fun escrow_step :: "LSN \<Rightarrow> EscrowOp \<Rightarrow> Escrow \<Rightarrow> Escrow option" where
  "escrow_step lsn (Stake v a h epoch k amount) e = stake lsn v a h epoch k amount e"
| "escrow_step lsn (Unstake v h) e = unstake lsn v h e"

lemma escrow_step_mv:
  "escrow_step lsn op e = Some e' \<Longrightarrow> \<exists>op'. mv_step lsn op' e = Some e'"
proof (cases op)
  case (Stake v a h epoch k amount)
  then show "escrow_step lsn op e = Some e' \<Longrightarrow> ?thesis"
    by (intro exI [of _ "OpInsert (EscrowKey v h)
          \<lparr>ev_account_pkey = a, active_until_epoch = epoch + k, ev_amount = amount\<rparr>"])
       (auto simp: stake_def mv_step.simps Let_def split: option.splits)
next
  case (Unstake v h)
  then show "escrow_step lsn op e = Some e' \<Longrightarrow> ?thesis"
    by (intro exI [of _ "OpRemove (EscrowKey v h)"])
       (auto simp: unstake_def mv_step.simps split: option.splits)
qed

interpretation esc: undo_log mv_inv escrow_current_lsn checkpoint_lsn escrow_step
  escrow_rollback_to_lsn
proof unfold_locales
  fix e e' :: Escrow and n l op
  show "mv_inv e'" "escrow_current_lsn e' \<le> n" "checkpoint_lsn e' = checkpoint_lsn e"
    if "mv_inv e" "escrow_step n op e = Some e'"
    using that escrow_step_mv [of n op e e'] mv.inv_step mv.lsn_step mv.base_step
    by (auto simp: escrow_current_lsn_def)
  show "escrow_rollback_to_lsn l e = Some e"
    if "mv_inv e" "checkpoint_lsn e \<le> l" "escrow_current_lsn e \<le> l"
    using that by (simp add: escrow_current_lsn_def escrow_rollback_to_lsn_def mv.rollback_stop)
  show "escrow_rollback_to_lsn l e' = escrow_rollback_to_lsn l e"
    if "mv_inv e" "checkpoint_lsn e \<le> l" "l < n" "escrow_step n op e = Some e'"
    using that escrow_step_mv [of n op e e'] mv.rollback_step
    by (auto simp: escrow_rollback_to_lsn_def)
qed

section \<open>Properties\<close>

text \<open>
  The stakers eligible for election are exactly the validators with an active stake whose
  active balance, as the scan of their own range computes it, reaches the minimum; they are
  listed in the order of their keys, each once.
\<close>

theorem stakers_majority_balance:
  "bt_inv (get_stakers_majority epoch min_stake e) \<and>
   ((v, amount) \<in> set (get_stakers_majority epoch min_stake e) \<longleftrightarrow>
      (\<exists>(h, a, p, until) \<in> set (iter_validator_stakes v e). epoch \<le> until) \<and>
      amount = fst (validator_balance v epoch e) \<and> min_stake \<le>s amount)"
proof -
  let ?m = "fold (staker_step epoch) (mv_iter e) []"
  have inv: "bt_inv ?m" by (simp add: fold_staker_inv)
  have "(\<exists>(h, a, p, until) \<in> set (iter_validator_stakes v e). epoch \<le> until) \<longleftrightarrow>
        filter (\<lambda>x. epoch \<le> active_until_epoch x) (stakes_of v (mv_map e)) \<noteq> []"
    by (force simp: iter_validator_stakes_eq stakes_of_def filter_empty_conv)
  moreover have "(v, amount) \<in> set (filter (\<lambda>(_, a). min_stake \<le>s a) ?m) \<longleftrightarrow>
      bt_get ?m v = Some amount \<and> min_stake \<le>s amount"
    by (subst map_of_filter_inv [OF inv]) simp
  ultimately show ?thesis
    using inv by (auto simp: get_stakers_majority_def bt_inv_filter fold_staker_step mv_iter_def
        validator_balance_eq Let_def)
qed

text \<open>
  C13: a transaction that \<open>validate_stakes\<close> accepts cannot spend locked stake: after its
  inputs are released and its outputs staked, the stake that remains for every validator it
  touches is at least the stake that was active before. The inputs are spent under distinct
  hashes and the escrow holds their amounts.
\<close>

theorem accepted_transaction_keeps_locked_stake:
  assumes "validate_stakes c (map snd ins) (map snd outs) epoch e = Ok ()"
    and "escrow_apply lsn epoch k ins outs e = Some e'"
    and "bt_inv (mv_map e)" "distinct (map fst ins)" "\<forall>i \<in> set ins. escrow_holds e i"
    and "\<exists>o' \<in> snd ` set (ins @ outs). stakes_for v o'"
  shows "fst (validator_balance v epoch e) \<le>s total_stake v e'"
proof -
  obtain e1 where "fold_option (escrow_input lsn) ins e = Some e1"
      "fold_option (escrow_output lsn epoch k) outs e1 = Some e'"
    using assms(2) by (auto simp: escrow_apply_def outcome_simps)
  then have "total_stake v e' = total_stake v e - sum_list (map (stake_amount v) (map snd ins))
               + sum_list (map (stake_amount v) (map snd outs))"
    using assms(3-5) by (simp add: escrow_inputs_total escrow_outputs_total comp_def)
  moreover have "\<exists>i \<in> set (map snd ins @ map snd outs). stakes_for v i" using assms(6) by auto
  ultimately show ?thesis
    using validate_stakes_Ok [OF assms(1)] by (simp add: signed_simps not_less)
qed


definition sample_escrow :: Escrow where
  "sample_escrow =
     \<lparr>mv_map = [(EscrowKey 7 1, \<lparr>ev_account_pkey = 5, active_until_epoch = 2, ev_amount = 10\<rparr>),
                (EscrowKey 7 2, \<lparr>ev_account_pkey = 5, active_until_epoch = 4, ev_amount = 10\<rparr>)],
      undo = [], ckpt_lsn = LSN 2 0\<rparr>"

definition sample_stake :: "b32 \<Rightarrow> Output" where
  "sample_stake recipient =
     StakeOutput \<lparr>so_recipient = recipient, so_validator = 7, so_amount = 10, so_serno = 0,
                  so_signature = 0\<rparr>"

lemmas sample_simps = sample_escrow_def sample_stake_def escrow_apply_def validate_stakes_def
  escrow_current_lsn_def total_stake_def stakes_of_def validator_balance_eq mv_get_def
  account_by_network_key_def iter_validator_stakes_eq bt_entry_def unstake_def stake_def
  mv_remove_def mv_insert_def bt_insert_def bt_remove_def current_lsn_def less_eq_LSN_def
  signed_simps Let_def

theorem accepted_transaction_keeps_locked_stake_witness:
  "validate_stakes sample_crypto [sample_stake 5] [] 3 sample_escrow = Ok () \<and>
   (\<exists>e'. escrow_apply (LSN 3 0) 3 2 [(1, sample_stake 5)] [] sample_escrow = Some e' \<and>
      fst (validator_balance 7 3 sample_escrow) \<le>s total_stake 7 e')"
proof -
  have ok: "validate_stakes sample_crypto (map snd [(1::hash, sample_stake 5)]) (map snd []) 3 sample_escrow
              = Ok ()"
    by (simp add: sample_simps)
  obtain e' where e': "escrow_apply (LSN 3 0) 3 2 [(1, sample_stake 5)] [] sample_escrow = Some e'"
    by (simp add: sample_simps)
  show ?thesis
    using ok e' accepted_transaction_keeps_locked_stake [OF ok e', of 7]
    by (auto simp: sample_escrow_def sample_stake_def mv_get_def less_EscrowKey_def)
qed



text \<open>
  Rolling the escrow back to a sequence number undoes every stake and every release made
  under a larger number and nothing else.
\<close>

theorem escrow_rollback_restores:
  assumes "mv_inv e" "run_ops escrow_step ops e = Some e'"
    and "checkpoint_lsn e \<le> lsn" "escrow_current_lsn e \<le> lsn" "\<forall>(n, _) \<in> set ops. lsn < n"
  shows "escrow_rollback_to_lsn lsn e' = Some e"
  using assms(2,1,3-5) by (rule esc.rollback_undoes)

theorem escrow_rollback_restores_witness:
  "\<exists>e'. run_ops escrow_step [(LSN 3 0, Unstake 7 1), (LSN 3 0, Stake 8 5 9 3 2 20)] sample_escrow = Some e' \<and>
        e' \<noteq> sample_escrow \<and> escrow_rollback_to_lsn (LSN 2 7) e' = Some sample_escrow"
proof -
  obtain e' where e': "run_ops escrow_step [(LSN 3 0, Unstake 7 1), (LSN 3 0, Stake 8 5 9 3 2 20)]
      sample_escrow = Some e'" "e' \<noteq> sample_escrow"
    by (simp add: sample_simps less_EscrowKey_def)
  have "mv_inv sample_escrow"
    by (simp add: mv_inv_def sample_escrow_def less_EscrowKey_def)
  from escrow_rollback_restores [OF this e'(1), of "LSN 2 7"] e' show ?thesis
    by (simp add: sample_escrow_def checkpoint_lsn_def escrow_current_lsn_def current_lsn_def
        less_eq_LSN_def less_LSN_def)
qed

end
