(* ===== verification/Multisignature.thy ===== *)
theory Multisignature
  imports Pbc BTreeMap "HOL-Library.Signed_Division"
begin

text \<open>
  Multi-signatures of a group of validators weighted by their slots,
  \<open>blockchain/src/multisignature.rs\<close>: the supermajority test, the aggregation of
  signatures with its bitmap, and the check of an aggregate. The contract of a quorum is
  the locale \<open>quorum_system\<close>: its lemmas (two quorums share more than a third of the
  weight) are proved once and used for bitmaps here and for votes in the consensus.
\<close>

section \<open>Signed division\<close>

text \<open>The operators \<open>/\<close> and \<open>%\<close> on \<open>i64\<close> round towards zero.\<close>

definition i64_div :: "i64 \<Rightarrow> i64 \<Rightarrow> i64" where
  "i64_div a b = word_of_int (sint a sdiv sint b)"

definition i64_rem :: "i64 \<Rightarrow> i64 \<Rightarrow> i64" where
  "i64_rem a b = word_of_int (sint a smod sint b)"

section \<open>Operations\<close>

definition check_supermajority :: "i64 \<Rightarrow> i64 \<Rightarrow> bool option" where
  "check_supermajority got_votes total_votes =
     (if \<not> got_votes \<le>s total_votes then None
      else if \<not> 0 \<le>s got_votes then None
      else if \<not> 0 <s total_votes then None
      else let need_votes = i64_div (total_votes * 2 + 3) 3
           in Some (need_votes \<le>s got_votes))"

type_synonym StakersGroup = "(pbc_pkey \<times> i64) list"

text \<open>
  The loop over pairs of an index and a signature; a panic is an index out of range or seen
  before. The sum is \<open>None\<close> (\<open>G1None\<close>) when one of the signatures does not decode.
\<close>

fun multi_signature_loop ::
  "('g, 'f) crypto \<Rightarrow> (u32 \<times> pbc_sig) list \<Rightarrow> G1 \<times> bool list \<Rightarrow> (G1 \<times> bool list) option" where
  "multi_signature_loop c [] acc = Some acc"
| "multi_signature_loop c ((validator_id, sig) # signatures) (msig, multisigmap) =
     (if \<not> unat validator_id < length multisigmap then None
      else if multisigmap ! unat validator_id then None
      else multi_signature_loop c signatures
             (g1_add c msig (Some sig), multisigmap[unat validator_id := True]))"

definition create_multi_signature_index ::
  "('g, 'f) crypto \<Rightarrow> (u32 \<times> pbc_sig) list \<Rightarrow> nat \<Rightarrow> (G1 \<times> bool list) option" where
  "create_multi_signature_index c signatures validators_len =
     multi_signature_loop c signatures (Some (g1_zero c), replicate validators_len False)"

definition create_multi_signature ::
  "('g, 'f) crypto \<Rightarrow> StakersGroup \<Rightarrow> (pbc_pkey, pbc_sig) btree \<Rightarrow> (G1 \<times> bool list) option" where
  "create_multi_signature c validators signatures =
     create_multi_signature_index c
       (List.map_filter (\<lambda>(id, (pk, _)). map_option (\<lambda>sig. (of_nat id, sig)) (bt_get signatures pk))
          (enumerate 0 validators))
       (length validators)"

text \<open>The loop of \<open>check_multi_signature\<close> over the validators whose bit is set.\<close>

fun group_loop ::
  "('g, 'f) crypto \<Rightarrow> ((pbc_pkey \<times> i64) \<times> bool) list \<Rightarrow> G2 \<times> i64 \<Rightarrow> (G2 \<times> i64) option" where
  "group_loop c [] acc = Some acc"
| "group_loop c (((validator_pkey, slots), val) # rest) (multisigpkey, group_total_slots) =
     (if \<not> val then group_loop c rest (multisigpkey, group_total_slots)
      else if \<not> 0 <s slots then None
      else group_loop c rest (g2_add c multisigpkey (Some validator_pkey), group_total_slots + slots))"

definition check_multi_signature ::
  "('g, 'f) crypto \<Rightarrow> hash \<Rightarrow> G1 \<Rightarrow> bool list \<Rightarrow> StakersGroup \<Rightarrow> i64 \<Rightarrow>
     (MultisignatureError, unit) outcome" where
  "check_multi_signature c h msig multisigmap validators total_slots =
     (if length multisigmap > length validators
      then Err (TooBigBitmap (length multisigmap) (length validators))
      else
        obind (or_panic (group_loop c (zip validators multisigmap) (Some (g2_zero c), 0)))
          (\<lambda>(multisigpkey, group_total_slots).
             obind (or_panic (check_supermajority group_total_slots total_slots))
               (\<lambda>super.
                  if \<not> super then Err (NotEnoughtVotes group_total_slots total_slots)
                  else if \<not> is_ok (check_hash c h msig multisigpkey)
                  then Err (MultisignatureError.InvalidSignature h)
                  else Ok ())))"

section \<open>The contract of a quorum\<close>

text \<open>
  A configuration has members with positive weights; a set of members is accepted when it
  weighs more than two thirds of the whole.
\<close>

locale quorum_system =
  fixes valid :: "'c \<Rightarrow> bool"
    and members :: "'c \<Rightarrow> 'v set"
    and weight :: "'c \<Rightarrow> 'v \<Rightarrow> int"
    and accepts :: "'c \<Rightarrow> 'v set \<Rightarrow> bool"
  assumes finite_members: "valid c \<Longrightarrow> finite (members c)"
    and weight_pos: "valid c \<Longrightarrow> v \<in> members c \<Longrightarrow> 0 < weight c v"
    and accepts_iff: "valid c \<Longrightarrow> A \<subseteq> members c \<Longrightarrow>
      accepts c A \<longleftrightarrow> 2 * sum (weight c) (members c) < 3 * sum (weight c) A"
begin

lemma weight_mono: "valid c \<Longrightarrow> B \<subseteq> members c \<Longrightarrow> A \<subseteq> B \<Longrightarrow> sum (weight c) A \<le> sum (weight c) B"
  by (rule sum_mono2) (auto intro: finite_subset [OF _ finite_members] less_imp_le [OF weight_pos])

lemma accepts_mono:
  "valid c \<Longrightarrow> B \<subseteq> members c \<Longrightarrow> A \<subseteq> B \<Longrightarrow> accepts c A \<Longrightarrow> accepts c B"
  using weight_mono [of c B A] by (simp add: accepts_iff)

text \<open>Two accepted sets share more than a third of the whole weight.\<close>

lemma accepts_intersect:
  assumes "valid c" "A \<subseteq> members c" "B \<subseteq> members c" "accepts c A" "accepts c B"
  shows "sum (weight c) (members c) < 3 * sum (weight c) (A \<inter> B)"
proof -
  have "finite A" "finite B" using assms finite_members finite_subset by blast+
  then have "sum (weight c) (A \<union> B) + sum (weight c) (A \<inter> B) = sum (weight c) A + sum (weight c) B"
    by (rule sum.union_inter)
  moreover have "sum (weight c) (A \<union> B) \<le> sum (weight c) (members c)"
    using assms by (intro weight_mono) auto
  ultimately show ?thesis using assms by (simp add: accepts_iff)
qed

text \<open>So they share a member outside every set of at most a third of the weight.\<close>

lemma accepts_honest:
  assumes "valid c" "A \<subseteq> members c" "B \<subseteq> members c" "accepts c A" "accepts c B"
    and "F \<subseteq> members c" "3 * sum (weight c) F \<le> sum (weight c) (members c)"
  shows "\<exists>v \<in> A \<inter> B. v \<notin> F"
proof (rule ccontr)
  assume "\<not> ?thesis"
  then have "A \<inter> B \<subseteq> F" by auto
  then have "sum (weight c) (A \<inter> B) \<le> sum (weight c) F"
    using assms by (intro weight_mono) auto
  with accepts_intersect [OF assms(1-5)] assms(7) show False by simp
qed

end

section \<open>Supermajority\<close>

lemma sint_word_of_int_64: "- (2 ^ 63) \<le> x \<Longrightarrow> x < 2 ^ 63 \<Longrightarrow> sint (word_of_int x :: i64) = x"
  by (simp add: sint_sbintrunc' signed_take_bit_int_eq_self)

lemma sint_add_nonneg:
  fixes a b :: i64
  assumes "0 \<le> sint a" "0 \<le> sint b" "sint a + sint b < 2 ^ 63"
  shows "sint (a + b) = sint a + sint b"
  using assms by (intro sint_add_in_range) auto

lemma check_supermajority_iff:
  assumes "0 \<le> sint got" "sint got \<le> sint tot" "0 < sint tot" "sint tot < 2 ^ 62 - 1"
  shows "check_supermajority got tot = Some (2 * sint tot < 3 * sint got)"
proof -
  have div3: "0 \<le> x div 3 \<and> x div 3 \<le> x" if "0 \<le> x" for x :: int
    using that by presburger
  have dbl: "sint (tot + tot) = 2 * sint tot"
    using assms by (subst sint_add_nonneg) auto
  have "sint (tot * 2 + 3) = 2 * sint tot + 3"
    using assms dbl by (subst sint_add_nonneg) (auto simp: mult_2_right)
  then have "sint (tot * 2 + 3) sdiv sint (3 :: i64) = (2 * sint tot + 3) div 3"
    using assms by (simp add: signed_divide_int_def)
  then have "sint (i64_div (tot * 2 + 3) 3) = (2 * sint tot + 3) div 3"
    unfolding i64_div_def using assms div3 [of "2 * sint tot + 3"]
    by (simp only:) (rule sint_word_of_int_64; simp)
  then show ?thesis
    using assms by (auto simp: check_supermajority_def signed_simps Let_def)
qed

lemma sint_sum_list_in_range:
  fixes ws :: "i64 list"
  assumes "\<forall>w \<in> set ws. 0 \<le> sint w" "sum_list (map sint ws) < 2 ^ 63"
  shows "sint (sum_list ws) = sum_list (map sint ws)"
  using assms
proof (induction ws)
  case (Cons w ws)
  have "0 \<le> sum_list (map sint ws)" using Cons.prems by (intro sum_list_nonneg) auto
  moreover have "0 \<le> sint w" using Cons.prems by simp
  ultimately show ?case using Cons by (simp add: sint_add_nonneg)
qed simp

lemma sint_sum_in_range:
  fixes f :: "'a \<Rightarrow> i64"
  assumes "finite A" "\<forall>x \<in> A. 0 \<le> sint (f x)" "(\<Sum>x \<in> A. sint (f x)) < 2 ^ 63"
  shows "sint (sum f A) = (\<Sum>x \<in> A. sint (f x))"
  using assms
proof (induction A rule: finite_induct)
  case (insert x A)
  have "0 \<le> (\<Sum>x \<in> A. sint (f x))" using insert.prems by (intro sum_nonneg) auto
  moreover have "0 \<le> sint (f x)" using insert.prems by simp
  ultimately show ?case using insert by (simp add: sint_add_nonneg)
qed simp

section \<open>Bitmaps are quorums\<close>

text \<open>A group of validators with positive slots whose sum leaves room for the test.\<close>

definition slots_valid :: "StakersGroup \<Rightarrow> bool" where
  "slots_valid vs \<longleftrightarrow>
     vs \<noteq> [] \<and> (\<forall>(k, s) \<in> set vs. 0 <s s) \<and> sum_list (map (sint \<circ> snd) vs) < 2 ^ 62 - 1"

definition slots_total :: "StakersGroup \<Rightarrow> i64" where
  "slots_total vs = sum_list (map snd vs)"

definition slots_at :: "StakersGroup \<Rightarrow> nat \<Rightarrow> i64" where
  "slots_at vs i = snd (vs ! i)"

definition signers :: "StakersGroup \<Rightarrow> bool list \<Rightarrow> nat set" where
  "signers vs bm = {i. i < length vs \<and> i < length bm \<and> bm ! i}"

lemma slots_validD:
  assumes "slots_valid vs"
  shows "i < length vs \<Longrightarrow> 0 < sint (slots_at vs i)"
    "sint (slots_total vs) = (\<Sum>i < length vs. sint (slots_at vs i))"
    "0 < sint (slots_total vs)" "sint (slots_total vs) < 2 ^ 62 - 1"
proof -
  have pos: "\<forall>w \<in> set (map snd vs). 0 < sint w"
    using assms by (auto simp: slots_valid_def signed_simps)
  show "i < length vs \<Longrightarrow> 0 < sint (slots_at vs i)" for i
    using pos by (simp add: slots_at_def)
  have "sum_list (map sint (map snd vs)) = sum_list (map (sint \<circ> snd) vs)" by simp
  then have eq: "sint (slots_total vs) = sum_list (map (sint \<circ> snd) vs)"
    unfolding slots_total_def
    using assms pos by (subst sint_sum_list_in_range) (auto simp: slots_valid_def dest: less_imp_le)
  then show lt: "sint (slots_total vs) < 2 ^ 62 - 1"
    using assms by (simp add: slots_valid_def)
  show sum: "sint (slots_total vs) = (\<Sum>i < length vs. sint (slots_at vs i))"
    by (simp add: eq sum_list_sum_nth slots_at_def atLeast0LessThan)
  show "0 < sint (slots_total vs)"
    unfolding sum using assms pos
    by (intro sum_pos) (auto simp: slots_valid_def slots_at_def)
qed

lemma slots_subset:
  assumes "slots_valid vs" "A \<subseteq> {..<length vs}"
  shows "sint (\<Sum>i \<in> A. slots_at vs i) = (\<Sum>i \<in> A. sint (slots_at vs i))"
    "0 \<le> (\<Sum>i \<in> A. sint (slots_at vs i))"
    "(\<Sum>i \<in> A. sint (slots_at vs i)) \<le> sint (slots_total vs)"
proof -
  have fin: "finite A" using assms(2) finite_subset by blast
  have pos: "0 < sint (slots_at vs i)" if "i < length vs" for i
    using slots_validD(1) [OF assms(1) that] .
  show le: "(\<Sum>i \<in> A. sint (slots_at vs i)) \<le> sint (slots_total vs)"
    unfolding slots_validD(2) [OF assms(1)]
    using assms(2) pos by (intro sum_mono2) (auto dest: less_imp_le)
  show "0 \<le> (\<Sum>i \<in> A. sint (slots_at vs i))"
    using assms(2) pos by (intro sum_nonneg) (auto dest: less_imp_le)
  show "sint (\<Sum>i \<in> A. slots_at vs i) = (\<Sum>i \<in> A. sint (slots_at vs i))"
    using assms(2) pos fin le slots_validD(4) [OF assms(1)]
    by (intro sint_sum_in_range) (auto dest: less_imp_le)
qed

interpretation bitmap: quorum_system slots_valid "\<lambda>vs. {..<length vs}" "\<lambda>vs i. sint (slots_at vs i)"
  "\<lambda>vs A. check_supermajority (\<Sum>i \<in> A. slots_at vs i) (slots_total vs) = Some True"
proof unfold_locales
  fix vs :: StakersGroup and A
  assume valid: "slots_valid vs" and A: "A \<subseteq> {..<length vs}"
  note S = slots_subset [OF valid A] and T = slots_validD [OF valid]
  show "check_supermajority (\<Sum>i \<in> A. slots_at vs i) (slots_total vs) = Some True \<longleftrightarrow>
    2 * (\<Sum>i < length vs. sint (slots_at vs i)) < 3 * (\<Sum>i \<in> A. sint (slots_at vs i))"
    using check_supermajority_iff [of "\<Sum>i \<in> A. slots_at vs i" "slots_total vs"] S T by simp
qed (use slots_validD(1) in auto)


lemma group_loop_slots:
  "group_loop c (zip vs bm) (p, g) = Some (p', g') \<Longrightarrow>
   g' = g + (\<Sum>i \<in> signers vs bm. slots_at vs i)"
proof (induction vs arbitrary: bm p g)
  case (Cons v vs)
  show ?case
  proof (cases bm)
    case (Cons b bs)
    obtain k s where v: "v = (k, s)" by (cases v)
    have eq: "signers (v # vs) bm = (if b then {0} else {}) \<union> Suc ` signers vs bs"
      unfolding signers_def Cons by (auto simp: less_Suc_eq_0_disj image_iff)
    have "finite (signers vs bs)" by (simp add: signers_def)
    then have sum: "(\<Sum>i \<in> signers (v # vs) bm. slots_at (v # vs) i) =
        (if b then s else 0) + (\<Sum>i \<in> signers vs bs. slots_at vs i)"
      unfolding eq by (simp add: sum.reindex v slots_at_def)
    show ?thesis
      using Cons.prems unfolding sum
      by (auto simp: Cons v add.assoc dest: Cons.IH split: if_splits)
  qed (use Cons.prems in \<open>simp add: signers_def\<close>)
qed (simp add: signers_def)


section \<open>An aggregate of valid signatures is valid\<close>

abbreviation signed_by :: "(pbc_pkey, pbc_sig) btree \<Rightarrow> pbc_pkey \<times> i64 \<Rightarrow> bool" where
  "signed_by sigs v \<equiv> bt_get sigs (fst v) \<noteq> None"

text \<open>Every collected signature decodes and verifies for its validator.\<close>

definition sigs_valid :: "('g, 'f) crypto \<Rightarrow> hash \<Rightarrow> StakersGroup \<Rightarrow> (pbc_pkey, pbc_sig) btree \<Rightarrow> bool" where
  "sigs_valid c h vs sigs \<longleftrightarrow>
     (\<forall>(pk, _) \<in> set vs. \<forall>sig. bt_get sigs pk = Some sig \<longrightarrow>
        g2_decodes c pk \<and> g1_decodes c sig \<and> bls_verify c pk h sig)"

lemma sigs_valid_Cons:
  "sigs_valid c h ((pk, s) # vs) sigs \<longleftrightarrow>
     (\<forall>sig. bt_get sigs pk = Some sig \<longrightarrow>
        g2_decodes c pk \<and> g1_decodes c sig \<and> bls_verify c pk h sig) \<and> sigs_valid c h vs sigs"
  by (simp add: sigs_valid_def)

definition collected_sum ::
  "('g, 'f) crypto \<Rightarrow> StakersGroup \<Rightarrow> (pbc_pkey, pbc_sig) btree \<Rightarrow> b48 \<Rightarrow> b48" where
  "collected_sum c vs sigs a =
     fold (\<lambda>v x. case bt_get sigs (fst v) of Some sig \<Rightarrow> g1_sum c x sig | None \<Rightarrow> x) vs a"

definition collected_key ::
  "('g, 'f) crypto \<Rightarrow> StakersGroup \<Rightarrow> (pbc_pkey, pbc_sig) btree \<Rightarrow> b96 \<Rightarrow> b96" where
  "collected_key c vs sigs p =
     fold (\<lambda>v x. if signed_by sigs v then g2_sum c x (fst v) else x) vs p"

lemma create_loop:
  assumes "bls_laws c" "sigs_valid c h vs sigs" "g1_decodes c a" "n + length vs < 2 ^ 32" "length pre = n"
  shows "multi_signature_loop c
      (List.map_filter (\<lambda>(id, (pk, _)). map_option (\<lambda>sig. (of_nat id, sig)) (bt_get sigs pk))
        (enumerate n vs)) (Some a, pre @ replicate (length vs) False) =
    Some (Some (collected_sum c vs sigs a), pre @ map (signed_by sigs) vs)"
  using assms
proof (induction vs arbitrary: n a pre)
  case (Cons v vs)
  obtain pk s where v: "v = (pk, s)" by (cases v)
  have n: "unat (of_nat n :: u32) = n" using Cons.prems(4) by (simp add: unat_of_nat take_bit_nat_eq_self)
  show ?case
  proof (cases "bt_get sigs pk")
    case None
    then show ?thesis
      using Cons.prems Cons.IH [of a "Suc n" "pre @ [False]"]
      by (simp add: v sigs_valid_Cons List.map_filter_simps collected_sum_def)
  next
    case (Some sig)
    moreover have "g1_decodes c sig" "g1_decodes c (g1_sum c a sig)"
      using Some Cons.prems by (auto simp: v sigs_valid_Cons intro: bls_lawsD)
    ultimately show ?thesis
      using Cons.prems Cons.IH [of "g1_sum c a sig" "Suc n" "pre @ [True]"] n
      by (simp add: v sigs_valid_Cons List.map_filter_simps collected_sum_def g1_add_def nth_append
          list_update_append)
  qed
qed (simp add: List.map_filter_simps collected_sum_def)

lemma check_loop:
  assumes "bls_laws c" "sigs_valid c h vs sigs" "g2_decodes c p" "\<forall>(k, s) \<in> set vs. 0 <s s"
  shows "\<exists>g'. group_loop c (zip vs (map (signed_by sigs) vs)) (Some p, g) =
           Some (Some (collected_key c vs sigs p), g')"
  using assms
proof (induction vs arbitrary: p g)
  case (Cons v vs)
  obtain pk s where v: "v = (pk, s)" by (cases v)
  show ?case
  proof (cases "bt_get sigs pk")
    case None
    then show ?thesis
      using Cons.prems Cons.IH [of p g] by (simp add: v sigs_valid_Cons collected_key_def)
  next
    case (Some sig)
    moreover have "g2_decodes c pk" "g2_decodes c (g2_sum c p pk)"
      using Some Cons.prems by (auto simp: v sigs_valid_Cons intro: bls_lawsD)
    ultimately show ?thesis
      using Cons.prems Cons.IH [of "g2_sum c p pk" "g + s"]
      by (simp add: v sigs_valid_Cons collected_key_def g2_add_def)
  qed
qed (simp add: collected_key_def)

lemma collected_verifies:
  assumes "bls_laws c" "sigs_valid c h vs sigs"
    "bls_verify c p h a" "g1_decodes c a" "g2_decodes c p"
  shows "bls_verify c (collected_key c vs sigs p) h (collected_sum c vs sigs a) \<and>
         g1_decodes c (collected_sum c vs sigs a) \<and> g2_decodes c (collected_key c vs sigs p)"
  using assms
proof (induction vs arbitrary: a p)
  case (Cons v vs)
  obtain pk s where v: "v = (pk, s)" by (cases v)
  show ?case
  proof (cases "bt_get sigs pk")
    case None
    then show ?thesis
      using Cons.prems Cons.IH [of p a]
      by (simp add: v sigs_valid_Cons collected_key_def collected_sum_def)
  next
    case (Some sig)
    then have "g2_decodes c pk" "g1_decodes c sig" "bls_verify c pk h sig"
      using Cons.prems(2) by (auto simp: v sigs_valid_Cons)
    then show ?thesis
      using Cons.prems Some Cons.IH [of "g2_sum c p pk" "g1_sum c a sig"] bls_lawsD [OF Cons.prems(1)]
      by (simp add: v sigs_valid_Cons collected_key_def collected_sum_def)
  qed
qed (simp add: collected_key_def collected_sum_def)

lemma signers_signed:
  "signers vs (map (signed_by sigs) vs) = {i. i < length vs \<and> signed_by sigs (vs ! i)}"
  by (auto simp: signers_def)

lemma signers_subset: "signers vs bm \<subseteq> {..<length vs}"
  by (auto simp: signers_def)

lemma check_multi_signature_OkD:
  assumes "check_multi_signature c h msig bm vs tot = Ok ()"
  shows "check_supermajority (\<Sum>i \<in> signers vs bm. slots_at vs i) tot = Some True"
    "length bm \<le> length vs"
  using assms
  by (auto simp: check_multi_signature_def outcome_simps dest!: group_loop_slots split: if_splits)

text \<open>Aggregating valid signatures of a supermajority yields a multi-signature that checks.\<close>

lemma create_check_multi_signature:
  assumes "bls_laws c" "slots_valid vs" "length vs < 2 ^ 32" "sigs_valid c h vs sigs"
    and "check_supermajority (\<Sum>i | i < length vs \<and> signed_by sigs (vs ! i). slots_at vs i) tot = Some True"
  shows "\<exists>msig bm. create_multi_signature c vs sigs = Some (msig, bm) \<and>
           check_multi_signature c h msig bm vs tot = Ok ()"
proof -
  let ?bm = "map (signed_by sigs) vs"
  let ?sum = "collected_sum c vs sigs (g1_zero c)"
  let ?key = "collected_key c vs sigs (g2_zero c)"
  have create: "create_multi_signature c vs sigs = Some (Some ?sum, ?bm)"
    using create_loop [OF assms(1,4), of "g1_zero c" 0 "[]"] bls_lawsD(1) [OF assms(1)] assms(3)
    by (simp add: create_multi_signature_def create_multi_signature_index_def)
  obtain g where g: "group_loop c (zip vs ?bm) (Some (g2_zero c), 0) = Some (Some ?key, g)"
    using check_loop [OF assms(1,4), of "g2_zero c" 0] bls_lawsD(2) [OF assms(1)] assms(2)
    by (auto simp: slots_valid_def)
  have "check_supermajority g tot = Some True"
    using assms(5) unfolding group_loop_slots [OF g] signers_signed by simp
  moreover have "check_hash c h (Some ?sum) (Some ?key) = Ok ()"
    using collected_verifies [OF assms(1,4) bls_lawsD(5,1,2)] assms(1) by (simp add: check_hash_Ok_iff)
  ultimately show ?thesis
    using create g by (simp add: check_multi_signature_def)
qed

section \<open>Properties\<close>

text \<open>
  The supermajority test accepts exactly the votes that exceed two thirds of the total,
  for every total below the bound where the doubling would wrap.
\<close>

theorem supermajority_two_thirds:
  assumes "0 \<le>s got" "got \<le>s tot" "0 <s tot" "sint tot < 2 ^ 62 - 1"
  shows "check_supermajority got tot = Some (2 * sint tot < 3 * sint got)"
  using assms by (intro check_supermajority_iff) (auto simp: signed_simps)

theorem supermajority_two_thirds_witness:
  "check_supermajority 67 100 = Some True \<and> check_supermajority 66 100 = Some False"
  using supermajority_two_thirds [of 67 100] supermajority_two_thirds [of 66 100]
  by (simp add: signed_simps)

text \<open>
  C14: two multi-signatures that pass the check for the same group, on whatever hashes, have
  signers in common who hold more than a third of the slots.
\<close>

theorem multi_signatures_intersect:
  assumes "slots_valid vs"
    and "check_multi_signature c h1 s1 bm1 vs (slots_total vs) = Ok ()"
    and "check_multi_signature c h2 s2 bm2 vs (slots_total vs) = Ok ()"
  shows "sint (slots_total vs) < 3 * (\<Sum>i \<in> signers vs bm1 \<inter> signers vs bm2. sint (slots_at vs i))"
  using bitmap.accepts_intersect [OF assms(1) signers_subset signers_subset]
    check_multi_signature_OkD(1) [OF assms(2)] check_multi_signature_OkD(1) [OF assms(3)]
    slots_validD(2) [OF assms(1)]
  by simp

definition sample_group :: StakersGroup where
  "sample_group = [(1, 1), (2, 2), (4, 2)]"

definition sample_sigs :: "hash \<Rightarrow> (pbc_pkey, pbc_sig) btree" where
  "sample_sigs h = [(2, pbc_sign_hash sample_crypto h 2), (4, pbc_sign_hash sample_crypto h 4)]"

lemma sample_group_valid: "slots_valid sample_group" "slots_total sample_group = 5"
  by (simp_all add: slots_valid_def slots_total_def sample_group_def signed_simps)

theorem multi_signatures_intersect_witness:
  "check_multi_signature sample_crypto 7 (Some 42) [False, True, True] sample_group
     (slots_total sample_group) = Ok () \<and>
   sint (slots_total sample_group) <
     3 * (\<Sum>i \<in> signers sample_group [False, True, True] \<inter> signers sample_group [False, True, True].
            sint (slots_at sample_group i))"
proof -
  have "check_multi_signature sample_crypto 7 (Some 42) [False, True, True] sample_group
     (slots_total sample_group) = Ok ()"
    unfolding sample_group_valid
    by (simp add: check_multi_signature_def sample_group_def sample_crypto_def check_hash_def g2_add_def
        check_supermajority_iff signed_simps)
  then show ?thesis
    using multi_signatures_intersect [OF sample_group_valid(1)] by blast
qed

text \<open>
  C15: when the collected signatures are valid for the hash and their slots are a
  supermajority, the aggregate of \<open>create_multi_signature\<close> exists and passes
  \<open>check_multi_signature\<close>.
\<close>

theorem multi_signature_round_trip:
  assumes "bls_laws c" "slots_valid vs" "length vs < 2 ^ 32" "sigs_valid c h vs sigs"
    and "2 * sint (slots_total vs) <
           3 * (\<Sum>i | i < length vs \<and> bt_get sigs (fst (vs ! i)) \<noteq> None. sint (slots_at vs i))"
  shows "\<exists>msig bm. create_multi_signature c vs sigs = Some (msig, bm) \<and>
           check_multi_signature c h msig bm vs (slots_total vs) = Ok ()"
proof (rule create_check_multi_signature [OF assms(1-4)])
  let ?A = "{i. i < length vs \<and> signed_by sigs (vs ! i)}"
  have "?A \<subseteq> {..<length vs}" by auto
  from bitmap.accepts_iff [OF assms(2) this] slots_validD(2) [OF assms(2)] assms(5)
  show "check_supermajority (\<Sum>i \<in> ?A. slots_at vs i) (slots_total vs) = Some True" by simp
qed

theorem multi_signature_round_trip_witness:
  "\<exists>msig bm. create_multi_signature sample_crypto sample_group (sample_sigs 7) = Some (msig, bm) \<and>
     check_multi_signature sample_crypto 7 msig bm sample_group (slots_total sample_group) = Ok ()"
proof (rule multi_signature_round_trip [OF sample_crypto_bls sample_group_valid(1)])
  show "sigs_valid sample_crypto 7 sample_group (sample_sigs 7)"
    by (simp add: sigs_valid_def sample_group_def sample_sigs_def pbc_sign_hash_def sample_crypto_def)
  have eq: "{i. i < length sample_group \<and> bt_get (sample_sigs 7) (fst (sample_group ! i)) \<noteq> None} = {1, 2}"
    by (auto simp: sample_group_def sample_sigs_def less_Suc_eq nth_Cons' split: if_splits)
  show "2 * sint (slots_total sample_group) <
      3 * (\<Sum>i | i < length sample_group \<and> bt_get (sample_sigs 7) (fst (sample_group ! i)) \<noteq> None.
             sint (slots_at sample_group i))"
    unfolding eq sample_group_valid(2) by (simp add: slots_at_def sample_group_def)
qed (simp add: sample_group_def)

end
