(* ===== verification/Election.thy ===== *)
theory Election
  imports Multisignature "HOL-Library.Product_Lexorder" "HOL-Library.Multiset"
begin

text \<open>
  The election of validators and leaders, \<open>blockchain/src/election.rs\<close>: a pseudo-random
  number derived from a verifiable random value picks a staker in proportion to the stake;
  an epoch draws a fixed number of slots and a facilitator, and every view of the epoch
  draws its leader from the slots.
\<close>

section \<open>Data\<close>

record ElectionResult =
  er_random :: VRF
  er_view_change :: u32
  er_validators :: StakersGroup
  facilitator :: pbc_pkey

section \<open>Operations\<close>

definition mix :: "('g, 'f) crypto \<Rightarrow> hash \<Rightarrow> u32 \<Rightarrow> hash" where
  "mix c random round = digest c (hash_hash random @ hash_u32 round)"

definition shrink_hash :: "hash \<Rightarrow> i64" where
  "shrink_hash h =
     (let slice = be_bytes 32 h
      in fold (\<lambda>i result. or result (push_bit (i * 8) (ucast (slice ! (8 - i))))) [0..<8] 0)"

definition generate_u64 :: "('g, 'f) crypto \<Rightarrow> hash \<Rightarrow> u32 \<Rightarrow> i64" where
  "generate_u64 c seed index = shrink_hash (mix c seed index)"

text \<open>\<open>checked_abs().unwrap_or(0)\<close>: the smallest integer has no absolute value.\<close>

definition abs_or_zero :: "i64 \<Rightarrow> i64" where
  "abs_or_zero x = (if sint x = - (2 ^ 63) then 0 else if x <s 0 then - x else x)"

text \<open>The outer \<open>None\<close> is a panic (a negative stake, no staker found), the inner one the result.\<close>

fun winner_loop :: "i64 \<Rightarrow> nat \<Rightarrow> i64 list \<Rightarrow> i64 \<Rightarrow> nat option" where
  "winner_loop need_stake num [] accumulator = None"
| "winner_loop need_stake num (validator_stake # stakers) accumulator =
     (if \<not> 0 \<le>s validator_stake then None
      else if need_stake <s accumulator + validator_stake then Some num
      else winner_loop need_stake (Suc num) stakers (accumulator + validator_stake))"

definition select_winner :: "i64 list \<Rightarrow> i64 \<Rightarrow> nat option option" where
  "select_winner stakers random_number =
     (let random = abs_or_zero random_number;
          sum_stakes = sum_list stakers
      in if sum_stakes = 0 then Some None
         else let need_stake = i64_rem random sum_stakes
              in map_option Some (winner_loop need_stake 0 stakers 0))"

text \<open>\<open>select_winner(..).unwrap()\<close> followed by the indexing of the list.\<close>

definition unwrap_winner :: "StakersGroup \<Rightarrow> i64 \<Rightarrow> pbc_pkey option" where
  "unwrap_winner vs random =
     (case select_winner (map snd vs) random of
        Some (Some index) \<Rightarrow> if index < length vs then Some (fst (vs ! index)) else None
      | _ \<Rightarrow> None)"

definition select_leader :: "('g, 'f) crypto \<Rightarrow> ElectionResult \<Rightarrow> u32 \<Rightarrow> pbc_pkey option" where
  "select_leader c er view_change =
     (let random = generate_u64 c (vrf_random (er_random er)) view_change
      in unwrap_winner (er_validators er) random)"

definition is_validator :: "ElectionResult \<Rightarrow> pbc_pkey \<Rightarrow> bool" where
  "is_validator er peer \<longleftrightarrow> (\<exists>item \<in> set (er_validators er). fst item = peer)"

definition slot_step ::
  "('g, 'f) crypto \<Rightarrow> StakersGroup \<Rightarrow> hash \<Rightarrow> nat \<Rightarrow> (pbc_pkey, i64) btree \<Rightarrow>
     (pbc_pkey, i64) btree option" where
  "slot_step c stakers seed i validators =
     (let rand = generate_u64 c seed (of_nat i)
      in map_option (\<lambda>winner. bt_entry winner 0 (\<lambda>x. x + 1) validators) (unwrap_winner stakers rand))"

definition select_validators_slots ::
  "('g, 'f) crypto \<Rightarrow> StakersGroup \<Rightarrow> VRF \<Rightarrow> i64 \<Rightarrow> ElectionResult option" where
  "select_validators_slots c stakers0 random slot_count =
     (if stakers0 = [] then None
      else if \<not> 0 <s slot_count then None
      else
        let stakers = sort_key (\<lambda>(k, stake). (k, sint stake)) stakers0;
            seed = vrf_random random
        in Option.bind (fold_option (slot_step c stakers seed) [0..<nat (sint slot_count)] [])
             (\<lambda>validators.
                let seed = digest c (hash_hash seed @ hash_str ''facilitator'');
                    rand = shrink_hash seed
                in map_option
                     (\<lambda>fac. \<lparr>er_random = random, er_view_change = 0, er_validators = validators,
                              facilitator = fac\<rparr>)
                     (unwrap_winner validators rand)))"

section \<open>The winner of a draw\<close>

lemma sint_abs_or_zero:
  "sint (abs_or_zero x) = (if sint x = - (2 ^ 63) then 0 else \<bar>sint x\<bar>)"
proof -
  have "sint (- x) = - sint x" if "sint x \<noteq> - (2 ^ 63)"
    using that sint_range_i64 [of x]
    by (simp add: sint_word_ariths signed_take_bit_int_eq_self)
  then show ?thesis by (auto simp: abs_or_zero_def signed_simps)
qed

lemma abs_or_zero_nonneg: "0 \<le> sint (abs_or_zero x)"
  by (simp add: sint_abs_or_zero)

lemma sint_i64_rem:
  assumes "0 \<le> sint a" "0 < sint b"
  shows "sint (i64_rem a b) = sint a mod sint b"
proof -
  have "0 \<le> sint a mod sint b" "sint a mod sint b < sint b"
    using assms by auto
  moreover have "sint a smod sint b = sint a mod sint b"
    using assms by (simp add: signed_modulo_int_def signed_divide_int_def minus_div_mult_eq_mod sgn_if)
  ultimately show ?thesis
    using sint_range_i64 [of b] unfolding i64_rem_def
    by (simp add: sint_word_of_int_64)
qed

lemma winner_loop_spec:
  assumes "\<forall>s \<in> set xs. 0 \<le> sint s" "0 \<le> sint a" "sint a \<le> sint need"
    "sint need < sint a + sum_list (map sint xs)" "sint a + sum_list (map sint xs) < 2 ^ 63"
  shows "\<exists>k < length xs. winner_loop need n xs a = Some (n + k) \<and>
           sint a + sum_list (map sint (take k xs)) \<le> sint need \<and>
           sint need < sint a + sum_list (map sint (take (Suc k) xs))"
  using assms
proof (induction xs arbitrary: n a)
  case (Cons x xs)
  have rest: "0 \<le> sum_list (map sint xs)" using Cons.prems by (intro sum_list_nonneg) auto
  have x: "0 \<le> sint x" using Cons.prems by simp
  have ax: "sint (a + x) = sint a + sint x"
    using Cons.prems rest x by (intro sint_add_nonneg) auto
  show ?case
  proof (cases "sint need < sint a + sint x")
    case True
    with Cons.prems x ax show ?thesis by (intro exI [of _ 0]) (simp add: signed_simps)
  next
    case False
    then obtain k where "k < length xs" "winner_loop need (Suc n) xs (a + x) = Some (Suc n + k)"
      "sint (a + x) + sum_list (map sint (take k xs)) \<le> sint need"
      "sint need < sint (a + x) + sum_list (map sint (take (Suc k) xs))"
      using Cons.IH [of "a + x" "Suc n"] Cons.prems ax x by auto
    with False x ax show ?thesis
      by (intro exI [of _ "Suc k"]) (simp add: signed_simps add.assoc)
  qed
qed simp

definition stakes_ok :: "i64 list \<Rightarrow> bool" where
  "stakes_ok xs \<longleftrightarrow> (\<forall>s \<in> set xs. 0 \<le>s s) \<and> 0 < sum_list (map sint xs) \<and> sum_list (map sint xs) < 2 ^ 63"

lemma select_winner_spec:
  assumes "stakes_ok xs"
  shows "\<exists>k < length xs. select_winner xs r = Some (Some k) \<and>
    sum_list (map sint (take k xs)) \<le> sint (abs_or_zero r) mod sum_list (map sint xs) \<and>
    sint (abs_or_zero r) mod sum_list (map sint xs) < sum_list (map sint (take (Suc k) xs))"
proof -
  have nn: "\<forall>s \<in> set xs. 0 \<le> sint s" using assms by (simp add: stakes_ok_def signed_simps)
  then have sum: "sint (sum_list xs) = sum_list (map sint xs)"
    using assms by (intro sint_sum_list_in_range) (auto simp: stakes_ok_def)
  let ?need = "i64_rem (abs_or_zero r) (sum_list xs)"
  have need: "sint ?need = sint (abs_or_zero r) mod sum_list (map sint xs)"
    using assms sum by (subst sint_i64_rem) (auto simp: stakes_ok_def abs_or_zero_nonneg)
  have "sum_list xs \<noteq> 0" using sum assms by (auto simp: stakes_ok_def)
  then show ?thesis
    using winner_loop_spec [of xs 0 ?need 0] nn need assms
    by (auto simp: select_winner_def stakes_ok_def Let_def)
qed

lemma prefix_mono:
  assumes "\<forall>s \<in> set xs. 0 \<le> (s :: int)" "j \<le> k"
  shows "sum_list (take j xs) \<le> sum_list (take k xs)"
proof -
  have "take k xs = take j xs @ take (k - j) (drop j xs)"
    using assms(2) by (metis le_add_diff_inverse take_add)
  moreover have "0 \<le> sum_list (take (k - j) (drop j xs))"
    using assms(1) by (intro sum_list_nonneg) (meson in_set_dropD in_set_takeD)
  ultimately show ?thesis by simp
qed

lemma prefix_unique:
  assumes "\<forall>s \<in> set xs. 0 \<le> (s :: int)"
    "sum_list (take j xs) \<le> m" "m < sum_list (take (Suc j) xs)"
    "sum_list (take k xs) \<le> m" "m < sum_list (take (Suc k) xs)"
  shows "j = k"
  using prefix_mono [OF assms(1), of "Suc j" k] prefix_mono [OF assms(1), of "Suc k" j] assms(2-5)
  by (cases j k rule: linorder_cases) auto

lemma select_winner_iff:
  assumes "stakes_ok xs" "0 \<le> m" "m < sum_list (map sint xs)"
  shows "select_winner xs (word_of_int m) = Some (Some k) \<longleftrightarrow>
    sum_list (map sint (take k xs)) \<le> m \<and> m < sum_list (map sint (take (Suc k) xs))"
proof -
  have nn: "\<forall>s \<in> set (map sint xs). 0 \<le> s" using assms by (auto simp: stakes_ok_def signed_simps)
  have "m < 2 ^ 63" using assms by (auto simp: stakes_ok_def)
  then have "sint (word_of_int m :: i64) = m" using assms by (intro sint_word_of_int_64) auto
  then have abs: "sint (abs_or_zero (word_of_int m)) = m"
    using assms by (simp add: sint_abs_or_zero)
  have mod: "m mod sum_list (map sint xs) = m" using assms by simp
  obtain j where "select_winner xs (word_of_int m) = Some (Some j)"
    "sum_list (take j (map sint xs)) \<le> m" "m < sum_list (take (Suc j) (map sint xs))"
    using select_winner_spec [OF assms(1), of "word_of_int m"] unfolding abs mod
    by (auto simp: take_map)
  then show ?thesis
    using prefix_unique [OF nn, of j m k] by (auto simp: take_map)
qed

lemma winners_count:
  assumes "stakes_ok xs" "k < length xs"
  shows "card {m. 0 \<le> m \<and> m < sum_list (map sint xs) \<and> select_winner xs (word_of_int m) = Some (Some k)} =
           nat (sint (xs ! k))"
proof -
  have nn: "\<forall>s \<in> set (map sint xs). 0 \<le> s" using assms by (auto simp: stakes_ok_def signed_simps)
  have pre: "sum_list (take (Suc k) (map sint xs)) = sum_list (take k (map sint xs)) + sint (xs ! k)"
    using assms(2) by (simp add: take_Suc_conv_app_nth)
  have "sum_list (take (Suc k) (map sint xs)) \<le> sum_list (map sint xs)"
    using prefix_mono [OF nn, of "Suc k" "length xs"] assms(2) by simp
  moreover have "0 \<le> sum_list (take k (map sint xs))"
    using prefix_mono [OF nn, of 0 k] by simp
  ultimately have "{m. 0 \<le> m \<and> m < sum_list (map sint xs) \<and> select_winner xs (word_of_int m) = Some (Some k)} =
     {sum_list (take k (map sint xs)) ..< sum_list (take (Suc k) (map sint xs))}"
    using select_winner_iff [OF assms(1), of _ k] by (auto simp: take_map)
  then show ?thesis by (simp add: pre)
qed

lemma unwrap_winner_total:
  assumes "stakes_ok (map snd vs)"
  shows "\<exists>p \<in> fst ` set vs. unwrap_winner vs r = Some p"
  using select_winner_spec [OF assms, of r] by (auto simp: unwrap_winner_def intro!: rev_image_eqI)


section \<open>The slots of an epoch\<close>

lemma sum_bt_put:
  fixes f :: "'k::linorder \<times> 'v \<Rightarrow> 'a::ab_group_add"
  shows "bt_inv m \<Longrightarrow>
    sum_list (map f (bt_put k v m)) =
      sum_list (map f m) + f (k, v) - (case bt_get m k of None \<Rightarrow> 0 | Some x \<Rightarrow> f (k, x))"
proof (induction k v m rule: bt_put.induct)
  case (2 k v k' v' m)
  have "k < k' \<Longrightarrow> bt_get m k = None"
    using 2 by (intro bt_get_fresh) (auto dest: order.strict_trans)
  with 2 show ?case by (auto simp: algebra_simps split: option.splits)
qed simp

lemma elem_le_sum_int:
  "\<forall>y \<in> set ys. 0 \<le> y \<Longrightarrow> y \<in> set ys \<Longrightarrow> y \<le> sum_list ys" for y :: int
proof (induction ys)
  case (Cons z ys)
  moreover have "0 \<le> sum_list ys" using Cons.prems by (intro sum_list_nonneg) auto
  ultimately show ?case by auto
qed simp

text \<open>A counting loop whose body keeps an invariant does not panic and ends in it.\<close>

lemma fold_option_upt:
  assumes "\<And>i s. i < n \<Longrightarrow> P i s \<Longrightarrow> \<exists>s'. f i s = Some s' \<and> P (Suc i) s'" "P 0 s"
  shows "\<exists>s'. fold_option f [0..<n] s = Some s' \<and> P n s'"
  using assms
proof (induction n)
  case (Suc n)
  then obtain s' where "fold_option f [0..<n] s = Some s'" "P n s'"
    by (meson less_SucI)
  with Suc.prems(1) [of n s'] show ?case by (auto simp: fold_option_append)
qed simp

text \<open>What holds of the slots after \<open>n\<close> draws.\<close>

definition slots_drawn :: "pbc_pkey set \<Rightarrow> nat \<Rightarrow> StakersGroup \<Rightarrow> bool" where
  "slots_drawn keys n m \<longleftrightarrow>
     bt_inv m \<and> fst ` set m \<subseteq> keys \<and> (\<forall>kv \<in> set m. 0 < sint (snd kv)) \<and>
     sum_list (map (sint \<circ> snd) m) = int n"

lemma slots_drawn_step:
  assumes "slots_drawn keys n m" "w \<in> keys" "int n < 2 ^ 63 - 1"
  shows "slots_drawn keys (Suc n) (bt_entry w 0 (\<lambda>x. x + 1) m)"
proof -
  define x where "x = (case bt_get m w of None \<Rightarrow> 0 | Some v \<Rightarrow> v)"
  have x: "0 \<le> sint x" "sint x \<le> int n"
  proof -
    have "sint x \<in> insert 0 (set (map (sint \<circ> snd) m))"
      by (auto simp: x_def dest!: map_of_SomeD split: option.splits intro!: rev_image_eqI)
    moreover have "\<forall>y \<in> set (map (sint \<circ> snd) m). 0 \<le> y \<and> y \<le> int n"
      using assms(1) elem_le_sum_int [of "map (sint \<circ> snd) m"]
      by (fastforce simp: slots_drawn_def)
    ultimately show "0 \<le> sint x" "sint x \<le> int n" by auto
  qed
  have "sint (x + 1) = sint x + 1"
    using x assms(3) by (subst sint_add_nonneg) auto
  moreover have "sum_list (map (sint \<circ> snd) (bt_put w (x + 1) m)) =
      sum_list (map (sint \<circ> snd) m) + sint (x + 1) - sint x"
    using assms(1) by (auto simp: slots_drawn_def sum_bt_put x_def split: option.splits)
  ultimately show ?thesis
    using assms x bt_put_subset [of w "x + 1" m]
    unfolding bt_entry_def x_def [symmetric] slots_drawn_def
    by (auto simp: set_bt_put)
qed


lemma stakes_ok_sort:
  assumes "stakes_ok (map snd vs)"
  shows "stakes_ok (map snd (sort_key f vs))"
proof -
  have "mset (map (sint \<circ> snd) (sort_key f vs)) = mset (map (sint \<circ> snd) vs)" by simp
  then have "sum_list (map (sint \<circ> snd) (sort_key f vs)) = sum_list (map (sint \<circ> snd) vs)"
    by (metis sum_mset_sum_list)
  then show ?thesis using assms by (auto simp: stakes_ok_def comp_def)
qed

lemma stakes_ok_slots:
  assumes "slots_drawn keys n vs" "0 < n" "int n < 2 ^ 63"
  shows "stakes_ok (map snd vs)"
  using assms by (auto simp: stakes_ok_def slots_drawn_def signed_simps comp_def intro: less_imp_le)

lemma slots_drawn_valid:
  assumes "slots_drawn keys n vs" "0 < n" "int n < 2 ^ 62 - 1"
  shows "slots_valid vs" "sint (slots_total vs) = int n"
proof -
  show "slots_valid vs"
    using assms by (auto simp: slots_valid_def slots_drawn_def signed_simps)
  then show "sint (slots_total vs) = int n"
    unfolding slots_validD(2) [OF \<open>slots_valid vs\<close>]
    using assms(1) by (simp add: slots_drawn_def sum_list_sum_nth slots_at_def atLeast0LessThan)
qed

lemma select_validators_slots_drawn:
  assumes "stakes_ok (map snd stakers)" "0 <s slot_count"
  shows "\<exists>er. select_validators_slots c stakers random slot_count = Some er \<and>
    er_random er = random \<and> slots_drawn (fst ` set stakers) (nat (sint slot_count)) (er_validators er) \<and>
    is_validator er (facilitator er)"
proof -
  let ?n = "nat (sint slot_count)"
  let ?stakers = "sort_key (\<lambda>(k, stake). (k, sint stake)) stakers"
  have n: "0 < ?n" "int ?n < 2 ^ 63"
    using assms(2) sint_range_i64 [of slot_count] by (auto simp: signed_simps)
  have "stakes_ok (map snd ?stakers)" using stakes_ok_sort [OF assms(1)] .
  then have step: "\<exists>m'. slot_step c ?stakers (vrf_random random) i m = Some m' \<and>
      slots_drawn (fst ` set stakers) (Suc i) m'"
    if "i < ?n" "slots_drawn (fst ` set stakers) i m" for i m
    using that n unwrap_winner_total [of ?stakers "generate_u64 c (vrf_random random) (of_nat i)"]
    by (auto simp: slot_step_def intro!: slots_drawn_step)
  have "slots_drawn (fst ` set stakers) 0 []" by (simp add: slots_drawn_def)
  from fold_option_upt [where P = "slots_drawn (fst ` set stakers)" and n = ?n and s = "[]" and
      f = "slot_step c ?stakers (vrf_random random)", OF step this]
  obtain vs where vs: "fold_option (slot_step c ?stakers (vrf_random random)) [0..<?n] [] = Some vs"
    "slots_drawn (fst ` set stakers) ?n vs" by auto
  from unwrap_winner_total [OF stakes_ok_slots [OF vs(2) n]]
  obtain fac where "fac \<in> fst ` set vs"
    "unwrap_winner vs (shrink_hash (digest c (hash_hash (vrf_random random) @ hash_str ''facilitator'')))
       = Some fac" by blast
  moreover have "stakers \<noteq> []" using assms(1) by (auto simp: stakes_ok_def)
  ultimately show ?thesis
    using vs assms(2) by (auto simp: select_validators_slots_def is_validator_def Let_def)
qed


lemma nth_be_bytes: "j < n \<Longrightarrow> be_bytes n w ! j = ucast (drop_bit (8 * (n - Suc j)) w)"
  by (simp add: be_bytes_def le_bytes_def rev_nth)

lemma shrink_hash_bits: "shrink_hash h = ucast (drop_bit 184 h)"
proof (rule bit_word_eqI)
  fix n
  assume "n < LENGTH(64)"
  then consider "n < 8" | "8 \<le> n" "n < 16" | "16 \<le> n" "n < 24" | "24 \<le> n" "n < 32"
    | "32 \<le> n" "n < 40" | "40 \<le> n" "n < 48" | "48 \<le> n" "n < 56" | "56 \<le> n" "n < 64"
    by fastforce
  then show "bit (shrink_hash h) n \<longleftrightarrow> bit (ucast (drop_bit 184 h) :: i64) n"
    by cases (auto simp: shrink_hash_def nth_be_bytes bit_simps upt_conv_Cons)
qed

section \<open>Properties\<close>



text \<open>
  C16: an election among stakers with positive stakes succeeds and is well formed: the slots
  add up to the requested number, every validator has a slot and was a staker, the validators
  are listed once in the order of their keys and form a valid group for multi-signatures, the
  facilitator is one of them, and every view has a leader among them.
\<close>

theorem election_well_formed:
  assumes "stakers \<noteq> []" "\<forall>(k, s) \<in> set stakers. 0 <s s" "sum_list (map (sint \<circ> snd) stakers) < 2 ^ 63"
    and "0 <s slot_count" "sint slot_count < 2 ^ 62 - 1"
  shows "\<exists>er. select_validators_slots c stakers random slot_count = Some er \<and>
    er_random er = random \<and> bt_inv (er_validators er) \<and> slots_valid (er_validators er) \<and>
    slots_total (er_validators er) = slot_count \<and>
    fst ` set (er_validators er) \<subseteq> fst ` set stakers \<and> is_validator er (facilitator er) \<and>
    (\<forall>view. \<exists>leader. select_leader c er view = Some leader \<and> is_validator er leader)"
proof -
  have "0 < sum_list (map (sint \<circ> snd) stakers)"
  proof -
    obtain k s rest where "stakers = (k, s) # rest" using assms(1) by (cases stakers) auto
    moreover from this assms(2) have "0 \<le> sum_list (map (sint \<circ> snd) rest)"
      by (intro sum_list_nonneg) (auto simp: signed_simps)
    ultimately show ?thesis using assms(2) by (auto simp: signed_simps)
  qed
  then have "stakes_ok (map snd stakers)"
    using assms by (auto simp: stakes_ok_def signed_simps comp_def)
  from select_validators_slots_drawn [OF this assms(4)]
  obtain er where er: "select_validators_slots c stakers random slot_count = Some er"
    "er_random er = random" "slots_drawn (fst ` set stakers) (nat (sint slot_count)) (er_validators er)"
    "is_validator er (facilitator er)" by blast
  have n: "0 < nat (sint slot_count)" "int (nat (sint slot_count)) < 2 ^ 62 - 1"
    using assms(4,5) by (auto simp: signed_simps)
  have "\<exists>leader. select_leader c er view = Some leader \<and> is_validator er leader" for view
    using unwrap_winner_total [OF stakes_ok_slots [OF er(3) n(1)],
        of "generate_u64 c (vrf_random (er_random er)) view"] n
    by (auto simp: select_leader_def is_validator_def)
  moreover have "slots_total (er_validators er) = slot_count"
    using slots_drawn_valid(2) [OF er(3) n] n by (intro signed_word_eqI) simp
  ultimately show ?thesis
    using er slots_drawn_valid(1) [OF er(3) n] by (auto simp: slots_drawn_def)
qed

definition sample_vrf :: VRF where
  "sample_vrf = \<lparr>vrf_random = 12, vrf_pt = 0\<rparr>"

theorem election_well_formed_witness:
  "\<exists>er. select_validators_slots sample_crypto [(4, 10), (2, 30)] sample_vrf 5 = Some er \<and>
    slots_total (er_validators er) = 5 \<and>
    (\<exists>leader. select_leader sample_crypto er 3 = Some leader \<and> is_validator er leader)"
  using election_well_formed [of "[(4, 10), (2, 30)]" 5 sample_crypto sample_vrf]
  by (auto simp: signed_simps)

end
