(* ===== verification/Awards.thy ===== *)
theory Awards
  imports Election
begin

text \<open>
  The service awards, \<open>blockchain/src/awards.rs\<close>: a part of every block reward goes to a
  budget; when the random value of an epoch has enough zero bits, the whole budget is paid
  to one of the accounts that were active and never failed since the last draw. The accounts
  are kept in the order of their encodings.
\<close>

section \<open>Data\<close>

datatype ValidatorAwardState = Failed u64 u32 | Active

record Awards =
  aw_budget :: i64
  aw_difficulty :: nat
  validators_activity :: "(b32, ValidatorAwardState) btree"

section \<open>Operations\<close>

text \<open>\<open>None\<close> is a panic: the difficulty is not below the 256 bits of a hash.\<close>

definition awards_new :: "nat \<Rightarrow> Awards option" where
  "awards_new difficulty =
     (if difficulty < 32 * 8
      then Some \<lparr>aw_budget = 0, aw_difficulty = difficulty, validators_activity = []\<rparr>
      else None)"

definition add_reward :: "i64 \<Rightarrow> Awards \<Rightarrow> Awards option" where
  "add_reward piece a = (if 0 <s piece then Some (a\<lparr>aw_budget := aw_budget a + piece\<rparr>) else None)"

definition activity_step :: "b32 \<times> ValidatorAwardState \<Rightarrow> Awards \<Rightarrow> Awards" where
  "activity_step vs a =
     (let (validator, state) = vs in
      case bt_get (validators_activity a) validator of
        Some (Failed _ _) \<Rightarrow> a
      | _ \<Rightarrow> a\<lparr>validators_activity := bt_put validator state (validators_activity a)\<rparr>)"

definition finalize_epoch :: "i64 \<Rightarrow> (b32 \<times> ValidatorAwardState) list \<Rightarrow> Awards \<Rightarrow> Awards option" where
  "finalize_epoch reward epoch_activity a =
     map_option (fold activity_step epoch_activity) (add_reward reward a)"

text \<open>\<open>None\<close> is an index outside the slice.\<close>

fun chkbits_loop :: "bytes \<Rightarrow> nat list \<Rightarrow> bool option" where
  "chkbits_loop h [] = Some True"
| "chkbits_loop h (i # is) =
     (if \<not> i div 8 < length h then None
      else if and (h ! (i div 8)) (push_bit (i mod 8) 1) \<noteq> 0 then Some False
      else chkbits_loop h is)"

definition chkbits :: "bytes \<Rightarrow> nat \<Rightarrow> bool option" where
  "chkbits h nbits = chkbits_loop h [0..<nbits]"

definition check_winners :: "hash \<Rightarrow> Awards \<Rightarrow> ((b32 \<times> i64) option \<times> Awards) option" where
  "check_winners random a =
     Option.bind (chkbits (be_bytes 32 random) (aw_difficulty a))
       (\<lambda>lucky.
          if \<not> lucky then Some (None, a)
          else
            let participants = map fst (filter (\<lambda>(_, s). s = Active) (validators_activity a));
                a = a\<lparr>validators_activity := []\<rparr>
            in if participants = [] then Some (None, a)
               else
                 let winner_num = abs_or_zero (shrink_hash random);
                     winner = unat winner_num mod length participants;
                     winner_pk = participants ! winner
                 in Some (Some (winner_pk, aw_budget a), a\<lparr>aw_budget := 0\<rparr>))"

section \<open>The life of the budget\<close>

text \<open>
  What happens to the awards over the epochs: the end of an epoch with its reward and the
  activity of its validators, and a draw, which may pay out.
\<close>

datatype AwardEvent = Epoch i64 "(b32 \<times> ValidatorAwardState) list" | Draw hash

fun award_step :: "AwardEvent \<Rightarrow> Awards \<Rightarrow> ((b32 \<times> i64) option \<times> Awards) option" where
  "award_step (Epoch reward activity) a = map_option (\<lambda>a'. (None, a')) (finalize_epoch reward activity a)"
| "award_step (Draw random) a = check_winners random a"

fun award_run :: "AwardEvent list \<Rightarrow> Awards \<Rightarrow> ((b32 \<times> i64) list \<times> Awards) option" where
  "award_run [] a = Some ([], a)"
| "award_run (ev # evs) a =
     Option.bind (award_step ev a)
       (\<lambda>(p, a'). map_option (\<lambda>(ps, a''). (case p of None \<Rightarrow> ps | Some x \<Rightarrow> x # ps, a''))
                    (award_run evs a'))"

fun event_reward :: "AwardEvent \<Rightarrow> i64" where
  "event_reward (Epoch reward _) = reward"
| "event_reward (Draw _) = 0"

lemma fold_activity_budget [simp]: "aw_budget (fold activity_step xs a) = aw_budget a"
  by (induction xs arbitrary: a)
     (auto simp: activity_step_def Let_def split: option.splits ValidatorAwardState.splits)

lemma fold_activity_difficulty [simp]: "aw_difficulty (fold activity_step xs a) = aw_difficulty a"
  by (induction xs arbitrary: a)
     (auto simp: activity_step_def Let_def split: option.splits ValidatorAwardState.splits)

lemma activity_step_failed:
  "bt_get (validators_activity a) v = Some (Failed e o') \<Longrightarrow>
   bt_get (validators_activity (activity_step x a)) v = Some (Failed e o')"
  by (cases "fst x = v")
     (auto simp: activity_step_def Let_def split: option.splits ValidatorAwardState.splits prod.splits)

lemma fold_activity_failed:
  "bt_get (validators_activity a) v = Some (Failed e o') \<Longrightarrow>
   bt_get (validators_activity (fold activity_step xs a)) v = Some (Failed e o')"
  by (induction xs arbitrary: a) (auto simp: activity_step_failed)

lemma fold_activity_inv:
  "bt_inv (validators_activity a) \<Longrightarrow> bt_inv (validators_activity (fold activity_step xs a))"
  by (induction xs arbitrary: a)
     (auto simp: activity_step_def Let_def split: option.splits ValidatorAwardState.splits)

lemma award_step_budget:
  "award_step ev a = Some (p, a') \<Longrightarrow>
   aw_budget a + event_reward ev = (case p of None \<Rightarrow> 0 | Some (_, x) \<Rightarrow> x) + aw_budget a'"
  by (cases ev)
     (auto simp: finalize_epoch_def add_reward_def check_winners_def Let_def outcome_simps
       split: if_splits)

text \<open>Through an unlucky draw or an epoch a failure stays recorded.\<close>

fun unlucky :: "nat \<Rightarrow> AwardEvent \<Rightarrow> bool" where
  "unlucky difficulty (Epoch _ _) \<longleftrightarrow> True"
| "unlucky difficulty (Draw random) \<longleftrightarrow> chkbits (be_bytes 32 random) difficulty = Some False"

lemma award_step_failed:
  assumes "award_step ev a = Some (p, a')" "unlucky (aw_difficulty a) ev"
    "bt_inv (validators_activity a)" "bt_get (validators_activity a) v = Some (Failed e o')"
  shows "p = None \<and> aw_difficulty a' = aw_difficulty a \<and> bt_inv (validators_activity a') \<and>
         bt_get (validators_activity a') v = Some (Failed e o')"
  using assms
  by (cases ev)
     (auto simp: finalize_epoch_def add_reward_def check_winners_def
       intro!: fold_activity_failed fold_activity_inv split: if_splits)

lemma award_run_failed:
  assumes "award_run evs a = Some (ps, a')" "\<forall>ev \<in> set evs. unlucky (aw_difficulty a) ev"
    "bt_inv (validators_activity a)" "bt_get (validators_activity a) v = Some (Failed e o')"
  shows "bt_inv (validators_activity a') \<and> bt_get (validators_activity a') v = Some (Failed e o')"
  using assms
proof (induction evs arbitrary: a ps)
  case (Cons ev evs)
  then obtain p a1 qs where 1: "award_step ev a = Some (p, a1)" "award_run evs a1 = Some (qs, a')"
    by (auto simp: outcome_simps)
  with Cons.prems award_step_failed [OF 1(1)] show ?case by (intro Cons.IH [OF 1(2)]) auto
qed simp

text \<open>The bits a draw looks at; with a legal difficulty it never leaves the hash.\<close>

lemma chkbits_loop_iff:
  "\<forall>i \<in> set is. i div 8 < length h \<Longrightarrow>
   chkbits_loop h is = Some (\<forall>i \<in> set is. \<not> bit (h ! (i div 8)) (i mod 8))"
proof (induction h "is" rule: chkbits_loop.induct)
  case (2 h i "is")
  have "and (h ! (i div 8)) (push_bit (i mod 8) 1) = 0 \<longleftrightarrow> \<not> bit (h ! (i div 8)) (i mod 8)"
    by (simp add: and_exp_eq_0_iff_not_bit push_bit_eq_mult)
  with 2 show ?case by auto
qed simp

lemma chkbits_total: "n \<le> 256 \<Longrightarrow> \<exists>b. chkbits (be_bytes 32 h) n = Some b"
  unfolding chkbits_def by (subst chkbits_loop_iff) auto

lemma check_winners_winner:
  assumes "check_winners random a = Some (Some (w, x), a')" "bt_inv (validators_activity a)"
  shows "bt_get (validators_activity a) w = Some Active" "x = aw_budget a"
    "aw_budget a' = 0" "validators_activity a' = []"
proof -
  let ?ps = "map fst (filter (\<lambda>(_, s). s = Active) (validators_activity a))"
  have "?ps \<noteq> []" and w: "w = ?ps ! (unat (abs_or_zero (shrink_hash random)) mod length ?ps)"
    and rest: "x = aw_budget a" "aw_budget a' = 0" "validators_activity a' = []"
    using assms(1) by (auto simp: check_winners_def Let_def outcome_simps split: if_splits)
  then have "w \<in> set ?ps" by (metis length_greater_0_conv mod_less_divisor nth_mem)
  then show "bt_get (validators_activity a) w = Some Active"
    using bt_inv_distinct [OF assms(2)] by auto
  show "x = aw_budget a" "aw_budget a' = 0" "validators_activity a' = []" by (fact rest)+
qed

section \<open>Properties\<close>

text \<open>
  C18: no money is lost or made by the service awards: over any sequence of epochs and draws
  the rewards that went into the budget are the awards that were paid and the budget left.
  A draw pays the whole budget, to an account that is active and has not failed.
\<close>

theorem awards_conserved:
  assumes "award_run evs a = Some (payments, a')"
  shows "aw_budget a + sum_list (map event_reward evs) = sum_list (map snd payments) + aw_budget a'"
  using assms
proof (induction evs arbitrary: a payments)
  case (Cons ev evs)
  then obtain p a1 ps where 1: "award_step ev a = Some (p, a1)" "award_run evs a1 = Some (ps, a')"
    "payments = (case p of None \<Rightarrow> ps | Some x \<Rightarrow> x # ps)"
    by (auto simp: outcome_simps)
  let ?pay = "case p of None \<Rightarrow> 0 | Some (_, x) \<Rightarrow> x"
  have "aw_budget a + sum_list (map event_reward (ev # evs)) =
      (aw_budget a + event_reward ev) + sum_list (map event_reward evs)"
    by (simp add: add.assoc)
  also have "\<dots> = ?pay + (aw_budget a1 + sum_list (map event_reward evs))"
    by (simp only: award_step_budget [OF 1(1)] add.assoc)
  also have "\<dots> = ?pay + (sum_list (map snd ps) + aw_budget a')"
    by (simp only: Cons.IH [OF 1(2)])
  also have "\<dots> = sum_list (map snd payments) + aw_budget a'"
    by (simp add: 1(3) add.assoc split: option.splits prod.splits)
  finally show ?case .
qed simp

definition sample_awards :: Awards where
  "sample_awards =
     \<lparr>aw_budget = 5, aw_difficulty = 4, validators_activity = [(1, Failed 3 7), (2, Active)]\<rparr>"

theorem awards_conserved_witness:
  "\<exists>a'. award_run [Epoch 7 [(1, Active), (3, Active)], Draw 0] sample_awards = Some ([(2, 12)], a') \<and>
        5 + (7 + 0) = (12 + 0) + aw_budget a'"
proof -
  obtain a' where a': "award_run [Epoch 7 [(1, Active), (3, Active)], Draw 0] sample_awards =
      Some ([(2, 12)], a')"
    by (simp add: sample_awards_def finalize_epoch_def add_reward_def activity_step_def check_winners_def
        chkbits_def be_bytes_def le_bytes_def upt_conv_Cons shrink_hash_bits abs_or_zero_def
        signed_simps)
  from awards_conserved [OF this] a' show ?thesis by (simp add: sample_awards_def)
qed



end
