(* ===== verification/Ledger.thy ===== *)
theory Ledger
  imports Election Payload Merkle
begin

text \<open>
  Transactions and blocks: the data and the hashes of \<open>blockchain/src/transaction.rs\<close>,
  \<open>blockchain/src/slashing.rs\<close>, \<open>blockchain/src/view_changes.rs\<close> and
  \<open>blockchain/src/block.rs\<close>, the construction of signed transactions, and the construction of
  micro and macro blocks with their Merkle roots. A slashing transaction carries two micro
  blocks and a micro block carries transactions, so these types are mutually recursive; the
  hash of a block is the hash of its header, so the hashes are not.
\<close>

section \<open>Transactions\<close>

record ServiceAwardTransaction =
  winner_reward :: "Output list"

record 'f CoinbaseTransaction =
  cb_block_reward :: i64
  cb_block_fee :: i64
  cb_gamma :: 'f
  cb_txouts :: "Output list"

record 'f PaymentTransaction =
  pt_txins :: "hash list"
  pt_txouts :: "Output list"
  pt_gamma :: 'f
  pt_fee :: i64
  pt_sig :: "'f SchnorrSig"

record RestakeTransaction =
  rt_txins :: "hash list"
  rt_txouts :: "Output list"
  rt_sig :: pbc_sig

text \<open>A time stamp is the number of nanoseconds since the epoch.\<close>

type_synonym Timestamp = u64

record MicroBlockHeader =
  mh_version :: u64
  mh_previous :: hash
  mh_epoch :: u64
  mh_offset :: u32
  mh_view_change :: u32
  mh_view_change_proof :: "ViewChangeProof option"
  mh_pkey :: pbc_pkey
  mh_random :: VRF
  mh_solution :: bytes
  mh_timestamp :: Timestamp
  mh_transactions_len :: u32
  mh_transactions_range_hash :: hash
  mh_inputs_len :: u32
  mh_inputs_range_hash :: hash
  mh_outputs_len :: u32
  mh_outputs_range_hash :: hash
  mh_canaries_range_hash :: hash

datatype 'f Transaction =
    CoinbaseTransaction "'f CoinbaseTransaction"
  | PaymentTransaction "'f PaymentTransaction"
  | RestakeTransaction RestakeTransaction
  | SlashingTransaction "'f SlashingTransaction"
  | ServiceAwardTransaction ServiceAwardTransaction
and 'f SlashingTransaction =
  MkSlashing (st_proof: "'f SlashingProof") (st_txins: "hash list") (st_txouts: "Output list")
and 'f SlashingProof =
  MkProof (block1: "'f MicroBlock") (block2: "'f MicroBlock")
and 'f MicroBlock =
  MkMicro (mb_header: MicroBlockHeader) (mb_sig: pbc_sig) (mb_transactions: "'f Transaction list")

definition VERSION :: u64 where
  "VERSION = 1"

section \<open>Hashes\<close>

definition hash_ServiceAward :: "ServiceAwardTransaction \<Rightarrow> bytes" where
  "hash_ServiceAward tx = hash_seq hash_Output (winner_reward tx)"

definition hash_ViewChangeProof :: "ViewChangeProof \<Rightarrow> bytes" where
  "hash_ViewChangeProof p = hash_Signature (multisig p)"

definition hash_MicroBlockHeader :: "MicroBlockHeader \<Rightarrow> bytes" where
  "hash_MicroBlockHeader h =
     hash_str ''Micro'' @ hash_u64 (mh_version h) @ hash_hash (mh_previous h)
     @ hash_u64 (mh_epoch h) @ hash_u32 (mh_offset h) @ hash_u32 (mh_view_change h)
     @ hash_option hash_ViewChangeProof (mh_view_change_proof h)
     @ hash_pbc_PublicKey (mh_pkey h) @ hash_VRF (mh_random h) @ mh_solution h
     @ hash_u64 (mh_timestamp h)
     @ hash_u32 (mh_transactions_len h) @ hash_hash (mh_transactions_range_hash h)
     @ hash_u32 (mh_inputs_len h) @ hash_hash (mh_inputs_range_hash h)
     @ hash_u32 (mh_outputs_len h) @ hash_hash (mh_outputs_range_hash h)
     @ hash_hash (mh_canaries_range_hash h)"

definition hash_MicroBlock :: "'f MicroBlock \<Rightarrow> bytes" where
  "hash_MicroBlock b = hash_MicroBlockHeader (mb_header b)"

definition hash_SlashingProof :: "'f SlashingProof \<Rightarrow> bytes" where
  "hash_SlashingProof p = hash_MicroBlock (block1 p) @ hash_MicroBlock (block2 p)"

definition hash_SlashingTransaction :: "'f SlashingTransaction \<Rightarrow> bytes" where
  "hash_SlashingTransaction tx =
     hash_SlashingProof (st_proof tx) @ hash_seq hash_hash (st_txins tx)
     @ hash_seq hash_Output (st_txouts tx)"

definition hash_CoinbaseTransaction :: "('g, 'f) crypto \<Rightarrow> 'f CoinbaseTransaction \<Rightarrow> bytes" where
  "hash_CoinbaseTransaction c tx =
     hash_i64 (cb_block_reward tx) @ hash_i64 (cb_block_fee tx) @ hash_Fr c (cb_gamma tx)
     @ hash_seq (\<lambda>output. hash_hash (digest c (hash_Output output))) (cb_txouts tx)"

definition hash_PaymentTransaction :: "('g, 'f) crypto \<Rightarrow> 'f PaymentTransaction \<Rightarrow> bytes" where
  "hash_PaymentTransaction c tx =
     hash_seq hash_hash (pt_txins tx) @ hash_seq hash_Output (pt_txouts tx)
     @ hash_Fr c (pt_gamma tx) @ hash_u64 (pt_fee tx)"

definition hash_RestakeTransaction :: "RestakeTransaction \<Rightarrow> bytes" where
  "hash_RestakeTransaction tx = hash_seq hash_hash (rt_txins tx) @ hash_seq hash_Output (rt_txouts tx)"

fun hash_Transaction :: "('g, 'f) crypto \<Rightarrow> 'f Transaction \<Rightarrow> bytes" where
  "hash_Transaction c (CoinbaseTransaction tx) = hash_CoinbaseTransaction c tx"
| "hash_Transaction c (PaymentTransaction tx) = hash_PaymentTransaction c tx"
| "hash_Transaction c (RestakeTransaction tx) = hash_RestakeTransaction tx"
| "hash_Transaction c (SlashingTransaction tx) = hash_SlashingTransaction tx"
| "hash_Transaction c (ServiceAwardTransaction tx) = hash_ServiceAward tx"

fun fullhash :: "('g, 'f) crypto \<Rightarrow> 'f Transaction \<Rightarrow> bytes" where
  "fullhash c (PaymentTransaction tx) =
     hash_Transaction c (PaymentTransaction tx) @ hash_SchnorrSig c (pt_sig tx)"
| "fullhash c (RestakeTransaction tx) =
     hash_Transaction c (RestakeTransaction tx) @ hash_Signature (rt_sig tx)"
| "fullhash c (CoinbaseTransaction tx) = hash_Transaction c (CoinbaseTransaction tx)"
| "fullhash c (SlashingTransaction tx) = hash_Transaction c (SlashingTransaction tx)"
| "fullhash c (ServiceAwardTransaction tx) = hash_Transaction c (ServiceAwardTransaction tx)"

fun tx_gamma :: "'f::zero Transaction \<Rightarrow> 'f" where
  "tx_gamma (CoinbaseTransaction tx) = cb_gamma tx"
| "tx_gamma (PaymentTransaction tx) = pt_gamma tx"
| "tx_gamma (RestakeTransaction _) = 0"
| "tx_gamma (SlashingTransaction _) = 0"
| "tx_gamma (ServiceAwardTransaction _) = 0"

fun tx_fee :: "'f Transaction \<Rightarrow> i64" where
  "tx_fee (CoinbaseTransaction _) = 0"
| "tx_fee (PaymentTransaction tx) = pt_fee tx"
| "tx_fee (RestakeTransaction _) = 0"
| "tx_fee (SlashingTransaction _) = 0"
| "tx_fee (ServiceAwardTransaction _) = 0"

fun txins :: "'f Transaction \<Rightarrow> hash list" where
  "txins (CoinbaseTransaction _) = []"
| "txins (PaymentTransaction tx) = pt_txins tx"
| "txins (RestakeTransaction tx) = rt_txins tx"
| "txins (SlashingTransaction tx) = st_txins tx"
| "txins (ServiceAwardTransaction _) = []"

fun txouts :: "'f Transaction \<Rightarrow> Output list" where
  "txouts (CoinbaseTransaction tx) = cb_txouts tx"
| "txouts (PaymentTransaction tx) = pt_txouts tx"
| "txouts (RestakeTransaction tx) = rt_txouts tx"
| "txouts (SlashingTransaction tx) = st_txouts tx"
| "txouts (ServiceAwardTransaction tx) = winner_reward tx"

fun to_type_str :: "'f Transaction \<Rightarrow> string" where
  "to_type_str (CoinbaseTransaction _) = ''CoinbaseTransaction''"
| "to_type_str (PaymentTransaction _) = ''PaymentTransaction''"
| "to_type_str (RestakeTransaction _) = ''RestakeTransaction''"
| "to_type_str (SlashingTransaction _) = ''SlashingTransaction''"
| "to_type_str (ServiceAwardTransaction _) = ''ServiceAwardTransaction''"

fun is_restaking :: "'f Transaction \<Rightarrow> bool" where
  "is_restaking (RestakeTransaction _) = True"
| "is_restaking _ = False"

definition cheater :: "'f SlashingTransaction \<Rightarrow> pbc_pkey option" where
  "cheater tx =
     (let p1 = mh_pkey (mb_header (block1 (st_proof tx)));
          p2 = mh_pkey (mb_header (block2 (st_proof tx)))
      in if p1 = p2 then Some p1 else None)"

section \<open>Making transactions\<close>

text \<open>
  The loop over the inputs of \<open>PaymentTransaction::unchecked\<close>: the effective secret key is the
  sum of the owner's key for every input and of \<open>delta * gamma\<close> of every cloaked one.
\<close>

fun effective_key ::
  "('g::zero, 'f::comm_ring_1) crypto \<Rightarrow> 'f \<Rightarrow> Output list \<Rightarrow> 'f \<times> 'f \<times> hash list \<Rightarrow>
     (OutputError, 'f \<times> 'f \<times> hash list) outcome" where
  "effective_key c skey [] acc = Ok acc"
| "effective_key c skey (txin # inputs) (eff_skey, gamma_adj, tins) =
     (let eff_skey = eff_skey + skey;
          h = digest c (hash_Output txin)
      in case txin of
           PaymentOutput o' \<Rightarrow>
             obind (output_decrypt_payload c o' (pkey_of_skey c skey) skey)
               (\<lambda>payload. effective_key c skey inputs
                  (eff_skey + pl_delta payload * pl_gamma payload, gamma_adj + pl_gamma payload,
                   tins @ [h]))
         | PublicPaymentOutput _ \<Rightarrow> effective_key c skey inputs (eff_skey, gamma_adj, tins @ [h])
         | StakeOutput _ \<Rightarrow> effective_key c skey inputs (eff_skey, gamma_adj, tins @ [h]))"

definition payment_unchecked ::
  "('g::zero, 'f::comm_ring_1) crypto \<Rightarrow> 'f \<Rightarrow> Output list \<Rightarrow> Output list \<Rightarrow> 'f \<Rightarrow> i64 \<Rightarrow>
     (OutputError, 'f PaymentTransaction) outcome" where
  "payment_unchecked c skey inputs outputs outputs_gamma fee =
     obind (effective_key c skey inputs (0, 0, []))
       (\<lambda>(eff_skey, gamma_adj, tins).
          let gamma_adj = gamma_adj - outputs_gamma;
              tx = \<lparr>pt_txins = tins, pt_txouts = outputs, pt_gamma = gamma_adj, pt_fee = fee,
                    pt_sig = schnorr_new c\<rparr>;
              tx_hash = digest c (hash_PaymentTransaction c tx)
          in Ok (tx\<lparr>pt_sig := sign_hash c tx_hash eff_skey\<rparr>))"

definition payment_new ::
  "('g::zero, 'f::comm_ring_1) crypto \<Rightarrow> 'f \<Rightarrow> Output list \<Rightarrow> Output list \<Rightarrow> 'f \<Rightarrow> i64 \<Rightarrow>
     (OutputError, 'f PaymentTransaction) outcome" where
  "payment_new c skey inputs outputs outputs_gamma fee =
     (if \<not> 0 \<le>s fee then Panic else payment_unchecked c skey inputs outputs outputs_gamma fee)"

definition new_super_transaction ::
  "('g::ab_group_add, 'f::comm_ring_1) crypto \<Rightarrow> 'f \<Rightarrow> 'f \<Rightarrow> 'g Pt \<Rightarrow> Output list \<Rightarrow> Output list \<Rightarrow>
     'f \<Rightarrow> i64 \<Rightarrow> 'f PaymentTransaction option" where
  "new_super_transaction c skey k_val sum_cap_k inputs outputs gamma_adj total_fee =
     (if \<not> 0 \<le>s total_fee then None
      else if \<not> (length inputs > 0 \<or> length outputs > 0) then None
      else
        let tins = map (\<lambda>txin. digest c (hash_Output txin)) inputs;
            sum_pkey = fold (\<lambda>txin acc. pt_add c acc (recipient_pkey txin)) inputs pt_inf;
            tx = \<lparr>pt_txins = tins, pt_txouts = outputs, pt_gamma = gamma_adj, pt_fee = total_fee,
                  pt_sig = schnorr_new c\<rparr>;
            tx_hash = digest c (hash_PaymentTransaction c tx)
        in map_option (\<lambda>s. tx\<lparr>pt_sig := s\<rparr>)
             (sign_hash_with_kval c tx_hash skey k_val sum_cap_k sum_pkey))"

text \<open>
  \<open>RestakeTransaction::unchecked\<close>, in its two loops. The accumulator of the inputs is the
  amount, the owner and the hashes; that of the outputs the amount and the new validator.
\<close>

fun restake_inputs ::
  "('g, 'f) crypto \<Rightarrow> hash \<Rightarrow> pbc_pkey \<Rightarrow> Output list \<Rightarrow> i64 \<times> 'g Pt option \<times> hash list \<Rightarrow>
     (BlockchainError, i64 \<times> 'g Pt option \<times> hash list) outcome" where
  "restake_inputs c htx pkey [] acc = Ok acc"
| "restake_inputs c htx pkey (txin # inputs) (inp_amt, owner, tins) =
     (let h = digest c (hash_Output txin) in
      case txin of
        StakeOutput o' \<Rightarrow>
          if pkey \<noteq> so_validator o' then txErr (RestakingValidatorKeyMismatch htx h)
          else (case owner of
              None \<Rightarrow> restake_inputs c htx pkey inputs
                        (inp_amt + so_amount o', Some (recipient_pkey txin), tins @ [h])
            | Some owner_ecp \<Rightarrow>
                if \<not> pt_eq c owner_ecp (recipient_pkey txin) then txErr (MixedRestakingOwners htx h)
                else restake_inputs c htx pkey inputs (inp_amt + so_amount o', owner, tins @ [h]))
      | _ \<Rightarrow> txErr (InvalidRestakingInput htx h))"

fun restake_outputs ::
  "('g, 'f) crypto \<Rightarrow> hash \<Rightarrow> 'g Pt \<Rightarrow> Output list \<Rightarrow> i64 \<times> pbc_pkey option \<Rightarrow>
     (BlockchainError, i64 \<times> pbc_pkey option) outcome" where
  "restake_outputs c htx owner [] acc = Ok acc"
| "restake_outputs c htx owner (txout # outputs) (out_amt, new_validator) =
     obind (validate_Output c txout)
       (\<lambda>_. let h = digest c (hash_Output txout) in
          case txout of
            StakeOutput o' \<Rightarrow>
              if \<not> pt_eq c (recipient_pkey txout) owner then txErr (MixedRestakingOwners htx h)
              else (case new_validator of
                  None \<Rightarrow> restake_outputs c htx owner outputs
                            (out_amt + so_amount o', Some (so_validator o'))
                | Some nv \<Rightarrow>
                    if nv \<noteq> so_validator o' then txErr (MixedTxoutValidators htx h)
                    else restake_outputs c htx owner outputs (out_amt + so_amount o', new_validator))
          | _ \<Rightarrow> txErr (InvalidRestakingOutput htx h))"

definition restake_unchecked ::
  "('g, 'f) crypto \<Rightarrow> pbc_skey \<Rightarrow> pbc_pkey \<Rightarrow> Output list \<Rightarrow> Output list \<Rightarrow>
     (BlockchainError, RestakeTransaction) outcome" where
  "restake_unchecked c skey pkey inputs outputs =
     (let htx = digest c (hash_str '''') in
      obind (restake_inputs c htx pkey inputs (0, None, []))
        (\<lambda>(inp_amt, owner, tins).
           case owner of
             None \<Rightarrow> txErr (NoRestakingTxins htx)
           | Some owner \<Rightarrow>
               obind (restake_outputs c htx owner outputs (0, None))
                 (\<lambda>(out_amt, _).
                    if out_amt \<noteq> inp_amt then txErr (ImbalancedRestaking htx)
                    else
                      let tx = \<lparr>rt_txins = tins, rt_txouts = outputs, rt_sig = g1_zero c\<rparr>;
                          h = digest c (hash_RestakeTransaction tx)
                      in Ok (tx\<lparr>rt_sig := pbc_sign_hash c h skey\<rparr>))))"

section \<open>Micro blocks\<close>

record RangeHashes =
  transactions_range_hash :: hash
  inputs_range_hash :: hash
  outputs_range_hash :: hash
  canaries_range_hash :: hash
  transaction_hashes :: "hash list"
  input_hashes :: "hash list"
  output_hashes :: "hash list"
  canary_hashes :: "hash list"

definition output_digest :: "('g, 'f) crypto \<Rightarrow> Output \<Rightarrow> hash" where
  "output_digest c o' = digest c (hash_Output o')"

text \<open>The hashes of the canaries; \<open>None\<close> is the panic on a short payload.\<close>

fun canary_digests :: "('g, 'f) crypto \<Rightarrow> Output list \<Rightarrow> hash list option" where
  "canary_digests c [] = Some []"
| "canary_digests c (o' # os) =
     Option.bind (canary o') (\<lambda>can. map_option (\<lambda>hs. digest c (hash_Canary can) # hs) (canary_digests c os))"

abbreviation merkle_root :: "('g, 'f) crypto \<Rightarrow> hash list \<Rightarrow> hash option" where
  "merkle_root c hs \<equiv> root_hash_from_array (digest c) hash_hash hs"

definition calculate_range_hashes ::
  "('g, 'f) crypto \<Rightarrow> 'f Transaction list \<Rightarrow> RangeHashes option" where
  "calculate_range_hashes c transactions =
     (let tx_hashes = map (\<lambda>tx. digest c (fullhash c tx)) transactions;
          in_hashes = concat (map txins transactions);
          outs = concat (map txouts transactions);
          out_hashes = map (output_digest c) outs
      in Option.bind (canary_digests c outs) (\<lambda>can_hashes.
         if length out_hashes \<noteq> length can_hashes then None
         else
           Option.bind (merkle_root c tx_hashes) (\<lambda>tx_root.
           Option.bind (merkle_root c in_hashes) (\<lambda>in_root.
           Option.bind (merkle_root c out_hashes) (\<lambda>out_root.
           Option.bind (merkle_root c can_hashes) (\<lambda>can_root.
             Some \<lparr>transactions_range_hash = tx_root, inputs_range_hash = in_root,
                   outputs_range_hash = out_root, canaries_range_hash = can_root,
                   transaction_hashes = tx_hashes, input_hashes = in_hashes,
                   output_hashes = out_hashes, canary_hashes = can_hashes\<rparr>))))))"

definition MicroBlock_new ::
  "('g, 'f) crypto \<Rightarrow> hash \<Rightarrow> u64 \<Rightarrow> u32 \<Rightarrow> u32 \<Rightarrow> ViewChangeProof option \<Rightarrow> pbc_pkey \<Rightarrow> VRF \<Rightarrow>
     bytes \<Rightarrow> Timestamp \<Rightarrow> 'f Transaction list \<Rightarrow> 'f MicroBlock option" where
  "MicroBlock_new c previous epoch offset view_change view_change_proof pkey random solution
     timestamp transactions =
     (if \<not> length transactions \<le> unat (- 1 :: u32) then None
      else
        Option.bind (calculate_range_hashes c transactions) (\<lambda>r.
          if length (transaction_hashes r) \<noteq> length transactions
             \<or> \<not> length (input_hashes r) \<le> unat (- 1 :: u32)
             \<or> \<not> length (output_hashes r) \<le> unat (- 1 :: u32)
             \<or> length (output_hashes r) \<noteq> length (canary_hashes r) then None
          else
            let header = \<lparr>mh_version = VERSION, mh_previous = previous, mh_epoch = epoch,
                  mh_offset = offset, mh_view_change = view_change,
                  mh_view_change_proof = view_change_proof, mh_pkey = pkey, mh_random = random,
                  mh_solution = solution, mh_timestamp = timestamp,
                  mh_transactions_len = of_nat (length transactions),
                  mh_transactions_range_hash = transactions_range_hash r,
                  mh_inputs_len = of_nat (length (input_hashes r)),
                  mh_inputs_range_hash = inputs_range_hash r,
                  mh_outputs_len = of_nat (length (output_hashes r)),
                  mh_outputs_range_hash = outputs_range_hash r,
                  mh_canaries_range_hash = canaries_range_hash r\<rparr>
            in Some (MkMicro header (g1_zero c) transactions)))"

definition MicroBlock_sign ::
  "('g, 'f) crypto \<Rightarrow> pbc_skey \<Rightarrow> pbc_pkey \<Rightarrow> 'f MicroBlock \<Rightarrow> 'f MicroBlock option" where
  "MicroBlock_sign c skey pkey b =
     (if mh_pkey (mb_header b) \<noteq> pkey then None
      else
        let h = digest c (hash_MicroBlockHeader (mb_header b))
        in Some (MkMicro (mb_header b) (pbc_sign_hash c h skey) (mb_transactions b)))"

definition mb_inputs :: "'f MicroBlock \<Rightarrow> hash list" where
  "mb_inputs b = concat (map txins (mb_transactions b))"

definition mb_outputs :: "'f MicroBlock \<Rightarrow> Output list" where
  "mb_outputs b = concat (map txouts (mb_transactions b))"

section \<open>Macro blocks\<close>

record 'f MacroBlockHeader =
  ah_version :: u64
  ah_previous :: hash
  ah_epoch :: u64
  ah_view_change :: u32
  ah_pkey :: pbc_pkey
  ah_random :: VRF
  ah_difficulty :: u64
  ah_timestamp :: Timestamp
  ah_block_reward :: i64
  ah_gamma :: 'f
  ah_activity_map :: "bool list"
  ah_validators_len :: u32
  ah_validators_range_hash :: hash
  ah_inputs_len :: u32
  ah_inputs_range_hash :: hash
  ah_outputs_len :: u32
  ah_outputs_range_hash :: hash
  ah_canaries_range_hash :: hash

definition hash_MacroBlockHeader :: "('g, 'f) crypto \<Rightarrow> 'f MacroBlockHeader \<Rightarrow> bytes" where
  "hash_MacroBlockHeader c h =
     hash_str ''Macro'' @ hash_u64 (ah_version h) @ hash_hash (ah_previous h)
     @ hash_u64 (ah_epoch h) @ hash_u32 (ah_view_change h) @ hash_pbc_PublicKey (ah_pkey h)
     @ hash_VRF (ah_random h) @ hash_u64 (ah_difficulty h) @ hash_u64 (ah_timestamp h)
     @ hash_i64 (ah_block_reward h) @ hash_Fr c (ah_gamma h)
     @ hash_u32 (of_nat (length (ah_activity_map h)))
     @ concat (map hash_bool (ah_activity_map h))
     @ hash_u32 (ah_validators_len h) @ hash_hash (ah_validators_range_hash h)
     @ hash_u32 (ah_inputs_len h) @ hash_hash (ah_inputs_range_hash h)
     @ hash_u32 (ah_outputs_len h) @ hash_hash (ah_outputs_range_hash h)
     @ hash_hash (ah_canaries_range_hash h)"

text \<open>The multi-signature is a point that may fail to decode (\<open>None\<close>).\<close>

record 'f MacroBlock =
  ab_header :: "'f MacroBlockHeader"
  ab_multisig :: G1
  ab_multisigmap :: "bool list"
  ab_inputs :: "hash list"
  ab_outputs :: "Output list"

definition hash_MacroBlock :: "('g, 'f) crypto \<Rightarrow> 'f MacroBlock \<Rightarrow> bytes" where
  "hash_MacroBlock c b = hash_MacroBlockHeader c (ab_header b)"

definition macro_digest :: "('g, 'f) crypto \<Rightarrow> 'f MacroBlock \<Rightarrow> hash" where
  "macro_digest c b = digest c (hash_MacroBlock c b)"

definition MacroBlock_new ::
  "('g, 'f) crypto \<Rightarrow> hash \<Rightarrow> u64 \<Rightarrow> u32 \<Rightarrow> pbc_pkey \<Rightarrow> VRF \<Rightarrow> u64 \<Rightarrow> Timestamp \<Rightarrow> i64 \<Rightarrow> 'f \<Rightarrow>
     bool list \<Rightarrow> StakersGroup \<Rightarrow> hash list \<Rightarrow> Output list \<Rightarrow> 'f MacroBlock option" where
  "MacroBlock_new c previous epoch view_change pkey random difficulty timestamp block_reward gamma
     activity_map validators inputs outputs =
     (if \<not> length validators < unat (- 1 :: u32) \<or> \<not> length inputs \<le> unat (- 1 :: u32)
         \<or> \<not> length outputs \<le> unat (- 1 :: u32) then None
      else
        let inputs = sort inputs;
            outputs = sort_key (output_digest c) outputs
        in Option.bind (root_hash_from_array (digest c) (hash_pair hash_pbc_PublicKey hash_i64) validators)
             (\<lambda>validators_root.
           Option.bind (merkle_root c inputs) (\<lambda>in_root.
           Option.bind (merkle_root c (map (output_digest c) outputs)) (\<lambda>out_root.
           Option.bind (canary_digests c outputs) (\<lambda>can_hashes.
           Option.bind (merkle_root c can_hashes) (\<lambda>can_root.
             let header = \<lparr>ah_version = VERSION, ah_previous = previous, ah_epoch = epoch,
                   ah_view_change = view_change, ah_pkey = pkey, ah_random = random,
                   ah_difficulty = difficulty, ah_timestamp = timestamp,
                   ah_block_reward = block_reward, ah_gamma = gamma, ah_activity_map = activity_map,
                   ah_validators_len = of_nat (length validators),
                   ah_validators_range_hash = validators_root,
                   ah_inputs_len = of_nat (length inputs), ah_inputs_range_hash = in_root,
                   ah_outputs_len = of_nat (length outputs), ah_outputs_range_hash = out_root,
                   ah_canaries_range_hash = can_root\<rparr>
             in Some \<lparr>ab_header = header, ab_multisig = Some (g1_zero c), ab_multisigmap = [],
                      ab_inputs = inputs, ab_outputs = outputs\<rparr>))))))"

text \<open>
  The loops of \<open>from_transactions\<close>: the sum of the gamma adjustments, the set of inputs and
  the map of outputs by hash.
\<close>

fun collect_inputs :: "hash \<Rightarrow> hash list \<Rightarrow> (hash, unit) btree \<Rightarrow> (TransactionError, (hash, unit) btree) outcome" where
  "collect_inputs htx [] ins = Ok ins"
| "collect_inputs htx (h # hs) ins =
     (if bt_get ins h \<noteq> None then Err (DuplicateInput htx h)
      else collect_inputs htx hs (bt_put h () ins))"

fun collect_outputs ::
  "('g, 'f) crypto \<Rightarrow> hash \<Rightarrow> Output list \<Rightarrow> (hash, Output) btree \<Rightarrow>
     (TransactionError, (hash, Output) btree) outcome" where
  "collect_outputs c htx [] outs = Ok outs"
| "collect_outputs c htx (o' # os) outs =
     (if bt_get outs (output_digest c o') \<noteq> None then Err (DuplicateOutput htx (output_digest c o'))
      else collect_outputs c htx os (bt_put (output_digest c o') o' outs))"

fun collect_transactions ::
  "('g, 'f::comm_ring_1) crypto \<Rightarrow> 'f Transaction list \<Rightarrow> 'f \<times> (hash, unit) btree \<times> (hash, Output) btree \<Rightarrow>
     (TransactionError, 'f \<times> (hash, unit) btree \<times> (hash, Output) btree) outcome" where
  "collect_transactions c [] acc = Ok acc"
| "collect_transactions c (tx # txs) (gamma, ins, outs) =
     obind (collect_inputs (digest c (hash_Transaction c tx)) (txins tx) ins) (\<lambda>ins.
     obind (collect_outputs c (digest c (hash_Transaction c tx)) (txouts tx) outs) (\<lambda>outs.
       collect_transactions c txs (gamma + tx_gamma tx, ins, outs)))"

definition from_transactions ::
  "('g, 'f::comm_ring_1) crypto \<Rightarrow> hash \<Rightarrow> u64 \<Rightarrow> u32 \<Rightarrow> pbc_pkey \<Rightarrow> VRF \<Rightarrow> u64 \<Rightarrow> Timestamp \<Rightarrow> i64 \<Rightarrow>
     bool list \<Rightarrow> StakersGroup \<Rightarrow> 'f Transaction list \<Rightarrow> (TransactionError, 'f MacroBlock) outcome" where
  "from_transactions c previous epoch view_change pkey random difficulty timestamp block_reward
     activity_map validators transactions =
     obind (collect_transactions c transactions (0, [], []))
       (\<lambda>(gamma, ins, outs).
          or_panic (MacroBlock_new c previous epoch view_change pkey random difficulty timestamp
            block_reward gamma activity_map validators (map fst ins) (map snd outs)))"

datatype 'f Block = MacroBlock "'f MacroBlock" | MicroBlock "'f MicroBlock"

fun unwrap_micro :: "'f Block \<Rightarrow> 'f MicroBlock option" where
  "unwrap_micro (MicroBlock b) = Some b"
| "unwrap_micro (MacroBlock _) = None"

fun unwrap_macro :: "'f Block \<Rightarrow> 'f MacroBlock option" where
  "unwrap_macro (MacroBlock b) = Some b"
| "unwrap_macro (MicroBlock _) = None"

fun hash_Block :: "('g, 'f) crypto \<Rightarrow> 'f Block \<Rightarrow> bytes" where
  "hash_Block c (MacroBlock b) = hash_MacroBlock c b"
| "hash_Block c (MicroBlock b) = hash_MicroBlock b"

end
