(* ===== verification/Validation.thy ===== *)
theory Validation
  imports Ledger Escrow
begin

text \<open>
  The validation of transactions on their own, \<open>blockchain/src/validation.rs\<close>: coinbase,
  payment and restake transactions, and the monetary balance of a macro block. The checks of
  inputs that run only with debug assertions are left out, as in a release build. The theory
  shows what an accepted payment guarantees, that an honestly made payment is accepted, and
  three inputs that the checks treat in an unintended way.
\<close>

section \<open>Coinbase\<close>

fun coinbase_outputs ::
  "('g::plus, 'f) crypto \<Rightarrow> hash \<Rightarrow> Output list \<Rightarrow> 'g Pt \<Rightarrow> (BlockchainError, 'g Pt) outcome" where
  "coinbase_outputs c tx_hash [] mined = Ok mined"
| "coinbase_outputs c tx_hash (PaymentOutput o' # outputs) mined =
     obind (validate_Output c (PaymentOutput o')) (\<lambda>_.
     obind (or_panic (pedersen_commitment c (PaymentOutput o'))) (\<lambda>cmt.
       coinbase_outputs c tx_hash outputs (pt_add c mined cmt)))"
| "coinbase_outputs c tx_hash (output # outputs) mined =
     txErr (NonPaymentOutputInCoinbase tx_hash (output_digest c output))"

definition validate_CoinbaseTransaction ::
  "('g::ab_group_add, 'f) crypto \<Rightarrow> 'f CoinbaseTransaction \<Rightarrow> (BlockchainError, unit) outcome" where
  "validate_CoinbaseTransaction c tx =
     (let tx_hash = digest c (hash_CoinbaseTransaction c tx) in
      if cb_block_reward tx <s 0 then txErr (NegativeReward tx_hash)
      else if cb_block_fee tx <s 0 then txErr (NegativeFee tx_hash)
      else
        obind (coinbase_outputs c tx_hash (cb_txouts tx) pt_inf) (\<lambda>mined.
          let total_fee = cb_block_reward tx + cb_block_fee tx
          in obind (or_panic (fee_a c total_fee)) (\<lambda>fee.
               if \<not> pt_eq c (pt_add c mined (pt_mul c (pt_one c) (cb_gamma tx))) fee
               then txErr (InvalidMonetaryBalance tx_hash)
               else Ok ())))"

section \<open>Payments\<close>

text \<open>
  The loops of \<open>PaymentTransaction::validate\<close>. The first accumulates the sum of the input
  commitments and the effective key, with the hashes seen so far; the second the sum of the
  output commitments and the effective key.
\<close>

fun payment_inputs ::
  "('g::ab_group_add, 'f) crypto \<Rightarrow> hash \<Rightarrow> (hash \<times> Output) list \<Rightarrow> hash set \<Rightarrow> 'g Pt \<times> 'g Pt \<Rightarrow>
     (BlockchainError, 'g Pt \<times> 'g Pt) outcome" where
  "payment_inputs c tx_hash [] seen acc = Ok acc"
| "payment_inputs c tx_hash ((txin_hash, txin) # ins) seen (txin_sum, eff_pkey) =
     (if output_digest c txin \<noteq> txin_hash then Panic
      else if txin_hash \<in> seen then txErr (DuplicateInput tx_hash txin_hash)
      else
        obind (or_panic (pedersen_commitment c txin)) (\<lambda>cmt.
          payment_inputs c tx_hash ins (insert txin_hash seen)
            (pt_add c txin_sum cmt, pt_add c eff_pkey (pt_add c (recipient_pkey txin) cmt))))"

fun payment_outputs ::
  "('g::ab_group_add, 'f) crypto \<Rightarrow> hash \<Rightarrow> Output list \<Rightarrow> hash set \<Rightarrow> 'g Pt \<times> 'g Pt \<Rightarrow>
     (BlockchainError, 'g Pt \<times> 'g Pt) outcome" where
  "payment_outputs c tx_hash [] seen acc = Ok acc"
| "payment_outputs c tx_hash (txout # outs) seen (txout_sum, eff_pkey) =
     (let txout_hash = output_digest c txout in
      if txout_hash \<in> seen then txErr (DuplicateOutput tx_hash txout_hash)
      else
        obind (or_panic (pedersen_commitment c txout)) (\<lambda>cmt.
          payment_outputs c tx_hash outs (insert txout_hash seen)
            (pt_add c txout_sum cmt, pt_sub c eff_pkey cmt)))"

definition validate_PaymentTransaction ::
  "('g::ab_group_add, 'f) crypto \<Rightarrow> 'f PaymentTransaction \<Rightarrow> Output list \<Rightarrow>
     (BlockchainError, unit) outcome" where
  "validate_PaymentTransaction c tx inputs =
     (let tx_hash = digest c (hash_PaymentTransaction c tx) in
      if length (pt_txins tx) \<noteq> length inputs then Panic
      else if pt_txins tx = [] then txErr (NoInputs tx_hash)
      else if pt_fee tx <s 0 then txErr (NegativeFee tx_hash)
      else
        obind (payment_inputs c tx_hash (zip (pt_txins tx) inputs) {} (pt_inf, pt_inf))
          (\<lambda>(txin_sum, eff_pkey).
        obind (payment_outputs c tx_hash (pt_txouts tx) {} (pt_inf, eff_pkey))
          (\<lambda>(txout_sum, eff_pkey).
        obind (or_panic (fr_of_i64 c (pt_fee tx))) (\<lambda>fee.
          let adj = simple_commit c (pt_gamma tx) fee
          in if \<not> pt_eq c txin_sum (pt_add c txout_sum adj)
             then txErr (InvalidMonetaryBalance tx_hash)
             else
               case validate_sig c tx_hash (pt_sig tx) (pt_sub c eff_pkey adj) of
                 Ok _ \<Rightarrow> Ok ()
               | Err _ \<Rightarrow> txErr (TransactionError.InvalidSignature tx_hash)
               | Panic \<Rightarrow> Panic))))"

section \<open>Restaking\<close>

fun restake_check_inputs ::
  "('g, 'f) crypto \<Rightarrow> hash \<Rightarrow> (hash \<times> Output) list \<Rightarrow> hash set \<Rightarrow> pbc_pkey option \<times> i64 \<Rightarrow>
     (BlockchainError, pbc_pkey option \<times> i64) outcome" where
  "restake_check_inputs c tx_hash [] seen acc = Ok acc"
| "restake_check_inputs c tx_hash ((txin_hash, txin) # ins) seen (eff_vkey, txin_sum) =
     (if output_digest c txin \<noteq> txin_hash then Panic
      else if txin_hash \<in> seen then txErr (DuplicateInput tx_hash txin_hash)
      else (case txin of
          StakeOutput o' \<Rightarrow>
            (case eff_vkey of
               None \<Rightarrow> restake_check_inputs c tx_hash ins (insert txin_hash seen)
                         (Some (so_validator o'), txin_sum + so_amount o')
             | Some v \<Rightarrow>
                 if v \<noteq> so_validator o' then txErr (MixedRestakingOwners tx_hash txin_hash)
                 else restake_check_inputs c tx_hash ins (insert txin_hash seen)
                        (eff_vkey, txin_sum + so_amount o'))
        | _ \<Rightarrow> txErr (InvalidRestakingInput tx_hash txin_hash)))"

fun restake_check_outputs ::
  "('g, 'f) crypto \<Rightarrow> hash \<Rightarrow> Output list \<Rightarrow> hash set \<Rightarrow> pbc_pkey option \<times> i64 \<Rightarrow>
     (BlockchainError, pbc_pkey option \<times> i64) outcome" where
  "restake_check_outputs c tx_hash [] seen acc = Ok acc"
| "restake_check_outputs c tx_hash (txout # outs) seen (out_pkey, txout_sum) =
     (let txout_hash = output_digest c txout in
      if txout_hash \<in> seen then txErr (DuplicateOutput tx_hash txout_hash)
      else obind (validate_Output c txout) (\<lambda>_.
        case txout of
          StakeOutput o' \<Rightarrow>
            (case out_pkey of
               None \<Rightarrow> restake_check_outputs c tx_hash outs (insert txout_hash seen)
                         (Some (so_validator o'), txout_sum + so_amount o')
             | Some v \<Rightarrow>
                 if v \<noteq> so_validator o' then txErr (MixedRestakingOwners tx_hash txout_hash)
                 else restake_check_outputs c tx_hash outs (insert txout_hash seen)
                        (out_pkey, txout_sum + so_amount o'))
        | _ \<Rightarrow> txErr (InvalidRestakingOutput tx_hash txout_hash)))"

definition validate_RestakeTransaction ::
  "('g, 'f) crypto \<Rightarrow> RestakeTransaction \<Rightarrow> Output list \<Rightarrow> (BlockchainError, unit) outcome" where
  "validate_RestakeTransaction c tx inputs =
     (let tx_hash = digest c (hash_RestakeTransaction tx) in
      if length (rt_txins tx) \<noteq> length inputs then Panic
      else if rt_txins tx = [] then txErr (NoInputs tx_hash)
      else
        obind (restake_check_inputs c tx_hash (zip (rt_txins tx) inputs) {} (None, 0))
          (\<lambda>(eff_vkey, txin_sum).
          case eff_vkey of
            None \<Rightarrow> txErr (NoRestakingTxins tx_hash)
          | Some eff_vkey \<Rightarrow>
              obind (restake_check_outputs c tx_hash (rt_txouts tx) {} (None, 0))
                (\<lambda>(_, txout_sum).
                   if txin_sum \<noteq> txout_sum then txErr (InvalidMonetaryBalance tx_hash)
                   else if \<not> is_ok (check_hash c tx_hash (Some (rt_sig tx)) (Some eff_vkey))
                   then txErr (TransactionError.InvalidSignature tx_hash)
                   else Ok ())))"

section \<open>Balance of a macro block\<close>

fun macro_balance_inputs ::
  "('g::plus, 'f) crypto \<Rightarrow> (hash \<times> Output) list \<Rightarrow> 'g Pt \<Rightarrow> 'g Pt option" where
  "macro_balance_inputs c [] diff = Some diff"
| "macro_balance_inputs c ((txin_hash, txin) # ins) diff =
     (if output_digest c txin \<noteq> txin_hash then None
      else Option.bind (pedersen_commitment c txin)
             (\<lambda>cmt. macro_balance_inputs c ins (pt_add c diff cmt)))"

fun macro_balance_outputs ::
  "('g::group_add, 'f) crypto \<Rightarrow> Output list \<Rightarrow> 'g Pt \<Rightarrow> (BlockchainError, 'g Pt) outcome" where
  "macro_balance_outputs c [] diff = Ok diff"
| "macro_balance_outputs c (txout # outs) diff =
     obind (validate_Output c txout) (\<lambda>_.
     obind (or_panic (pedersen_commitment c txout)) (\<lambda>cmt.
       macro_balance_outputs c outs (pt_sub c diff cmt)))"

definition validate_balance ::
  "('g::ab_group_add, 'f) crypto \<Rightarrow> 'f MacroBlock \<Rightarrow> Output list \<Rightarrow> (BlockchainError, unit) outcome" where
  "validate_balance c b inputs =
     obind (or_panic (fee_a c (ah_block_reward (ab_header b)))) (\<lambda>diff.
     obind (or_panic (macro_balance_inputs c (zip (ab_inputs b) inputs) diff)) (\<lambda>diff.
     obind (macro_balance_outputs c (ab_outputs b) diff) (\<lambda>diff.
       if \<not> pt_eq c diff (pt_mul c (pt_one c) (ah_gamma (ab_header b)))
       then blockErr (InvalidBlockBalance (ah_epoch (ab_header b)) (macro_digest c b))
       else Ok ())))"

section \<open>Values of commitments and keys\<close>

text \<open>The group elements an output stands for: its commitment and its recipient key.\<close>

definition cmt_val :: "('g, 'f) crypto \<Rightarrow> Output \<Rightarrow> 'g option" where
  "cmt_val c o' = Option.bind (pedersen_commitment c o') (pt_val c)"

definition key_val :: "('g, 'f) crypto \<Rightarrow> Output \<Rightarrow> 'g option" where
  "key_val c o' = pt_val c (recipient_pkey o')"

fun sum_vals :: "'g::monoid_add option list \<Rightarrow> 'g option" where
  "sum_vals [] = Some 0"
| "sum_vals (v # vs) = Option.bind v (\<lambda>x. map_option (\<lambda>s. x + s) (sum_vals vs))"

lemma sum_vals_Some: "(\<forall>x \<in> set xs. f x = Some (g x)) \<Longrightarrow> sum_vals (map f xs) = Some (sum_list (map g xs))"
  by (induction xs) auto

lemma pt_val_PtRaw: "pt_val c (pt_add c p q) = Some x \<Longrightarrow> pt_add c p q = PtRaw x"
  by (cases p; cases q) (auto split: option.splits)

lemma pt_add_PtNone: "pt_val c (pt_add c p q) = None \<Longrightarrow> pt_add c p q = PtNone"
  by (cases p; cases q) (auto split: option.splits)

lemma payment_inputs_hashes:
  "payment_inputs c tx_hash ins seen acc = Ok acc' \<Longrightarrow>
   (\<forall>i \<in> set ins. fst i = output_digest c (snd i) \<and> fst i \<notin> seen) \<and> distinct (map fst ins)"
proof (induction ins arbitrary: seen acc)
  case (Cons i ins)
  obtain h o' s k where i: "i = (h, o')" "acc = (s, k)" by (cases i; cases acc)
  with Cons.prems obtain acc1 where "h = output_digest c o'" "h \<notin> seen"
    "payment_inputs c tx_hash ins (insert h seen) acc1 = Ok acc'"
    by (auto simp: outcome_simps split: if_splits)
  with Cons.IH [of "insert h seen" acc1] i show ?case by auto
qed simp

lemma payment_inputs_sum:
  "payment_inputs c tx_hash ins seen (s, k) = Ok (s', k') \<Longrightarrow>
   pt_val c s' = (case (pt_val c s, sum_vals (map (cmt_val c \<circ> snd) ins)) of
      (Some x, Some v) \<Rightarrow> Some (x + v) | _ \<Rightarrow> None)"
proof (induction ins arbitrary: seen s k)
  case (Cons i ins)
  then show ?case
    by (cases i)
       (auto simp: outcome_simps pt_simps cmt_val_def algebra_simps split: if_splits option.splits bind_splits)
qed (simp split: option.splits)

lemma payment_inputs_key:
  "payment_inputs c tx_hash ins seen (s, k) = Ok (s', k') \<Longrightarrow>
   pt_val c k' = (case (pt_val c k, sum_vals (map (key_val c \<circ> snd) ins), sum_vals (map (cmt_val c \<circ> snd) ins)) of
      (Some y, Some u, Some v) \<Rightarrow> Some (y + u + v) | _ \<Rightarrow> None)"
proof (induction ins arbitrary: seen s k)
  case (Cons i ins)
  then show ?case
    by (cases i)
       (auto simp: outcome_simps pt_simps cmt_val_def key_val_def algebra_simps
         split: if_splits option.splits bind_splits)
qed (simp split: option.splits)

lemma payment_inputs_run:
  assumes "map fst ins = map (output_digest c \<circ> snd) ins" "distinct (map fst ins)" "set (map fst ins) \<inter> seen = {}"
    "\<forall>i \<in> set ins. pedersen_commitment c (snd i) \<noteq> None"
  shows "\<exists>s' k'. payment_inputs c tx_hash ins seen (s, k) = Ok (s', k')"
  using assms
proof (induction ins arbitrary: seen s k)
  case (Cons i ins)
  then show ?case by (cases i) (auto simp: comp_def)
qed simp

lemma payment_outputs_hashes:
  "payment_outputs c tx_hash outs seen acc = Ok acc' \<Longrightarrow>
   distinct (map (output_digest c) outs) \<and> output_digest c ` set outs \<inter> seen = {}"
proof (induction outs arbitrary: seen acc)
  case (Cons o' outs)
  obtain s k where acc: "acc = (s, k)" by (cases acc)
  with Cons.prems obtain acc1 where "output_digest c o' \<notin> seen"
    "payment_outputs c tx_hash outs (insert (output_digest c o') seen) acc1 = Ok acc'"
    by (auto simp: outcome_simps Let_def split: if_splits)
  with Cons.IH [of "insert (output_digest c o') seen" acc1] show ?case by auto
qed simp

lemma payment_outputs_sum:
  "payment_outputs c tx_hash outs seen (s, k) = Ok (s', k') \<Longrightarrow>
   pt_val c s' = (case (pt_val c s, sum_vals (map (cmt_val c) outs)) of
      (Some x, Some v) \<Rightarrow> Some (x + v) | _ \<Rightarrow> None) \<and>
   pt_val c k' = (case (pt_val c k, sum_vals (map (cmt_val c) outs)) of
      (Some y, Some v) \<Rightarrow> Some (y - v) | _ \<Rightarrow> None)"
proof (induction outs arbitrary: seen s k)
  case (Cons o' outs)
  then show ?case
    by (auto simp: outcome_simps pt_simps cmt_val_def Let_def algebra_simps
         split: if_splits option.splits bind_splits)
qed (simp split: option.splits)

lemma payment_outputs_run:
  assumes "distinct (map (output_digest c) outs)" "output_digest c ` set outs \<inter> seen = {}"
    "\<forall>o' \<in> set outs. pedersen_commitment c o' \<noteq> None"
  shows "\<exists>s' k'. payment_outputs c tx_hash outs seen (s, k) = Ok (s', k')"
  using assms
proof (induction outs arbitrary: seen s k)
  case (Cons o' outs)
  then show ?case by (auto simp: Let_def)
qed simp

text \<open>What the checks before the signature establish, and the key the signature is checked with.\<close>

lemma validate_payment_OkD:
  assumes "validate_PaymentTransaction c tx inputs = Ok ()"
  obtains s k s' k' where
    "length (pt_txins tx) = length inputs" "pt_txins tx \<noteq> []" "\<not> pt_fee tx <s 0"
    "payment_inputs c (digest c (hash_PaymentTransaction c tx)) (zip (pt_txins tx) inputs) {}
       (pt_inf, pt_inf) = Ok (s, k)"
    "payment_outputs c (digest c (hash_PaymentTransaction c tx)) (pt_txouts tx) {} (pt_inf, k) = Ok (s', k')"
    "pt_eq c s (pt_add c s' (simple_commit c (pt_gamma tx) (scalar_of_u64 c (pt_fee tx))))"
    "validate_sig c (digest c (hash_PaymentTransaction c tx)) (pt_sig tx)
       (pt_sub c k' (simple_commit c (pt_gamma tx) (scalar_of_u64 c (pt_fee tx)))) = Ok ()"
  using assms
  by (auto simp: validate_PaymentTransaction_def Let_def outcome_simps fr_of_i64_def
      split: if_splits outcome.splits)

lemma validate_sig_PtNone: "validate_sig c h sig PtNone = Panic"
  by (simp add: validate_sig_def hash_PublicKey_def hash_Pt_def)

text \<open>What the checks before the signature establish, and the key the signature is checked with.\<close>

lemma validate_payment_balanced:
  assumes "validate_PaymentTransaction c tx inputs = Ok ()"
  shows "\<exists>vin vout keys.
    sum_vals (map (cmt_val c) inputs) = Some vin \<and> sum_vals (map (cmt_val c) (pt_txouts tx)) = Some vout \<and>
    sum_vals (map (key_val c) inputs) = Some keys \<and>
    vin = vout + smul c (pt_gamma tx) (B_blinding c) + smul c (scalar_of_u64 c (pt_fee tx)) (B_base c) \<and>
    validate_sig c (digest c (hash_PaymentTransaction c tx)) (pt_sig tx) (PtRaw keys) = Ok ()"
proof -
  obtain s k s' k' where len: "length (pt_txins tx) = length inputs" and
    ins: "payment_inputs c (digest c (hash_PaymentTransaction c tx)) (zip (pt_txins tx) inputs) {}
       (pt_inf, pt_inf) = Ok (s, k)" and
    outs: "payment_outputs c (digest c (hash_PaymentTransaction c tx)) (pt_txouts tx) {} (pt_inf, k) = Ok (s', k')" and
    eq: "pt_eq c s (pt_add c s' (simple_commit c (pt_gamma tx) (scalar_of_u64 c (pt_fee tx))))" and
    sig: "validate_sig c (digest c (hash_PaymentTransaction c tx)) (pt_sig tx)
       (pt_sub c k' (simple_commit c (pt_gamma tx) (scalar_of_u64 c (pt_fee tx)))) = Ok ()"
    using assms by (rule validate_payment_OkD)
  have zip: "map (f \<circ> snd) (zip (pt_txins tx) inputs) = map f inputs" for f :: "Output \<Rightarrow> 'a option"
    using len by (metis map_map map_snd_zip)
  note val = payment_inputs_sum [OF ins, unfolded zip] payment_inputs_key [OF ins, unfolded zip]
    payment_outputs_sum [OF outs]
  obtain vin vout where v: "sum_vals (map (cmt_val c) inputs) = Some vin"
      "sum_vals (map (cmt_val c) (pt_txouts tx)) = Some vout"
      "vin = vout + smul c (pt_gamma tx) (B_blinding c) + smul c (scalar_of_u64 c (pt_fee tx)) (B_base c)"
    using eq val by (auto simp: pt_simps add.assoc split: option.splits)
  let ?eff = "pt_sub c k' (simple_commit c (pt_gamma tx) (scalar_of_u64 c (pt_fee tx)))"
  have eff: "pt_val c ?eff = sum_vals (map (key_val c) inputs)"
    using v val by (auto simp: pt_simps algebra_simps split: option.splits)
  have "?eff \<noteq> PtNone" using sig by (auto simp: validate_sig_PtNone)
  then obtain keys where keys: "sum_vals (map (key_val c) inputs) = Some keys"
    using pt_add_PtNone eff unfolding pt_sub_def by (metis not_None_eq)
  then have "?eff = PtRaw keys"
    using eff unfolding pt_sub_def by (intro pt_val_PtRaw) simp
  with v keys sig show ?thesis by auto
qed


section \<open>Honest payments\<close>

text \<open>
  An output belongs to a secret key: a cloaked one when its payload decrypts and the recipient
  key and the commitment are those of the payload, a public one or a stake when it names the
  public key. Then the owner knows the secret key of its recipient and its blinding.
\<close>

fun owned :: "('g::ab_group_add, 'f::comm_ring_1) crypto \<Rightarrow> 'f \<Rightarrow> Output \<Rightarrow> bool" where
  "owned c skey (PaymentOutput p) \<longleftrightarrow>
     (case output_decrypt_payload c p (pkey_of_skey c skey) skey of
        Ok pl \<Rightarrow>
          decompress c (po_recipient p) = Some (smul c (skey + pl_delta pl * pl_gamma pl) (B_blinding c)) \<and>
          decompress c (vcmt (po_proof p)) =
            Some (smul c (pl_gamma pl) (B_blinding c) + smul c (scalar_of_u64 c (pl_amount pl)) (B_base c))
      | _ \<Rightarrow> False)"
| "owned c skey (PublicPaymentOutput p) \<longleftrightarrow>
     0 \<le>s pp_amount p \<and> decompress c (pp_recipient p) = Some (smul c skey (B_blinding c))"
| "owned c skey (StakeOutput p) \<longleftrightarrow>
     0 \<le>s so_amount p \<and> decompress c (so_recipient p) = Some (smul c skey (B_blinding c))"

fun in_payload :: "('g::ab_group_add, 'f::comm_ring_1) crypto \<Rightarrow> 'f \<Rightarrow> Output \<Rightarrow> 'f \<times> 'f \<times> i64" where
  "in_payload c skey (PaymentOutput p) =
     (case output_decrypt_payload c p (pkey_of_skey c skey) skey of
        Ok pl \<Rightarrow> (skey + pl_delta pl * pl_gamma pl, pl_gamma pl, pl_amount pl)
      | _ \<Rightarrow> (skey, 0, 0))"
| "in_payload c skey (PublicPaymentOutput p) = (skey, 0, pp_amount p)"
| "in_payload c skey (StakeOutput p) = (skey, 0, so_amount p)"

abbreviation in_key :: "('g::ab_group_add, 'f::comm_ring_1) crypto \<Rightarrow> 'f \<Rightarrow> Output \<Rightarrow> 'f" where
  "in_key c skey o' \<equiv> fst (in_payload c skey o')"

abbreviation in_gamma :: "('g::ab_group_add, 'f::comm_ring_1) crypto \<Rightarrow> 'f \<Rightarrow> Output \<Rightarrow> 'f" where
  "in_gamma c skey o' \<equiv> fst (snd (in_payload c skey o'))"

abbreviation in_amount :: "('g::ab_group_add, 'f::comm_ring_1) crypto \<Rightarrow> 'f \<Rightarrow> Output \<Rightarrow> i64" where
  "in_amount c skey o' \<equiv> snd (snd (in_payload c skey o'))"

abbreviation commit_val :: "('g::ab_group_add, 'f) crypto \<Rightarrow> 'f \<Rightarrow> i64 \<Rightarrow> 'g" where
  "commit_val c gamma amount \<equiv> smul c gamma (B_blinding c) + smul c (scalar_of_u64 c amount) (B_base c)"

lemma owned_key: "owned c skey o' \<Longrightarrow> key_val c o' = Some (smul c (in_key c skey o') (B_blinding c))"
  by (cases o') (auto simp: key_val_def split: outcome.splits)

lemma owned_cmt:
  assumes "dalek_laws c" "owned c skey o'"
  shows "cmt_val c o' = Some (commit_val c (in_gamma c skey o') (in_amount c skey o'))"
  using assms(2) smul_zero_left [OF assms(1)]
  by (cases o')
     (auto simp: cmt_val_def fee_a_def signed_simps not_less split: outcome.splits if_splits)

lemma effective_key_owned:
  "\<forall>o' \<in> set ins. owned c skey o' \<Longrightarrow>
   effective_key c skey ins (e, g, t) =
     Ok (e + sum_list (map (in_key c skey) ins), g + sum_list (map (in_gamma c skey) ins),
         t @ map (output_digest c) ins)"
proof (induction ins arbitrary: e g t)
  case (Cons o' ins)
  then show ?case
    by (cases o') (auto simp: Let_def output_digest_def add.assoc split: outcome.splits)
qed simp

lemma sum_commit_val:
  assumes "dalek_laws c"
  shows "sum_list (map (\<lambda>x. commit_val c (f x) (a x)) xs) =
    smul c (sum_list (map f xs)) (B_blinding c)
    + smul c (sum_list (map (\<lambda>x. scalar_of_u64 c (a x)) xs)) (B_base c)"
  by (induction xs) (simp_all add: smul_zero_left [OF assms] dalek_lawsD [OF assms] algebra_simps)

lemma cmt_val_pedersen: "cmt_val c o' = Some v \<Longrightarrow> pedersen_commitment c o' \<noteq> None"
  by (auto simp: cmt_val_def outcome_simps)

lemma sum_vals_pedersen:
  "sum_vals (map (cmt_val c) os) = Some v \<Longrightarrow> \<forall>o' \<in> set os. pedersen_commitment c o' \<noteq> None"
  by (induction os arbitrary: v) (auto simp: outcome_simps dest: cmt_val_pedersen)

lemma sum_vals_None: "None \<in> set vs \<Longrightarrow> sum_vals vs = None"
  by (induction vs) (auto split: bind_splits)

text \<open>Accepting a payment, from the balance and the signature.\<close>

lemma validate_payment_OkI:
  assumes "pt_txins tx = map (output_digest c) inputs" "inputs \<noteq> []" "0 \<le>s pt_fee tx"
    and "distinct (map (output_digest c) inputs)" "distinct (map (output_digest c) (pt_txouts tx))"
    and vin: "\<forall>o' \<in> set inputs. cmt_val c o' = Some (vi o')"
    and vout: "\<forall>o' \<in> set (pt_txouts tx). cmt_val c o' = Some (vo o')"
    and keys: "\<forall>o' \<in> set inputs. key_val c o' = Some (ki o')"
    and bal: "sum_list (map vi inputs) =
      sum_list (map vo (pt_txouts tx)) + commit_val c (pt_gamma tx) (pt_fee tx)"
    and sig: "validate_sig c (digest c (hash_PaymentTransaction c tx)) (pt_sig tx)
      (PtRaw (sum_list (map ki inputs))) = Ok ()"
  shows "validate_PaymentTransaction c tx inputs = Ok ()"
proof -
  let ?h = "digest c (hash_PaymentTransaction c tx)"
  let ?adj = "simple_commit c (pt_gamma tx) (scalar_of_u64 c (pt_fee tx))"
  have zip: "zip (pt_txins tx) inputs = map (\<lambda>o'. (output_digest c o', o')) inputs"
    by (simp add: assms(1) zip_map1 zip_same_conv_map)
  obtain s k where ins: "payment_inputs c ?h (zip (pt_txins tx) inputs) {} (pt_inf, pt_inf) = Ok (s, k)"
    using payment_inputs_run [of "zip (pt_txins tx) inputs" c "{}" ?h pt_inf pt_inf] assms(4) vin
      cmt_val_pedersen [of c] unfolding zip by (fastforce simp: comp_def)
  obtain s' k' where outs: "payment_outputs c ?h (pt_txouts tx) {} (pt_inf, k) = Ok (s', k')"
    using payment_outputs_run [of c "pt_txouts tx" "{}" ?h pt_inf k] assms(5) vout
      cmt_val_pedersen [of c] by fastforce
  have sums: "sum_vals (map (cmt_val c) inputs) = Some (sum_list (map vi inputs))"
    "sum_vals (map (cmt_val c) (pt_txouts tx)) = Some (sum_list (map vo (pt_txouts tx)))"
    "sum_vals (map (key_val c) inputs) = Some (sum_list (map ki inputs))"
    using vin vout keys by (auto intro: sum_vals_Some)
  have val: "pt_val c s = Some (sum_list (map vi inputs))"
    "pt_val c s' = Some (sum_list (map vo (pt_txouts tx)))"
    "pt_val c k' = Some (sum_list (map ki inputs) + sum_list (map vi inputs) - sum_list (map vo (pt_txouts tx)))"
    using payment_inputs_sum [OF ins] payment_inputs_key [OF ins] payment_outputs_sum [OF outs] sums
    unfolding zip by (simp_all add: comp_def)
  have "pt_val c (pt_sub c k' ?adj) = Some (sum_list (map ki inputs))"
    using val bal by (simp add: pt_simps)
  then have "pt_sub c k' ?adj = PtRaw (sum_list (map ki inputs))"
    unfolding pt_sub_def by (rule pt_val_PtRaw)
  moreover have "pt_eq c s (pt_add c s' ?adj)" using val bal by (simp add: pt_simps)
  ultimately show ?thesis
    using assms(1-3) ins outs sig
    by (simp add: validate_PaymentTransaction_def Let_def fr_of_i64_def signed_simps not_less)
qed


text \<open>The output \<open>with_payload\<close> makes belongs to the recipient, unless its blinding is zero.\<close>

lemma with_payload_owned:
  assumes "dalek_laws c" "scalar_laws c" "bulletproof_laws c" "valid_data data" "strip_data data = data"
    "0 \<le>s amount" "gamma \<noteq> 0"
  shows "\<exists>o' rvalue key. with_payload c UNIQ rnd gamma sender (pkey_of_skey c skey) amount data =
      Some (o', gamma, rvalue) \<and> owned c skey (PaymentOutput o') \<and>
      in_payload c skey (PaymentOutput o') = (key, gamma, amount)"
proof -
  obtain o' rvalue delta where
    "with_payload c UNIQ rnd gamma sender (pkey_of_skey c skey) amount data = Some (o', gamma, rvalue)"
    "vcmt (po_proof o') = compress c (commit_val c gamma amount)"
    "decompress c (po_recipient o') = Some (smul c skey (B_blinding c)
       + smul c (if gamma = 0 then delta else gamma * delta) (B_blinding c))"
    "output_decrypt_payload c o' (pkey_of_skey c skey) skey = Ok (made_payload c sender delta gamma amount data)"
    using with_payload_eq [OF assms(1-6) refl] by blast
  then show ?thesis
    using assms(7) by (simp add: dalek_lawsD [OF assms(1)] mult.commute)
qed

section \<open>Properties\<close>

text \<open>
  C3: an accepted payment conserves money and is authorised by the owners: its inputs are the
  given outputs, each spent once; its outputs are distinct; the fee is not negative; the
  commitments of the inputs are those of the outputs plus the commitment to the fee under the
  declared blinding; and its signature verifies under the sum of the recipient keys of the
  inputs.
\<close>

theorem payment_accepted_balanced:
  assumes "validate_PaymentTransaction c tx inputs = Ok ()"
  shows "pt_txins tx = map (output_digest c) inputs \<and> inputs \<noteq> [] \<and> distinct (pt_txins tx) \<and>
    distinct (map (output_digest c) (pt_txouts tx)) \<and> 0 \<le>s pt_fee tx \<and>
    (\<exists>vin vout keys.
       sum_vals (map (cmt_val c) inputs) = Some vin \<and>
       sum_vals (map (cmt_val c) (pt_txouts tx)) = Some vout \<and>
       sum_vals (map (key_val c) inputs) = Some keys \<and>
       vin = vout + smul c (pt_gamma tx) (B_blinding c) + smul c (scalar_of_u64 c (pt_fee tx)) (B_base c) \<and>
       validate_sig c (digest c (hash_PaymentTransaction c tx)) (pt_sig tx) (PtRaw keys) = Ok ())"
proof -
  from assms obtain s k s' k' where tx: "length (pt_txins tx) = length inputs" "pt_txins tx \<noteq> []"
      "\<not> pt_fee tx <s 0"
      "payment_inputs c (digest c (hash_PaymentTransaction c tx)) (zip (pt_txins tx) inputs) {}
         (pt_inf, pt_inf) = Ok (s, k)"
      "payment_outputs c (digest c (hash_PaymentTransaction c tx)) (pt_txouts tx) {} (pt_inf, k) = Ok (s', k')"
    by (rule validate_payment_OkD)
  have "map fst (zip (pt_txins tx) inputs) = map (output_digest c) (map snd (zip (pt_txins tx) inputs))"
    "distinct (map fst (zip (pt_txins tx) inputs))"
    using payment_inputs_hashes [OF tx(4)] by simp_all
  with tx payment_outputs_hashes [OF tx(5)] validate_payment_balanced [OF assms] show ?thesis
    by (auto simp: signed_simps not_less)
qed

lemma sample_group:
  "smul sample_crypto a p = a * p" "B_base sample_crypto = 3" "B_blinding sample_crypto = 5"
  "scalar_of_u64 sample_crypto x = ucast x"
  by (simp_all add: sample_crypto_def)

definition sample_public :: "b32 \<Rightarrow> i64 \<Rightarrow> Output" where
  "sample_public recipient amount =
     PublicPaymentOutput \<lparr>pp_recipient = recipient, pp_serno = 0, pp_amount = amount\<rparr>"

definition sample_payment :: "b32 \<Rightarrow> 8 word PaymentTransaction" where
  "sample_payment recipient =
     (let tx = \<lparr>pt_txins = [output_digest sample_crypto (sample_public recipient 10)],
                pt_txouts = [sample_public 9 7], pt_gamma = 0, pt_fee = 3,
                pt_sig = schnorr_new sample_crypto\<rparr>
      in tx\<lparr>pt_sig := sign_hash sample_crypto (digest sample_crypto (hash_PaymentTransaction sample_crypto tx)) 4\<rparr>)"

lemma sample_payment_fields [simp]:
  "pt_txins (sample_payment r) = [output_digest sample_crypto (sample_public r 10)]"
  "pt_txouts (sample_payment r) = [sample_public 9 7]" "pt_gamma (sample_payment r) = 0"
  "pt_fee (sample_payment r) = 3"
  "pt_sig (sample_payment r) =
     sign_hash sample_crypto (digest sample_crypto (hash_PaymentTransaction sample_crypto (sample_payment r))) 4"
  by (simp_all add: sample_payment_def Let_def hash_PaymentTransaction_def)

lemma sample_public_vals [simp]:
  "0 \<le>s amount \<Longrightarrow> cmt_val sample_crypto (sample_public r amount) = Some (ucast amount * 3)"
  "key_val sample_crypto (sample_public r amount) = (if r < 256 then Some (ucast r) else None)"
  by (simp_all add: cmt_val_def key_val_def sample_public_def fee_a_def sample_crypto_def signed_simps not_less)

theorem payment_accepted_balanced_witness:
  "validate_PaymentTransaction sample_crypto (sample_payment 20) [sample_public 20 10] = Ok () \<and>
   pt_txins (sample_payment 20) = map (output_digest sample_crypto) [sample_public 20 10]"
proof -
  have "validate_PaymentTransaction sample_crypto (sample_payment 20) [sample_public 20 10] = Ok ()"
  proof (rule validate_payment_OkI [where vi = "\<lambda>_. 30" and vo = "\<lambda>_. 21" and ki = "\<lambda>_. 20"])
    show "validate_sig sample_crypto
        (digest sample_crypto (hash_PaymentTransaction sample_crypto (sample_payment 20)))
        (pt_sig (sample_payment 20)) (PtRaw (\<Sum>_ \<leftarrow> [sample_public 20 10]. 20)) = Ok ()"
      using validate_sign_hash [OF sample_crypto_dalek, of _ 4]
      by (simp add: pkey_of_skey_def sample_group)
  qed (simp_all add: signed_simps sample_group del: sample_payment_fields(5))
  with payment_accepted_balanced [OF this] show ?thesis by simp
qed

text \<open>
  C11: a payment made by \<open>PaymentTransaction::new\<close> from outputs that belong to the secret key is
  accepted, for every choice of inputs and outputs with distinct hashes whose amounts balance
  with the fee.
\<close>

theorem honest_payment_accepted:
  assumes "dalek_laws c" "inputs \<noteq> []" "\<forall>o' \<in> set inputs. owned c skey o'" "0 \<le>s fee"
    and "distinct (map (output_digest c) inputs)" "distinct (map (output_digest c) outputs)"
    and "\<forall>o' \<in> set outputs. cmt_val c o' = Some (commit_val c (out_gamma o') (out_amount o'))"
    and "sum_list (map (\<lambda>o'. scalar_of_u64 c (in_amount c skey o')) inputs) =
         sum_list (map (\<lambda>o'. scalar_of_u64 c (out_amount o')) outputs) + scalar_of_u64 c fee"
  shows "\<exists>tx. payment_new c skey inputs outputs (sum_list (map out_gamma outputs)) fee = Ok tx \<and>
           validate_PaymentTransaction c tx inputs = Ok ()"
proof -
  define eff where "eff = sum_list (map (in_key c skey) inputs)"
  define gamma where "gamma = sum_list (map (in_gamma c skey) inputs) - sum_list (map out_gamma outputs)"
  define tx0 where "tx0 = \<lparr>pt_txins = map (output_digest c) inputs, pt_txouts = outputs, pt_gamma = gamma,
    pt_fee = fee, pt_sig = schnorr_new c\<rparr>"
  define tx where "tx = tx0\<lparr>pt_sig := sign_hash c (digest c (hash_PaymentTransaction c tx0)) eff\<rparr>"
  have tx: "pt_txins tx = map (output_digest c) inputs" "pt_txouts tx = outputs" "pt_gamma tx = gamma"
    "pt_fee tx = fee" "pt_sig tx = sign_hash c (digest c (hash_PaymentTransaction c tx)) eff"
    by (simp_all add: tx_def tx0_def hash_PaymentTransaction_def)
  have new: "payment_new c skey inputs outputs (sum_list (map out_gamma outputs)) fee = Ok tx"
    using assms(4) effective_key_owned [OF assms(3), of 0 0 "[]"]
    by (simp add: payment_new_def payment_unchecked_def Let_def tx_def tx0_def eff_def gamma_def)
  have vin: "\<forall>o' \<in> set inputs. cmt_val c o' = Some (commit_val c (in_gamma c skey o') (in_amount c skey o'))"
    using owned_cmt [OF assms(1)] assms(3) by blast
  have keys: "\<forall>o' \<in> set inputs. key_val c o' = Some (smul c (in_key c skey o') (B_blinding c))"
    using owned_key assms(3) by blast
  have sig: "validate_sig c (digest c (hash_PaymentTransaction c tx)) (pt_sig tx)
      (PtRaw (sum_list (map (\<lambda>o'. smul c (in_key c skey o') (B_blinding c)) inputs))) = Ok ()"
    using validate_sign_hash [OF assms(1), of _ eff]
    by (simp add: tx(5) eff_def pkey_of_skey_def smul_sum_list [OF assms(1)] comp_def)
  have "smul c (sum_list (map (in_gamma c skey) inputs)) (B_blinding c) =
      smul c (sum_list (map out_gamma outputs)) (B_blinding c) + smul c gamma (B_blinding c)"
    using dalek_lawsD(3) [OF assms(1), of "sum_list (map out_gamma outputs)" gamma "B_blinding c"]
    by (simp add: gamma_def)
  then have bal: "sum_list (map (\<lambda>o'. commit_val c (in_gamma c skey o') (in_amount c skey o')) inputs) =
      sum_list (map (\<lambda>o'. commit_val c (out_gamma o') (out_amount o')) (pt_txouts tx))
      + commit_val c (pt_gamma tx) (pt_fee tx)"
    unfolding sum_commit_val [OF assms(1)] assms(8) tx
    by (simp add: dalek_lawsD(3) [OF assms(1)] ac_simps)
  have "validate_PaymentTransaction c tx inputs = Ok ()"
    using assms(2,4-7) tx vin keys bal sig
    by (intro validate_payment_OkI [OF tx(1) _ _ _ _ vin _ keys bal sig]) simp_all
  with new show ?thesis by blast
qed


theorem honest_payment_accepted_witness:
  "\<exists>o1 r1 o2 r2 tx.
     with_payload sample_crypto [] 1 2 None (pkey_of_skey sample_crypto 4) 100 (ContentHash 5) = Some (o1, 2, r1) \<and>
     with_payload sample_crypto [] 1 3 None (pkey_of_skey sample_crypto 6) 97 (ContentHash 5) = Some (o2, 3, r2) \<and>
     payment_new sample_crypto 4 [PaymentOutput o1] [PaymentOutput o2] 3 3 = Ok tx \<and>
     validate_PaymentTransaction sample_crypto tx [PaymentOutput o1] = Ok ()"
proof -
  note laws = sample_crypto_dalek sample_crypto_scalar sample_crypto_bulletproof
  obtain o1 r1 k1 where o1:
    "with_payload sample_crypto [] 1 2 None (pkey_of_skey sample_crypto 4) 100 (ContentHash 5) = Some (o1, 2, r1)"
    "owned sample_crypto 4 (PaymentOutput o1)" "in_payload sample_crypto 4 (PaymentOutput o1) = (k1, 2, 100)"
    using with_payload_owned [OF laws, of "ContentHash 5" 100 2 "[]" 1 None 4] by (auto simp: signed_simps)
  obtain o2 r2 k2 where o2:
    "with_payload sample_crypto [] 1 3 None (pkey_of_skey sample_crypto 6) 97 (ContentHash 5) = Some (o2, 3, r2)"
    "owned sample_crypto 6 (PaymentOutput o2)" "in_payload sample_crypto 6 (PaymentOutput o2) = (k2, 3, 97)"
    using with_payload_owned [OF laws, of "ContentHash 5" 97 3 "[]" 1 None 6] by (auto simp: signed_simps)
  have "\<exists>tx. payment_new sample_crypto 4 [PaymentOutput o1] [PaymentOutput o2]
       (sum_list (map (\<lambda>_. 3) [PaymentOutput o2])) 3 = Ok tx \<and>
       validate_PaymentTransaction sample_crypto tx [PaymentOutput o1] = Ok ()"
  proof (rule honest_payment_accepted [OF laws(1), where out_amount = "\<lambda>_. 97"])
    show "\<forall>o' \<in> set [PaymentOutput o2]. cmt_val sample_crypto o' = Some (commit_val sample_crypto 3 97)"
      using owned_cmt [OF laws(1) o2(2)] o2(3) by simp
  qed (use o1 in \<open>simp_all add: signed_simps sample_group\<close>)
  with o1(1) o2(1) show ?thesis by auto
qed

text \<open>
  C36: spending an output whose recipient key does not decode brings the validating node down.
  The effective key is then no point, and hashing it for the signature check panics, whatever
  the signature is; nothing before that looks at the recipient key.
\<close>

theorem undecodable_recipient_panics:
  assumes "pt_txins tx = map (output_digest c) inputs" "inputs \<noteq> []" "0 \<le>s pt_fee tx"
    and "distinct (map (output_digest c) inputs)" "distinct (map (output_digest c) (pt_txouts tx))"
    and "sum_vals (map (cmt_val c) inputs) = Some vin" "sum_vals (map (cmt_val c) (pt_txouts tx)) = Some vout"
    and "vin = vout + commit_val c (pt_gamma tx) (pt_fee tx)"
    and "o' \<in> set inputs" "key_val c o' = None"
  shows "validate_PaymentTransaction c tx inputs = Panic"
proof -
  let ?h = "digest c (hash_PaymentTransaction c tx)"
  let ?adj = "simple_commit c (pt_gamma tx) (scalar_of_u64 c (pt_fee tx))"
  have zip: "zip (pt_txins tx) inputs = map (\<lambda>o'. (output_digest c o', o')) inputs"
    by (simp add: assms(1) zip_map1 zip_same_conv_map)
  obtain s k where ins: "payment_inputs c ?h (zip (pt_txins tx) inputs) {} (pt_inf, pt_inf) = Ok (s, k)"
    using payment_inputs_run [of "zip (pt_txins tx) inputs" c "{}" ?h pt_inf pt_inf] assms(4)
      sum_vals_pedersen [OF assms(6)] unfolding zip by (auto simp: comp_def)
  obtain s' k' where outs: "payment_outputs c ?h (pt_txouts tx) {} (pt_inf, k) = Ok (s', k')"
    using payment_outputs_run [of c "pt_txouts tx" "{}" ?h pt_inf k] assms(5)
      sum_vals_pedersen [OF assms(7)] by auto
  have "sum_vals (map (key_val c) inputs) = None" using sum_vals_None assms(9,10) by force
  then have "pt_val c k' = None"
    using payment_inputs_key [OF ins] payment_outputs_sum [OF outs] unfolding zip
    by (simp add: comp_def split: option.splits)
  then have "pt_sub c k' ?adj = PtNone"
    unfolding pt_sub_def by (intro pt_add_PtNone) (simp add: pt_simps)
  moreover have "pt_eq c s (pt_add c s' ?adj)"
    using payment_inputs_sum [OF ins] payment_outputs_sum [OF outs] assms(6-8) unfolding zip
    by (simp add: pt_simps comp_def)
  ultimately show ?thesis
    using assms(1-3) ins outs
    by (simp add: validate_PaymentTransaction_def Let_def fr_of_i64_def signed_simps not_less
        validate_sig_PtNone)
qed

theorem undecodable_recipient_panics_witness:
  "validate_Output sample_crypto (sample_public 256 10) = Ok () \<and>
   validate_PaymentTransaction sample_crypto (sample_payment 256) [sample_public 256 10] = Panic"
proof -
  have "validate_PaymentTransaction sample_crypto (sample_payment 256) [sample_public 256 10] = Panic"
    by (rule undecodable_recipient_panics [where vin = 30 and vout = 21 and o' = "sample_public 256 10"])
       (simp_all add: signed_simps sample_group del: sample_payment_fields(5))
  then show ?thesis
    by (simp add: sample_public_def validate_PublicPaymentOutput_def signed_simps)
qed

text \<open>Stakes of the example validators, with consecutive serial numbers in the last byte.\<close>

definition sample_stake_output :: "b32 \<Rightarrow> pbc_pkey \<Rightarrow> i64 \<Rightarrow> u8 \<Rightarrow> StakeOutput" where
  "sample_stake_output recipient validator amount n =
     (let o' = \<lparr>so_recipient = recipient, so_validator = validator, so_amount = amount,
                so_serno = push_bit 56 (ucast n), so_signature = 0\<rparr>
      in o'\<lparr>so_signature :=
              pbc_sign_hash sample_crypto (digest sample_crypto (hash_StakeOutput o')) (ucast validator)\<rparr>)"

lemma sample_stake_fields [simp]:
  "so_recipient (sample_stake_output r v a n) = r" "so_validator (sample_stake_output r v a n) = v"
  "so_amount (sample_stake_output r v a n) = a"
  by (simp_all add: sample_stake_output_def Let_def)

lemma sample_stake_valid:
  assumes "0 <s a" "v = 7 \<or> v = 9"
  shows "validate_Output sample_crypto (StakeOutput (sample_stake_output r v a n)) = Ok ()"
proof -
  let ?o = "\<lparr>so_recipient = r, so_validator = v, so_amount = a, so_serno = push_bit 56 (ucast n),
             so_signature = 0\<rparr>"
  have hash: "hash_StakeOutput (sample_stake_output r v a n) = hash_StakeOutput ?o"
    by (simp add: sample_stake_output_def hash_StakeOutput_def Let_def)
  have "ucast (ucast v :: b32) = (ucast v :: b48)"
    using assms(2) by auto
  then have "check_hash sample_crypto (digest sample_crypto (hash_StakeOutput ?o))
      (Some (so_signature (sample_stake_output r v a n))) (Some v) = Ok ()"
    by (simp add: check_hash_Ok_iff sample_stake_output_def Let_def pbc_sign_hash_def sample_crypto_def)
  then show ?thesis
    using assms(1) by (simp add: validate_StakeOutput_def hash Let_def signed_simps)
qed

lemma sample_stake_digest:
  "\<exists>H. \<forall>n. output_digest sample_crypto (StakeOutput (sample_stake_output r v a n)) = H + ucast n"
proof -
  have bytes: "le_bytes 8 (push_bit 56 (ucast n) :: i64) = replicate 7 0 @ [n]" for n :: u8
  proof -
    have "ucast (drop_bit (8 * i) (push_bit 56 (ucast n :: i64))) = (if i = 7 then n else 0 :: u8)"
      if "i < 8" for i
      using that by (intro bit_word_eqI) (auto simp: bit_simps)
    then have "le_bytes 8 (push_bit 56 (ucast n) :: i64) = map (\<lambda>i. if i = 7 then n else 0) [0..<8]"
      by (simp add: le_bytes_def)
    then show ?thesis by (simp add: upt_conv_Cons numeral_eq_Suc)
  qed
  have "hash_Output (StakeOutput (sample_stake_output r v a n)) =
      (hash_str ''Stake'' @ hash_enc_PublicKey r @ hash_pbc_PublicKey v @ hash_i64 a @ replicate 7 0) @ [n]" for n
    by (simp add: hash_StakeOutput_def sample_stake_output_def Let_def hash_i64_def [of "push_bit _ _"] bytes)
  then have "output_digest sample_crypto (StakeOutput (sample_stake_output r v a n)) =
      31 * sample_sha3 (hash_str ''Stake'' @ hash_enc_PublicKey r @ hash_pbc_PublicKey v @ hash_i64 a @ replicate 7 0)
      + 1 + ucast n" for n
    unfolding output_digest_def by (simp add: digest_def sample_crypto_def sample_sha3_def)
  then show ?thesis by blast
qed

definition sample_restake :: "Output \<Rightarrow> Output list \<Rightarrow> RestakeTransaction" where
  "sample_restake input outputs =
     (let tx = \<lparr>rt_txins = [output_digest sample_crypto input], rt_txouts = outputs, rt_sig = 0\<rparr>
      in tx\<lparr>rt_sig := pbc_sign_hash sample_crypto
                        (digest sample_crypto (hash_RestakeTransaction tx)) 7\<rparr>)"

lemma sample_restake_fields [simp]:
  "rt_txins (sample_restake i os) = [output_digest sample_crypto i]"
  "rt_txouts (sample_restake i os) = os"
  by (simp_all add: sample_restake_def Let_def)

lemma sample_restake_signed:
  "check_hash sample_crypto (digest sample_crypto (hash_RestakeTransaction (sample_restake i os)))
     (Some (rt_sig (sample_restake i os))) (Some 7) = Ok ()"
  by (simp add: check_hash_Ok_iff sample_restake_def Let_def pbc_sign_hash_def hash_RestakeTransaction_def)
     (simp add: sample_crypto_def)


text \<open>
  C35: a restake transaction may change the owner of a stake. It is signed with the network
  key of the validator only, and neither its validation nor \<open>validate_stakes\<close> compares the
  recipients of the outputs with those of the inputs when the stake moves to a validator that
  has none yet.
\<close>

theorem restake_changes_owner:
  "validate_RestakeTransaction sample_crypto
     (sample_restake (StakeOutput (sample_stake_output 5 7 10 0)) [StakeOutput (sample_stake_output 6 9 10 0)])
     [StakeOutput (sample_stake_output 5 7 10 0)] = Ok () \<and>
   validate_stakes sample_crypto [StakeOutput (sample_stake_output 5 7 10 0)]
     [StakeOutput (sample_stake_output 6 9 10 0)] 3 sample_escrow = Ok ()"
proof -
  have valid: "validate_Output sample_crypto (StakeOutput (sample_stake_output 6 9 10 n)) = Ok ()" for n
    by (rule sample_stake_valid) (simp_all add: signed_simps)
  have "validate_RestakeTransaction sample_crypto
     (sample_restake (StakeOutput (sample_stake_output 5 7 10 0)) [StakeOutput (sample_stake_output 6 9 10 0)])
     [StakeOutput (sample_stake_output 5 7 10 0)] = Ok ()"
    using sample_restake_signed [of "StakeOutput (sample_stake_output 5 7 10 0)"
        "[StakeOutput (sample_stake_output 6 9 10 0)]"]
    by (simp add: validate_RestakeTransaction_def valid Let_def del: validate_Output.simps)
  then show ?thesis by (simp add: sample_simps)
qed

end
