(* ===== verification/Consensus.thy ===== *)
theory Consensus
  imports Ledger
begin

text \<open>
  The consensus on macro blocks, \<open>consensus/src/message.rs\<close> and \<open>consensus/src/state.rs\<close>: a
  node collects pre-votes and pre-commits for the proposal of the round's leader and commits
  when pre-commits of more than two thirds of the slots have arrived. Messages of later
  rounds, and votes that arrive before the proposal, wait in an inbox. The handlers call each
  other (a proposal may trigger a pre-vote, a pre-vote a pre-commit, and the inbox is fed again),
  so \<open>feed_message\<close> takes a bound on the depth of these calls; three is always enough.
\<close>

section \<open>Messages\<close>

record 'f MacroBlockProposal =
  mp_header :: "'f MacroBlockHeader"
  mp_transactions :: "'f Transaction list"

definition hash_MacroBlockProposal :: "('g, 'f) crypto \<Rightarrow> 'f MacroBlockProposal \<Rightarrow> bytes" where
  "hash_MacroBlockProposal c p =
     hash_MacroBlockHeader c (mp_header p) @ hash_seq (fullhash c) (mp_transactions p)"

datatype 'f ConsensusMessageBody =
    Proposal "'f MacroBlockProposal"
  | Prevote
  | Precommit pbc_sig

fun hash_ConsensusMessageBody :: "('g, 'f) crypto \<Rightarrow> 'f ConsensusMessageBody \<Rightarrow> bytes" where
  "hash_ConsensusMessageBody c (Proposal proposal) =
     hash_str ''Propose'' @ hash_MacroBlockProposal c proposal"
| "hash_ConsensusMessageBody c Prevote = hash_str ''Prevote''"
| "hash_ConsensusMessageBody c (Precommit block_sig) = hash_str ''Precommit'' @ hash_Signature block_sig"

record 'f ConsensusMessage =
  cm_round :: u32
  cm_epoch :: u64
  cm_block_hash :: hash
  cm_body :: "'f ConsensusMessageBody"
  cm_pkey :: pbc_pkey
  cm_sig :: pbc_sig

datatype ConsensusError =
    UnknownMessagePeer pbc_pkey
  | InvalidMessageSignature
  | InvalidRequestHash hash hash pbc_pkey
  | InvalidMessage string string
  | ProposalFromNonLeader hash pbc_pkey pbc_pkey
  | InvalidPropose
  | InvalidRequestSignature hash
  | InvalidViewChangeEpoch u64 u64
  | ViewChangeOffsetFromThePast u32 u32
  | ViewChangeOffsetFromTheFuture u32 u32
  | ViewChangeNumberFromThePast u32 u32
  | ViewChangeNumberFromTheFuture u32 u32
  | InvalidLastBlockHash hash hash
  | InvalidValidatorId u32
  | InvalidViewChangeSignature

fun body_name :: "'f ConsensusMessageBody \<Rightarrow> string" where
  "body_name (Proposal _) = ''Proposal''"
| "body_name Prevote = ''Prevote''"
| "body_name (Precommit _) = ''Precommit''"

definition message_hash ::
  "('g, 'f) crypto \<Rightarrow> u64 \<Rightarrow> u32 \<Rightarrow> hash \<Rightarrow> 'f ConsensusMessageBody \<Rightarrow> hash" where
  "message_hash c epoch round block_hash body =
     digest c (hash_u64 epoch @ hash_u32 round @ hash_hash block_hash @ hash_ConsensusMessageBody c body)"

definition ConsensusMessage_new ::
  "('g, 'f) crypto \<Rightarrow> u64 \<Rightarrow> u32 \<Rightarrow> hash \<Rightarrow> pbc_skey \<Rightarrow> pbc_pkey \<Rightarrow> 'f ConsensusMessageBody \<Rightarrow>
     'f ConsensusMessage" where
  "ConsensusMessage_new c epoch round block_hash skey pkey body =
     \<lparr>cm_round = round, cm_epoch = epoch, cm_block_hash = block_hash, cm_body = body, cm_pkey = pkey,
      cm_sig = pbc_sign_hash c (message_hash c epoch round block_hash body) skey\<rparr>"

definition validate_message ::
  "('g, 'f) crypto \<Rightarrow> 'f ConsensusMessage \<Rightarrow> (ConsensusError, unit) outcome" where
  "validate_message c msg =
     (if is_ok (check_hash c (message_hash c (cm_epoch msg) (cm_round msg) (cm_block_hash msg) (cm_body msg))
                  (Some (cm_sig msg)) (Some (cm_pkey msg)))
      then Ok () else Err InvalidMessageSignature)"

section \<open>State\<close>

datatype ConsensusState = ProposeState | PrevoteState | PrecommitState | CommitState

fun state_name :: "ConsensusState \<Rightarrow> string" where
  "state_name ProposeState = ''Propose''"
| "state_name PrevoteState = ''Prevote''"
| "state_name PrecommitState = ''Precommit''"
| "state_name CommitState = ''Commit''"

type_synonym votes = "(pbc_pkey, pbc_sig) btree"

record 'f LockedRound =
  lr_precommits :: votes
  lr_block :: "'f MacroBlock"
  lr_proposal :: "'f MacroBlockProposal"

record 'f Consensus =
  cs_skey :: pbc_skey
  cs_pkey :: pbc_pkey
  cs_validators :: StakersGroup
  cs_total_slots :: i64
  cs_epoch :: u64
  cs_election_result :: ElectionResult
  cs_state :: ConsensusState
  cs_round :: u32
  cs_block :: "'f MacroBlock option"
  cs_block_hash :: "hash option"
  cs_proposal :: "'f MacroBlockProposal option"
  cs_locked_round :: "'f LockedRound option"
  cs_prevotes :: votes
  cs_precommits :: votes
  cs_inbox :: "'f ConsensusMessage list"
  cs_outbox :: "'f ConsensusMessage list"

text \<open>\<open>None\<close> is a panic: the node is not one of the validators.\<close>

definition Consensus_new ::
  "u64 \<Rightarrow> pbc_skey \<Rightarrow> pbc_pkey \<Rightarrow> ElectionResult \<Rightarrow> StakersGroup \<Rightarrow> 'f Consensus option" where
  "Consensus_new epoch skey pkey election_result validators =
     (if bt_get validators pkey = None then None
      else Some \<lparr>cs_skey = skey, cs_pkey = pkey, cs_validators = validators,
                 cs_total_slots = sum_list (map snd validators), cs_epoch = epoch,
                 cs_election_result = election_result, cs_state = ProposeState, cs_round = 0,
                 cs_block = None, cs_block_hash = None, cs_proposal = None, cs_locked_round = None,
                 cs_prevotes = [], cs_precommits = [], cs_inbox = [], cs_outbox = []\<rparr>)"

section \<open>Queries\<close>

definition cs_leader :: "('g, 'f) crypto \<Rightarrow> 'f Consensus \<Rightarrow> pbc_pkey option" where
  "cs_leader c s = select_leader c (cs_election_result s) (cs_round s)"

definition is_leader :: "('g, 'f) crypto \<Rightarrow> 'f Consensus \<Rightarrow> bool option" where
  "is_leader c s = map_option (\<lambda>leader. cs_pkey s = leader) (cs_leader c s)"

definition should_propose :: "('g, 'f) crypto \<Rightarrow> 'f Consensus \<Rightarrow> bool option" where
  "should_propose c s =
     (if cs_state s \<noteq> ProposeState then Some False
      else map_option (\<lambda>l. l \<and> cs_locked_round s = None) (is_leader c s))"

definition should_prevote :: "'f Consensus \<Rightarrow> bool" where
  "should_prevote s \<longleftrightarrow> cs_state s \<noteq> ProposeState \<and> bt_get (cs_prevotes s) (cs_pkey s) = None"

definition should_commit :: "'f Consensus \<Rightarrow> bool" where
  "should_commit s \<longleftrightarrow> cs_state s = CommitState"

definition get_proposal :: "'f Consensus \<Rightarrow> (hash \<times> 'f MacroBlockProposal \<times> u32) option" where
  "get_proposal s =
     (if cs_state s = ProposeState then None
      else Option.bind (cs_block_hash s) (\<lambda>h.
           map_option (\<lambda>p. (h, p, cs_round s)) (cs_proposal s)))"

text \<open>
  \<open>check_supermajority\<close> of the node: the slots of the voters; a vote of a key that is not a
  validator panics.
\<close>

definition votes_slots :: "StakersGroup \<Rightarrow> votes \<Rightarrow> i64 option" where
  "votes_slots validators accepts =
     fold_option (\<lambda>(pk, _) stake. map_option (\<lambda>s. stake + s) (bt_get validators pk)) accepts 0"

definition cs_check_supermajority :: "'f Consensus \<Rightarrow> votes \<Rightarrow> bool option" where
  "cs_check_supermajority s accepts =
     Option.bind (votes_slots (cs_validators s) accepts)
       (\<lambda>stake. check_supermajority stake (cs_total_slots s))"

section \<open>Handlers\<close>

text \<open>
  The result of feeding a message: the new state and the error returned, if any; \<open>None\<close> is a
  panic. The handlers below take the function that feeds a message as an argument.
\<close>

type_synonym 'f fed = "('f Consensus \<times> ConsensusError option) option"
type_synonym 'f feeder = "'f ConsensusMessage \<Rightarrow> 'f Consensus \<Rightarrow> 'f fed"

text \<open>\<open>self.outbox.push(msg.clone()); self.feed_message(msg).expect(..)\<close>\<close>

definition send :: "'f feeder \<Rightarrow> 'f ConsensusMessage \<Rightarrow> 'f Consensus \<Rightarrow> 'f Consensus option" where
  "send feed msg s =
     (case feed msg (s\<lparr>cs_outbox := cs_outbox s @ [msg]\<rparr>) of
        Some (s', None) \<Rightarrow> Some s'
      | _ \<Rightarrow> None)"

definition precommit :: "('g, 'f) crypto \<Rightarrow> 'f feeder \<Rightarrow> 'f Consensus \<Rightarrow> 'f Consensus option" where
  "precommit c feed s =
     (if cs_state s \<noteq> PrecommitState then None
      else if cs_block s = None then None
      else Option.bind (cs_block_hash s) (\<lambda>block_hash.
             let block_hash_sig = pbc_sign_hash c block_hash (cs_skey s)
             in send feed (ConsensusMessage_new c (cs_epoch s) (cs_round s) block_hash (cs_skey s)
                             (cs_pkey s) (Precommit block_hash_sig)) s))"

definition prevote ::
  "('g, 'f) crypto \<Rightarrow> 'f feeder \<Rightarrow> 'f MacroBlock \<Rightarrow> 'f Consensus \<Rightarrow> 'f Consensus option" where
  "prevote c feed block s =
     (let block_hash = macro_digest c block in
      if \<not> should_prevote s then None
      else if cs_block_hash s \<noteq> Some block_hash then None
      else
        let s = s\<lparr>cs_block := Some block\<rparr>;
            vote = send feed (ConsensusMessage_new c (cs_epoch s) (cs_round s) block_hash (cs_skey s)
                                (cs_pkey s) Prevote) s
        in case cs_locked_round s of
             None \<Rightarrow> vote
           | Some lr \<Rightarrow>
               if block_hash \<noteq> macro_digest c (lr_block lr) then Some s
               else (case cs_proposal s of
                   None \<Rightarrow> None
                 | Some p \<Rightarrow>
                     if digest c (hash_MacroBlockProposal c (lr_proposal lr))
                          \<noteq> digest c (hash_MacroBlockProposal c p)
                     then Some s else vote))"

text \<open>Errors of pending messages are only logged.\<close>

definition process_inbox :: "'f feeder \<Rightarrow> 'f Consensus \<Rightarrow> 'f Consensus option" where
  "process_inbox feed s =
     fold_option (\<lambda>msg s. map_option fst (feed msg s)) (cs_inbox s) (s\<lparr>cs_inbox := []\<rparr>)"

text \<open>The last part of \<open>feed_message\<close>: the transitions on a supermajority.\<close>

definition check_votes :: "('g, 'f) crypto \<Rightarrow> 'f feeder \<Rightarrow> 'f Consensus \<Rightarrow> 'f Consensus option" where
  "check_votes c feed s =
     (case cs_state s of
        PrevoteState \<Rightarrow>
          Option.bind (cs_check_supermajority s (cs_prevotes s)) (\<lambda>super_majority.
            if \<not> super_majority then Some s
            else
              let s = s\<lparr>cs_state := PrecommitState\<rparr>
              in if bt_get (cs_prevotes s) (cs_pkey s) \<noteq> None then precommit c feed s else Some s)
      | PrecommitState \<Rightarrow>
          map_option (\<lambda>super_majority. if super_majority then s\<lparr>cs_state := CommitState\<rparr> else s)
            (cs_check_supermajority s (cs_precommits s))
      | _ \<Rightarrow> Some s)"

text \<open>
  A proposal in the Propose state. When it is the block the node is locked on, the lock is
  taken, its pre-commits are restored and the pre-vote is repeated.
\<close>

definition on_proposal ::
  "('g, 'f) crypto \<Rightarrow> 'f feeder \<Rightarrow> 'f ConsensusMessage \<Rightarrow> 'f MacroBlockProposal \<Rightarrow> 'f Consensus \<Rightarrow>
     'f fed" where
  "on_proposal c feed msg proposal s =
     Option.bind (cs_leader c s) (\<lambda>leader.
       if cm_pkey msg \<noteq> leader
       then Some (s, Some (ProposalFromNonLeader (cm_block_hash msg) leader (cm_pkey msg)))
       else if cs_prevotes s \<noteq> [] \<or> cs_block_hash s \<noteq> None \<or> cs_proposal s \<noteq> None then None
       else
         let s = s\<lparr>cs_state := PrevoteState, cs_block := None, cs_block_hash := Some (cm_block_hash msg),
                   cs_proposal := Some proposal\<rparr>;
             locked = (case cs_locked_round s of
                 Some lr \<Rightarrow>
                   if cm_block_hash msg = macro_digest c (lr_block lr)
                      \<and> digest c (hash_MacroBlockProposal c (lr_proposal lr))
                        = digest c (hash_MacroBlockProposal c proposal)
                   then prevote c feed (lr_block lr)
                          (s\<lparr>cs_locked_round := None, cs_precommits := lr_precommits lr\<rparr>)
                   else Some s
               | None \<Rightarrow> Some s)
         in map_option (\<lambda>s. (s, None))
              (Option.bind (Option.bind locked (process_inbox feed)) (check_votes c feed)))"

definition on_vote ::
  "('g, 'f) crypto \<Rightarrow> 'f feeder \<Rightarrow> 'f ConsensusMessage \<Rightarrow> 'f Consensus \<Rightarrow> 'f fed" where
  "on_vote c feed msg s =
     (case cm_body msg of
        Proposal _ \<Rightarrow> None
      | Prevote \<Rightarrow>
          map_option (\<lambda>s. (s, None))
            (check_votes c feed (s\<lparr>cs_prevotes := bt_put (cm_pkey msg) (cm_sig msg) (cs_prevotes s)\<rparr>))
      | Precommit block_hash_sig \<Rightarrow>
          Option.bind (cs_block_hash s) (\<lambda>block_hash.
            if \<not> is_ok (check_hash c block_hash (Some block_hash_sig) (Some (cm_pkey msg)))
            then Some (s, Some (InvalidRequestSignature block_hash))
            else map_option (\<lambda>s. (s, None))
                   (check_votes c feed
                      (s\<lparr>cs_precommits := bt_put (cm_pkey msg) block_hash_sig (cs_precommits s)\<rparr>))))"

text \<open>One message, given the function for the nested calls.\<close>

definition feed_step :: "('g, 'f) crypto \<Rightarrow> 'f feeder \<Rightarrow> 'f feeder" where
  "feed_step c feed msg s =
     (if validate_message c msg \<noteq> Ok () then Some (s, Some InvalidMessageSignature)
      else if bt_get (cs_validators s) (cm_pkey msg) = None
      then Some (s, Some (UnknownMessagePeer (cm_pkey msg)))
      else if cm_epoch msg \<noteq> cs_epoch s then Some (s, None)
      else if cm_round msg < cs_round s then Some (s, None)
      else if cm_round msg > cs_round s then Some (s\<lparr>cs_inbox := cs_inbox s @ [msg]\<rparr>, None)
      else if cs_state s = ProposeState then
        (case cm_body msg of
           Proposal proposal \<Rightarrow> on_proposal c feed msg proposal s
         | _ \<Rightarrow> Some (s\<lparr>cs_inbox := cs_inbox s @ [msg]\<rparr>, None))
      else Option.bind (cs_block_hash s) (\<lambda>expected_block_hash.
        if expected_block_hash \<noteq> cm_block_hash msg
        then Some (s, Some (InvalidRequestHash expected_block_hash (cm_block_hash msg) (cm_pkey msg)))
        else if cs_state s = CommitState then Some (s, None)
        else (case cm_body msg of
            Proposal _ \<Rightarrow>
              Some (s, Some (InvalidMessage (state_name (cs_state s)) (body_name (cm_body msg))))
          | _ \<Rightarrow> on_vote c feed msg s)))"

fun feed_message :: "('g, 'f) crypto \<Rightarrow> nat \<Rightarrow> 'f feeder" where
  "feed_message c 0 msg s = None"
| "feed_message c (Suc n) msg s = feed_step c (feed_message c n) msg s"

definition feed_depth :: nat where
  "feed_depth = 3"

abbreviation feed :: "('g, 'f) crypto \<Rightarrow> 'f feeder" where
  "feed c \<equiv> feed_message c feed_depth"

definition propose_unchecked ::
  "('g, 'f) crypto \<Rightarrow> hash \<Rightarrow> 'f MacroBlockProposal \<Rightarrow> 'f Consensus \<Rightarrow> 'f Consensus option" where
  "propose_unchecked c block_hash block_proposal s =
     send (feed c) (ConsensusMessage_new c (cs_epoch s) (cs_round s) block_hash (cs_skey s) (cs_pkey s)
                      (Proposal block_proposal)) s"

definition propose ::
  "('g, 'f) crypto \<Rightarrow> hash \<Rightarrow> 'f MacroBlockProposal \<Rightarrow> 'f Consensus \<Rightarrow> 'f Consensus option" where
  "propose c block_hash block_proposal s =
     (case should_propose c s of
        Some True \<Rightarrow> propose_unchecked c block_hash block_proposal s
      | _ \<Rightarrow> None)"

definition reset :: "('g, 'f) crypto \<Rightarrow> 'f Consensus \<Rightarrow> 'f Consensus option" where
  "reset c s =
     (let s = s\<lparr>cs_state := ProposeState, cs_prevotes := [], cs_precommits := [], cs_block := None,
                cs_block_hash := None, cs_proposal := None, cs_outbox := []\<rparr>
      in Option.bind (is_leader c s) (\<lambda>l.
           Option.bind
             (case cs_locked_round s of
                Some lr \<Rightarrow>
                  if l then propose_unchecked c (macro_digest c (lr_block lr)) (lr_proposal lr) s
                  else Some s
              | None \<Rightarrow> Some s)
             (process_inbox (feed c))))"

definition lock :: "('g, 'f) crypto \<Rightarrow> 'f Consensus \<Rightarrow> 'f Consensus option" where
  "lock c s =
     (if cs_state s \<noteq> PrecommitState then None
      else Option.bind (cs_block s) (\<lambda>block.
           Option.bind (cs_proposal s) (\<lambda>proposal.
             reset c (s\<lparr>cs_block := None, cs_proposal := None, cs_precommits := [],
                        cs_locked_round := Some \<lparr>lr_precommits = cs_precommits s, lr_block = block,
                                                 lr_proposal = proposal\<rparr>\<rparr>))))"

definition next_round :: "('g, 'f) crypto \<Rightarrow> 'f Consensus \<Rightarrow> 'f Consensus option" where
  "next_round c s =
     (if cs_state s = CommitState then None
      else
        let s = s\<lparr>cs_round := cs_round s + 1\<rparr>
        in if cs_state s = PrecommitState then lock c s else reset c s)"

definition commit :: "('g, 'f) crypto \<Rightarrow> 'f Consensus \<Rightarrow> 'f MacroBlock option" where
  "commit c s =
     (if \<not> should_commit s then None
      else Option.bind (cs_block s) (\<lambda>block.
             map_option (\<lambda>(msig, multisigmap). block\<lparr>ab_multisig := msig, ab_multisigmap := multisigmap\<rparr>)
               (create_multi_signature c (cs_validators s) (cs_precommits s))))"

section \<open>The depth of the calls\<close>

text \<open>
  A vote can trigger one more message (a pre-commit), and a proposal can trigger votes; outside
  the Propose state a proposal is rejected. So three levels of calls are enough, from every
  state.
\<close>

lemma feed_step_cong_late:
  assumes "cs_state s = PrecommitState \<or> cs_state s = CommitState"
  shows "feed_step c f msg s = feed_step c g msg s"
  using assms
  by (auto simp: feed_step_def on_vote_def check_votes_def
      split: ConsensusMessageBody.splits intro!: bind_option_cong)

lemma check_votes_cong:
  assumes "\<And>m t. cs_state t = PrecommitState \<Longrightarrow> f m t = g m t"
  shows "check_votes c f s = check_votes c g s"
  using assms
  by (auto simp: check_votes_def precommit_def send_def Let_def split: ConsensusState.splits
      intro!: bind_option_cong)

lemma feed_step_cong_vote:
  assumes "\<And>m t. cs_state t = PrecommitState \<Longrightarrow> f m t = g m t" "cs_state s \<noteq> ProposeState"
  shows "feed_step c f msg s = feed_step c g msg s"
  using assms(2) check_votes_cong [of f g c, OF assms(1)]
  by (auto simp: feed_step_def on_vote_def split: ConsensusMessageBody.splits intro!: bind_option_cong)

text \<open>A node does not return to the Propose state by a message.\<close>

definition voting :: "'f feeder \<Rightarrow> bool" where
  "voting f \<longleftrightarrow> (\<forall>m s s' e. cs_state s \<noteq> ProposeState \<longrightarrow> f m s = Some (s', e) \<longrightarrow> cs_state s' \<noteq> ProposeState)"

lemma votingD: "voting f \<Longrightarrow> f m s = Some (s', e) \<Longrightarrow> cs_state s \<noteq> ProposeState \<Longrightarrow> cs_state s' \<noteq> ProposeState"
  by (auto simp: voting_def)

lemma send_voting:
  "voting f \<Longrightarrow> send f m s = Some s' \<Longrightarrow> cs_state s \<noteq> ProposeState \<Longrightarrow> cs_state s' \<noteq> ProposeState"
  by (auto simp: send_def split: option.splits dest: votingD)

lemma check_votes_voting:
  assumes "voting f" "check_votes c f s = Some s'" "cs_state s \<noteq> ProposeState"
  shows "cs_state s' \<noteq> ProposeState"
  using assms
  by (auto simp: check_votes_def precommit_def Let_def outcome_simps split: ConsensusState.splits if_splits
      dest: send_voting)

lemma feed_step_voting:
  assumes "voting f"
  shows "voting (feed_step c f)"
  unfolding voting_def
proof (intro allI impI)
  fix m s s' e
  assume "cs_state s \<noteq> ProposeState" "feed_step c f m s = Some (s', e)"
  then show "cs_state s' \<noteq> ProposeState"
    by (auto simp: feed_step_def on_vote_def outcome_simps
        split: ConsensusMessageBody.splits if_splits dest!: check_votes_voting [OF assms])
qed

lemma feed_message_voting: "voting (feed_message c n)"
proof (induction n)
  case (Suc n)
  have "feed_message c (Suc n) = feed_step c (feed_message c n)" by (intro ext) simp
  with feed_step_voting [OF Suc] show ?case by metis
qed (simp add: voting_def)

lemma prevote_cong:
  assumes "\<And>m t. cs_state t \<noteq> ProposeState \<Longrightarrow> f m t = g m t"
  shows "prevote c f b s = prevote c g b s"
  using assms by (auto simp: prevote_def should_prevote_def send_def Let_def split: option.splits)

lemma prevote_voting:
  "voting f \<Longrightarrow> prevote c f b s = Some s' \<Longrightarrow> cs_state s' \<noteq> ProposeState"
  by (auto simp: prevote_def should_prevote_def Let_def split: option.splits if_splits dest: send_voting)

lemma fold_inbox_cong:
  assumes "\<And>m t. cs_state t \<noteq> ProposeState \<Longrightarrow> f m t = g m t" "voting f" "cs_state s \<noteq> ProposeState"
  shows "fold_option (\<lambda>m s. map_option fst (f m s)) ms s = fold_option (\<lambda>m s. map_option fst (g m s)) ms s"
  using assms(3)
proof (induction ms arbitrary: s)
  case (Cons m ms)
  then show ?case
    using assms(1) [of s m] votingD [OF assms(2), of m s] by (cases "g m s") auto
qed simp

lemma process_inbox_cong:
  assumes "\<And>m t. cs_state t \<noteq> ProposeState \<Longrightarrow> f m t = g m t" "voting f" "cs_state s \<noteq> ProposeState"
  shows "process_inbox f s = process_inbox g s"
  unfolding process_inbox_def using assms by (intro fold_inbox_cong) auto

lemma feed_step_cong:
  assumes eq: "\<And>m t. cs_state t \<noteq> ProposeState \<Longrightarrow> f m t = g m t" and "voting f"
  shows "feed_step c f msg s = feed_step c g msg s"
proof -
  have votes: "check_votes c f = check_votes c g"
    using check_votes_cong [of f g c] eq by (intro ext) auto
  have inbox: "process_inbox f t = process_inbox g t" if "cs_state t \<noteq> ProposeState" for t
    using process_inbox_cong [OF eq assms(2) that] .
  have relock: "Option.bind (prevote c f b t) (\<lambda>y. Option.bind (process_inbox f y) h) =
      Option.bind (prevote c g b t) (\<lambda>y. Option.bind (process_inbox g y) h)" for b t h
    using prevote_cong [OF eq, where c = c and b = b and s = t] inbox
      prevote_voting [OF assms(2), where c = c and b = b and s = t]
    by (cases "prevote c g b t") auto
  have "on_proposal c f msg p s = on_proposal c g msg p s" for p
    using inbox by (auto simp: on_proposal_def Let_def votes relock split: option.splits intro!: bind_option_cong)
  moreover have "on_vote c f msg s = on_vote c g msg s"
    unfolding on_vote_def votes ..
  ultimately show ?thesis
    by (cases "cm_body msg") (auto simp: feed_step_def intro!: bind_option_cong)
qed

declare feed_message.simps [simp del]

lemma feed_message_Suc: "feed_message c (Suc n) = feed_step c (feed_message c n)"
  by (intro ext) (simp add: feed_message.simps)

lemma feed_message_depth:
  fixes s :: "'b Consensus"
  assumes "3 \<le> n"
  shows "feed_message c n msg s = feed_message c 3 msg s"
proof -
  have 1: "feed_message c (Suc i) m t = feed_message c (Suc j) m t" if "cs_state t = PrecommitState" for i j m t
    unfolding feed_message_Suc using that by (intro feed_step_cong_late) simp
  have 2: "feed_message c (Suc (Suc i)) m t = feed_message c (Suc (Suc j)) m t"
    if "cs_state t \<noteq> ProposeState" for i j m t
    unfolding feed_message_Suc [of c "Suc i"] feed_message_Suc [of c "Suc j"]
  proof (rule feed_step_cong_vote [where s = t, OF _ that])
    fix m' and t' :: "'b Consensus"
    assume "cs_state t' = PrecommitState"
    then show "feed_message c (Suc i) m' t' = feed_message c (Suc j) m' t'" by (rule 1)
  qed
  have 3: "feed_message c (Suc (Suc (Suc i))) m t = feed_message c (Suc (Suc (Suc j))) m t" for i j m t
    unfolding feed_message_Suc [of c "Suc (Suc i)"] feed_message_Suc [of c "Suc (Suc j)"]
  proof (rule feed_step_cong [OF _ feed_message_voting])
    fix m' and t' :: "'b Consensus"
    assume "cs_state t' \<noteq> ProposeState"
    then show "feed_message c (Suc (Suc i)) m' t' = feed_message c (Suc (Suc j)) m' t'" by (rule 2)
  qed
  have "n = Suc (Suc (Suc (n - 3)))" using assms by simp
  then obtain k where "n = Suc (Suc (Suc k))" ..
  then show ?thesis unfolding numeral_3_eq_3 by (simp only:) (rule 3)
qed

section \<open>Votes are quorums\<close>

definition slot_of :: "StakersGroup \<Rightarrow> pbc_pkey \<Rightarrow> i64" where
  "slot_of vs k = (case bt_get vs k of Some n \<Rightarrow> n | None \<Rightarrow> 0)"

definition group_valid :: "StakersGroup \<Rightarrow> bool" where
  "group_valid vs \<longleftrightarrow> slots_valid vs \<and> bt_inv vs"

text \<open>A validator is found by its key and by its index.\<close>

lemma slot_of_nth: "bt_inv vs \<Longrightarrow> i < length vs \<Longrightarrow> slot_of vs (fst (vs ! i)) = slots_at vs i"
  using map_of_is_SomeI [OF bt_inv_distinct, of vs "fst (vs ! i)" "snd (vs ! i)"]
  by (simp add: slot_of_def slots_at_def)

lemma sum_keys_index:
  assumes "bt_inv vs" "A \<subseteq> fst ` set vs"
  shows "(\<Sum>k \<in> A. f (slot_of vs k)) = (\<Sum>i | i < length vs \<and> fst (vs ! i) \<in> A. f (slots_at vs i))"
proof -
  have "inj_on (\<lambda>i. fst (vs ! i)) {i. i < length vs \<and> fst (vs ! i) \<in> A}"
  proof (rule inj_onI)
    fix i j
    assume "i \<in> {i. i < length vs \<and> fst (vs ! i) \<in> A}" "j \<in> {i. i < length vs \<and> fst (vs ! i) \<in> A}"
      "fst (vs ! i) = fst (vs ! j)"
    then show "i = j"
      using nth_eq_iff_index_eq [OF bt_inv_distinct [OF assms(1)], of i j] by simp
  qed
  moreover have "(\<lambda>i. fst (vs ! i)) ` {i. i < length vs \<and> fst (vs ! i) \<in> A} = A"
    using assms(2) by (force simp: in_set_conv_nth)
  ultimately show ?thesis
    by (intro sum.reindex_cong [of "\<lambda>i. fst (vs ! i)"]) (auto simp: slot_of_nth [OF assms(1)])
qed

lemma votes_slots_eq:
  assumes "distinct (map fst accepts)" "fst ` set accepts \<subseteq> fst ` set vs"
  shows "votes_slots vs accepts = Some (\<Sum>k \<in> fst ` set accepts. slot_of vs k)"
proof -
  have "fold_option (\<lambda>(pk, _) stake. map_option (\<lambda>s. stake + s) (bt_get vs pk)) accepts x =
      Some (x + (\<Sum>k \<in> fst ` set accepts. slot_of vs k))" for x
    using assms
  proof (induction accepts arbitrary: x)
    case (Cons v accepts)
    obtain n where "bt_get vs (fst v) = Some n"
      using Cons.prems(2) by (metis image_insert insert_subset list.simps(15) map_of_eq_None_iff option.exhaust)
    then show ?case
      using Cons by (cases v) (auto simp: slot_of_def add.assoc)
  qed simp
  then show ?thesis by (simp add: votes_slots_def)
qed

interpretation voters: quorum_system group_valid "\<lambda>vs. fst ` set vs" "\<lambda>vs k. sint (slot_of vs k)"
  "\<lambda>vs A. check_supermajority (\<Sum>k \<in> A. slot_of vs k) (slots_total vs) = Some True"
proof unfold_locales
  fix vs :: StakersGroup and A k
  assume valid: "group_valid vs"
  then have "slots_valid vs" "bt_inv vs" by (auto simp: group_valid_def)
  note index = sum_keys_index [OF \<open>bt_inv vs\<close>]
  show "0 < sint (slot_of vs k)" if "k \<in> fst ` set vs"
    using that slots_validD(1) [OF \<open>slots_valid vs\<close>] slot_of_nth [OF \<open>bt_inv vs\<close>]
    by (auto simp: in_set_conv_nth) (metis fst_conv)
  show "check_supermajority (\<Sum>k \<in> A. slot_of vs k) (slots_total vs) = Some True \<longleftrightarrow>
      2 * (\<Sum>k \<in> fst ` set vs. sint (slot_of vs k)) < 3 * (\<Sum>k \<in> A. sint (slot_of vs k))"
    if "A \<subseteq> fst ` set vs"
  proof -
    have all: "{i. i < length vs \<and> fst (vs ! i) \<in> fst ` set vs} = {..<length vs}" by auto
    show ?thesis
      using bitmap.accepts_iff [OF \<open>slots_valid vs\<close>, of "{i. i < length vs \<and> fst (vs ! i) \<in> A}"]
        index [OF that, of "\<lambda>x. x"] index [OF that, of sint] index [OF subset_refl, of sint]
      unfolding all by auto
  qed
qed simp

lemma check_supermajority_total:
  assumes "group_valid vs" "A \<subseteq> fst ` set vs"
  shows "\<exists>b. check_supermajority (\<Sum>k \<in> A. slot_of vs k) (slots_total vs) = Some b"
proof -
  have "slots_valid vs" "bt_inv vs" using assms(1) by (auto simp: group_valid_def)
  let ?I = "{i. i < length vs \<and> fst (vs ! i) \<in> A}"
  have "?I \<subseteq> {..<length vs}" by auto
  note S = slots_subset [OF \<open>slots_valid vs\<close> this] and T = slots_validD [OF \<open>slots_valid vs\<close>]
  show ?thesis
    using check_supermajority_iff [of "\<Sum>i \<in> ?I. slots_at vs i" "slots_total vs"] S T
      sum_keys_index [OF \<open>bt_inv vs\<close> assms(2), of "\<lambda>x. x"] by auto
qed

end
