(* ===== verification/Agreement.thy ===== *)
theory Agreement
  imports Consensus
begin

text \<open>
  The runs of a node in the consensus on a macro block: the invariant of its state, kept by every
  operation, from which it follows that no message of another validator makes the node panic,
  that a committed block carries a valid multi-signature, and what can be said about two nodes
  that commit.
\<close>

section \<open>Invariant\<close>

text \<open>
  What does not change in a round: the group of validators is valid and contains the node, its
  key pair signs and verifies, and every round has a leader.
\<close>

definition node_ok :: "('g, 'f) crypto \<Rightarrow> 'f Consensus \<Rightarrow> bool" where
  "node_ok c s \<longleftrightarrow>
     group_valid (cs_validators s) \<and> cs_total_slots s = slots_total (cs_validators s) \<and>
     bt_get (cs_validators s) (cs_pkey s) \<noteq> None \<and> g2_decodes c (cs_pkey s) \<and>
     (\<forall>h. g1_decodes c (bls_sign c (cs_skey s) h) \<and> bls_verify c (cs_pkey s) h (bls_sign c (cs_skey s) h)) \<and>
     (\<forall>view. select_leader c (cs_election_result s) view \<noteq> None)"

definition votes_ok :: "StakersGroup \<Rightarrow> votes \<Rightarrow> bool" where
  "votes_ok vs v \<longleftrightarrow> bt_inv v \<and> fst ` set v \<subseteq> fst ` set vs"

definition precommits_ok :: "('g, 'f) crypto \<Rightarrow> StakersGroup \<Rightarrow> hash \<Rightarrow> votes \<Rightarrow> bool" where
  "precommits_ok c vs h v \<longleftrightarrow>
     votes_ok vs v \<and> (\<forall>(pk, sig) \<in> set v. check_hash c h (Some sig) (Some pk) = Ok ())"

text \<open>The votes and the proposal of the round.\<close>

definition round_ok :: "('g, 'f) crypto \<Rightarrow> 'f Consensus \<Rightarrow> bool" where
  "round_ok c s \<longleftrightarrow>
     (if cs_state s = ProposeState
      then cs_prevotes s = [] \<and> cs_precommits s = [] \<and> cs_block s = None \<and> cs_block_hash s = None \<and>
           cs_proposal s = None
      else \<exists>h. cs_block_hash s = Some h \<and> cs_proposal s \<noteq> None \<and> votes_ok (cs_validators s) (cs_prevotes s) \<and>
           precommits_ok c (cs_validators s) h (cs_precommits s) \<and>
           (\<forall>b. cs_block s = Some b \<longrightarrow> macro_digest c b = h))"

definition consensus_inv :: "('g, 'f) crypto \<Rightarrow> 'f Consensus \<Rightarrow> bool" where
  "consensus_inv c s \<longleftrightarrow>
     node_ok c s \<and> round_ok c s \<and>
     (bt_get (cs_prevotes s) (cs_pkey s) \<noteq> None \<longrightarrow> cs_block s \<noteq> None) \<and>
     (cs_state s = CommitState \<longrightarrow> cs_check_supermajority s (cs_precommits s) = Some True) \<and>
     (\<forall>m \<in> set (cs_inbox s). cm_pkey m \<noteq> cs_pkey s) \<and>
     (\<forall>lr. cs_locked_round s = Some lr \<longrightarrow>
        precommits_ok c (cs_validators s) (macro_digest c (lr_block lr)) (lr_precommits lr))"

lemmas inv_defs = consensus_inv_def round_ok_def node_ok_def

text \<open>What a message of the node itself satisfies when it is fed.\<close>

definition own_msg :: "('g, 'f) crypto \<Rightarrow> 'f ConsensusMessage \<Rightarrow> 'f Consensus \<Rightarrow> bool" where
  "own_msg c msg s \<longleftrightarrow>
     cm_pkey msg = cs_pkey s \<and> validate_message c msg = Ok () \<and> cm_epoch msg = cs_epoch s \<and>
     cm_round msg = cs_round s \<and>
     (case cm_body msg of
        Proposal _ \<Rightarrow> cs_state s = ProposeState \<and> cs_leader c s = Some (cs_pkey s)
      | Prevote \<Rightarrow> cs_state s \<noteq> ProposeState \<and> cs_block_hash s = Some (cm_block_hash msg) \<and> cs_block s \<noteq> None
      | Precommit sig \<Rightarrow> cs_state s \<noteq> ProposeState \<and> cs_block_hash s = Some (cm_block_hash msg) \<and>
          check_hash c (cm_block_hash msg) (Some sig) (Some (cm_pkey msg)) = Ok ())"

definition cs_static ::
  "'f Consensus \<Rightarrow> pbc_skey \<times> pbc_pkey \<times> StakersGroup \<times> i64 \<times> u64 \<times> ElectionResult \<times> u32" where
  "cs_static s = (cs_skey s, cs_pkey s, cs_validators s, cs_total_slots s, cs_epoch s,
                  cs_election_result s, cs_round s)"

text \<open>The states that may follow within the round.\<close>

definition follows :: "('g, 'f) crypto \<Rightarrow> 'f Consensus \<Rightarrow> 'f Consensus \<Rightarrow> bool" where
  "follows c s s' \<longleftrightarrow>
     consensus_inv c s' \<and> cs_static s' = cs_static s \<and>
     (cs_state s \<noteq> ProposeState \<longrightarrow> cs_state s' \<noteq> ProposeState \<and> cs_block_hash s' = cs_block_hash s)"

lemma follows_trans: "follows c s t \<Longrightarrow> follows c t u \<Longrightarrow> follows c s u"
  by (auto simp: follows_def)

definition handles :: "('g, 'f) crypto \<Rightarrow> 'f ConsensusMessage \<Rightarrow> 'f Consensus \<Rightarrow> 'f fed \<Rightarrow> bool" where
  "handles c msg s r \<longleftrightarrow>
     (\<exists>s' e. r = Some (s', e) \<and> follows c s s' \<and> (cm_pkey msg = cs_pkey s \<longrightarrow> e = None))"

definition good_for :: "('g, 'f) crypto \<Rightarrow> ConsensusState set \<Rightarrow> 'f feeder \<Rightarrow> bool" where
  "good_for c S f \<longleftrightarrow>
     (\<forall>msg s. consensus_inv c s \<longrightarrow> cs_state s \<in> S \<longrightarrow> cm_pkey msg \<noteq> cs_pkey s \<or> own_msg c msg s \<longrightarrow>
        handles c msg s (f msg s))"

lemma good_forD:
  "good_for c S f \<Longrightarrow> consensus_inv c s \<Longrightarrow> cs_state s \<in> S \<Longrightarrow> cm_pkey msg \<noteq> cs_pkey s \<or> own_msg c msg s \<Longrightarrow>
   handles c msg s (f msg s)"
  by (auto simp: good_for_def)

lemma follows_refl: "consensus_inv c s \<Longrightarrow> follows c s s"
  by (simp add: follows_def)

lemma check_supermajority_cong [simp]:
  "cs_check_supermajority (s\<lparr>cs_outbox := out\<rparr>) v = cs_check_supermajority s v"
  "cs_check_supermajority (s\<lparr>cs_inbox := inb\<rparr>) v = cs_check_supermajority s v"
  "cs_check_supermajority (s\<lparr>cs_state := st\<rparr>) v = cs_check_supermajority s v"
  "cs_check_supermajority (s\<lparr>cs_prevotes := pv\<rparr>) v = cs_check_supermajority s v"
  "cs_check_supermajority (s\<lparr>cs_precommits := pc\<rparr>) v = cs_check_supermajority s v"
  "cs_check_supermajority (s\<lparr>cs_block := bl\<rparr>) v = cs_check_supermajority s v"
  by (simp_all add: cs_check_supermajority_def)

lemma inv_outbox [simp]: "consensus_inv c (s\<lparr>cs_outbox := out\<rparr>) = consensus_inv c s"
  by (simp add: inv_defs)

lemma inv_supermajority:
  assumes "consensus_inv c s" "votes_ok (cs_validators s) v"
  shows "\<exists>b. cs_check_supermajority s v = Some b"
  using assms check_supermajority_total [of "cs_validators s" "fst ` set v"]
  by (auto simp: cs_check_supermajority_def inv_defs votes_ok_def votes_slots_eq bt_inv_distinct)

lemma inv_votes:
  assumes "consensus_inv c s"
  shows "votes_ok (cs_validators s) (cs_prevotes s)" "votes_ok (cs_validators s) (cs_precommits s)"
  using assms by (auto simp: inv_defs precommits_ok_def votes_ok_def split: if_splits)

lemma own_validates:
  assumes "node_ok c s"
  shows "validate_message c (ConsensusMessage_new c epoch round h (cs_skey s) (cs_pkey s) body) = Ok ()"
  using assms
  by (simp add: validate_message_def ConsensusMessage_new_def check_hash_Ok_iff node_ok_def pbc_sign_hash_def
      outcome_simps)

lemma send_own:
  assumes "good_for c S f" "consensus_inv c s" "cs_state s \<in> S"
    "own_msg c msg (s\<lparr>cs_outbox := cs_outbox s @ [msg]\<rparr>)"
  shows "\<exists>s'. send f msg s = Some s' \<and> follows c s s'"
proof -
  let ?s = "s\<lparr>cs_outbox := cs_outbox s @ [msg]\<rparr>"
  have "consensus_inv c ?s"
    using assms(2) by simp
  then have "handles c msg ?s (f msg ?s)" using assms by (intro good_forD) auto
  moreover have "cm_pkey msg = cs_pkey ?s" using assms(4) by (simp add: own_msg_def)
  ultimately show ?thesis
    by (auto simp: handles_def send_def follows_def cs_static_def)
qed

lemma precommit_good:
  assumes "good_for c {PrecommitState} f" "consensus_inv c s" "cs_state s = PrecommitState" "cs_block s \<noteq> None"
  shows "\<exists>s'. precommit c f s = Some s' \<and> follows c s s'"
proof -
  obtain h where h: "cs_block_hash s = Some h" using assms(2,3) by (auto simp: inv_defs)
  have node: "node_ok c s" using assms(2) by (simp add: consensus_inv_def)
  let ?m = "ConsensusMessage_new c (cs_epoch s) (cs_round s) h (cs_skey s) (cs_pkey s)
              (Precommit (pbc_sign_hash c h (cs_skey s)))"
  have "own_msg c ?m (s\<lparr>cs_outbox := cs_outbox s @ [?m]\<rparr>)"
    using node assms(3) h own_validates [OF node]
    by (simp add: own_msg_def) (simp add: ConsensusMessage_new_def check_hash_Ok_iff node_ok_def pbc_sign_hash_def)
  from send_own [OF assms(1,2) _ this] assms(3,4) h show ?thesis
    by (simp add: precommit_def Let_def)
qed

lemma check_votes_good:
  assumes "consensus_inv c s" "cs_state s = PrevoteState \<Longrightarrow> good_for c {PrecommitState} f"
  shows "\<exists>s'. check_votes c f s = Some s' \<and> follows c s s'"
proof (cases "cs_state s")
  case PrevoteState
  obtain b where b: "cs_check_supermajority s (cs_prevotes s) = Some b"
    using inv_supermajority inv_votes assms(1) by blast
  let ?s = "s\<lparr>cs_state := PrecommitState\<rparr>"
  have inv: "consensus_inv c ?s" using assms(1) PrevoteState by (simp add: inv_defs)
  have "follows c s ?s" using inv by (simp add: follows_def cs_static_def)
  moreover have "bt_get (cs_prevotes s) (cs_pkey s) \<noteq> None \<Longrightarrow> \<exists>s'. precommit c f ?s = Some s' \<and> follows c ?s s'"
    using assms inv PrevoteState by (intro precommit_good) (auto simp: consensus_inv_def)
  ultimately show ?thesis
    using b PrevoteState follows_refl [OF assms(1)] follows_trans
    by (cases "b \<and> bt_get (cs_prevotes s) (cs_pkey s) \<noteq> None") (auto simp: check_votes_def Let_def)
next
  case PrecommitState
  obtain b where b: "cs_check_supermajority s (cs_precommits s) = Some b"
    using inv_supermajority inv_votes assms(1) by blast
  then have "b \<Longrightarrow> consensus_inv c (s\<lparr>cs_state := CommitState\<rparr>)"
    using assms(1) PrecommitState by (simp add: inv_defs)
  with b PrecommitState assms(1) show ?thesis
    by (auto simp: check_votes_def follows_def cs_static_def)
qed (use assms(1) in \<open>auto simp: check_votes_def follows_refl\<close>)

lemma votes_ok_put:
  "votes_ok vs v \<Longrightarrow> bt_get vs k \<noteq> None \<Longrightarrow> votes_ok vs (bt_put k x v)"
  by (auto simp: votes_ok_def set_bt_put dest: map_of_SomeD intro: rev_image_eqI)

lemma precommits_ok_put:
  "precommits_ok c vs h v \<Longrightarrow> bt_get vs k \<noteq> None \<Longrightarrow> check_hash c h (Some sig) (Some k) = Ok () \<Longrightarrow>
   precommits_ok c vs h (bt_put k sig v)"
  using bt_put_subset [of k sig v] by (auto simp: precommits_ok_def votes_ok_put)

lemma on_vote_good:
  assumes inv: "consensus_inv c s" and st: "cs_state s = PrevoteState \<or> cs_state s = PrecommitState"
    and f: "cs_state s = PrevoteState \<Longrightarrow> good_for c {PrecommitState} f"
    and msg: "cm_pkey msg \<noteq> cs_pkey s \<or> own_msg c msg s"
    and known: "bt_get (cs_validators s) (cm_pkey msg) \<noteq> None"
    and hash: "cs_block_hash s = Some (cm_block_hash msg)" and body: "\<And>p. cm_body msg \<noteq> Proposal p"
  shows "handles c msg s (on_vote c f msg s)"
proof -
  have voted: "handles c msg s (map_option (\<lambda>s. (s, None)) (check_votes c f t))"
    if "consensus_inv c t" "cs_state t = cs_state s" "cs_static t = cs_static s" "cs_block_hash t = cs_block_hash s" for t
    using check_votes_good [OF that(1), of f] f that
    by (auto simp: handles_def follows_def)
  show ?thesis
  proof (cases "cm_body msg")
    case Prevote
    let ?t = "s\<lparr>cs_prevotes := bt_put (cm_pkey msg) (cm_sig msg) (cs_prevotes s)\<rparr>"
    have "consensus_inv c ?t"
      using inv st known msg Prevote by (auto simp: inv_defs own_msg_def votes_ok_put)
    then show ?thesis using Prevote voted [of ?t] by (simp add: on_vote_def cs_static_def)
  next
    case (Precommit sig)
    let ?t = "s\<lparr>cs_precommits := bt_put (cm_pkey msg) sig (cs_precommits s)\<rparr>"
    show ?thesis
    proof (cases "check_hash c (cm_block_hash msg) (Some sig) (Some (cm_pkey msg)) = Ok ()")
      case True
      then have "consensus_inv c ?t"
        using inv st known hash by (auto simp: inv_defs precommits_ok_put)
      then show ?thesis using Precommit True hash voted [of ?t] by (simp add: on_vote_def cs_static_def)
    next
      case False
      with Precommit hash msg inv show ?thesis
        by (auto simp: on_vote_def own_msg_def handles_def outcome_simps follows_refl)
    qed
  qed (use body in blast)
qed

lemma inv_inbox:
  "consensus_inv c s \<Longrightarrow> cm_pkey msg \<noteq> cs_pkey s \<Longrightarrow> consensus_inv c (s\<lparr>cs_inbox := cs_inbox s @ [msg]\<rparr>)"
  by (auto simp: inv_defs)

text \<open>The part of \<open>feed_message\<close> before the state is looked at.\<close>

lemma feed_step_good:
  assumes "\<And>msg s. consensus_inv c s \<Longrightarrow> cs_state s \<in> S \<Longrightarrow> cm_pkey msg \<noteq> cs_pkey s \<or> own_msg c msg s \<Longrightarrow>
      bt_get (cs_validators s) (cm_pkey msg) \<noteq> None \<Longrightarrow> cs_block_hash s = Some (cm_block_hash msg) \<Longrightarrow>
      cs_state s = PrevoteState \<or> cs_state s = PrecommitState \<Longrightarrow> (\<And>p. cm_body msg \<noteq> Proposal p) \<Longrightarrow>
      handles c msg s (on_vote c f msg s)"
    and "\<And>msg s p. consensus_inv c s \<Longrightarrow> cs_state s \<in> S \<Longrightarrow> cs_state s = ProposeState \<Longrightarrow>
      cm_pkey msg \<noteq> cs_pkey s \<or> own_msg c msg s \<Longrightarrow> cm_body msg = Proposal p \<Longrightarrow>
      handles c msg s (on_proposal c f msg p s)"
  shows "good_for c S (feed_step c f)"
  unfolding good_for_def
proof (intro allI impI)
  fix msg s
  assume inv: "consensus_inv c s" and S: "cs_state s \<in> S" and msg: "cm_pkey msg \<noteq> cs_pkey s \<or> own_msg c msg s"
  have same: "handles c msg s (Some (s, e))" if "cm_pkey msg = cs_pkey s \<Longrightarrow> e = None" for e
    using that follows_refl [OF inv] by (auto simp: handles_def)
  have inbox: "handles c msg s (Some (s\<lparr>cs_inbox := cs_inbox s @ [msg]\<rparr>, None))" if "cm_pkey msg \<noteq> cs_pkey s"
    using that inv_inbox [OF inv] by (auto simp: handles_def follows_def cs_static_def)
  have known: "bt_get (cs_validators s) (cs_pkey s) \<noteq> None"
    using inv by (simp add: consensus_inv_def node_ok_def)
  show "handles c msg s (feed_step c f msg s)"
  proof (cases "validate_message c msg = Ok () \<and> bt_get (cs_validators s) (cm_pkey msg) \<noteq> None \<and>
      cm_epoch msg = cs_epoch s \<and> cm_round msg = cs_round s")
    case False
    have "\<not> own_msg c msg s"
      using False known by (auto simp: own_msg_def)
    with msg have "cm_pkey msg \<noteq> cs_pkey s" by simp
    with False show ?thesis by (auto simp: feed_step_def same inbox)
  next
    case True
    show ?thesis
    proof (cases "cs_state s = ProposeState")
      case state: True
      with True msg assms(2) [OF inv S _ msg] show ?thesis
        by (cases "cm_body msg") (auto simp: feed_step_def own_msg_def inbox)
    next
      case state: False
      then obtain h where h: "cs_block_hash s = Some h" using inv by (auto simp: inv_defs)
      with True state msg assms(1) [OF inv S msg] show ?thesis
        by (cases "cm_body msg"; cases "cs_state s") (auto simp: feed_step_def own_msg_def same)
    qed
  qed
qed


lemma feed_good_late: "good_for c {PrecommitState, CommitState} (feed_step c f)"
  by (intro feed_step_good on_vote_good) auto

lemma feed_good_votes:
  assumes "good_for c {PrecommitState} f"
  shows "good_for c {PrevoteState, PrecommitState, CommitState} (feed_step c f)"
  using assms by (intro feed_step_good on_vote_good) auto

lemma good_for_subset: "good_for c S f \<Longrightarrow> T \<subseteq> S \<Longrightarrow> good_for c T f"
  by (auto simp: good_for_def)

definition late :: "ConsensusState set" where
  "late = {PrevoteState, PrecommitState, CommitState}"

lemma not_late [simp]: "st \<notin> late \<longleftrightarrow> st = ProposeState" "st \<in> late \<longleftrightarrow> st \<noteq> ProposeState"
  by (cases st; simp add: late_def)+

lemma fold_inbox_good:
  assumes "good_for c S f" "\<And>t. follows c s t \<Longrightarrow> cs_state t \<in> S"
    "consensus_inv c s" "\<forall>m \<in> set ms. cm_pkey m \<noteq> cs_pkey s"
  shows "\<exists>s'. fold_option (\<lambda>m s. map_option fst (f m s)) ms s = Some s' \<and> follows c s s'"
  using assms(2-)
proof (induction ms arbitrary: s)
  case (Cons m ms)
  have "handles c m s (f m s)"
    using good_forD [OF assms(1), of s m] Cons.prems follows_refl by auto
  then obtain s1 e where s1: "f m s = Some (s1, e)" "follows c s s1" by (auto simp: handles_def)
  then have "\<exists>s'. fold_option (\<lambda>m s. map_option fst (f m s)) ms s1 = Some s' \<and> follows c s1 s'"
    using Cons.prems by (intro Cons.IH) (auto simp: follows_def cs_static_def)
  with s1 show ?case using follows_trans by fastforce
qed (auto simp: follows_refl)

lemma process_inbox_good:
  assumes "good_for c S f" "consensus_inv c s" "S = UNIV \<or> S = late \<and> cs_state s \<noteq> ProposeState"
  shows "\<exists>s'. process_inbox f s = Some s' \<and> follows c s s'"
proof -
  let ?s = "s\<lparr>cs_inbox := []\<rparr>"
  have "consensus_inv c ?s" "\<forall>m \<in> set (cs_inbox s). cm_pkey m \<noteq> cs_pkey ?s"
    using assms(2) by (auto simp: inv_defs)
  moreover have "cs_state t \<in> S" if "follows c ?s t" for t
    using that assms(3) by (auto simp: follows_def)
  ultimately show ?thesis
    using fold_inbox_good [OF assms(1), of ?s "cs_inbox s"]
    by (auto simp: process_inbox_def follows_def cs_static_def)
qed

lemma prevote_good:
  assumes "good_for c late f" "consensus_inv c s" "should_prevote s" "cs_block_hash s = Some (macro_digest c b)"
  shows "\<exists>s'. prevote c f b s = Some s' \<and> follows c s s'"
proof -
  let ?s = "s\<lparr>cs_block := Some b\<rparr>"
  have st: "cs_state s \<noteq> ProposeState" "cs_proposal s \<noteq> None"
    using assms(2,3) by (auto simp: should_prevote_def inv_defs)
  have inv: "consensus_inv c ?s"
    using assms st by (auto simp: inv_defs)
  have node: "node_ok c s" using assms(2) by (simp add: consensus_inv_def)
  let ?m = "ConsensusMessage_new c (cs_epoch s) (cs_round s) (macro_digest c b) (cs_skey s) (cs_pkey s) Prevote"
  have "own_msg c ?m (?s\<lparr>cs_outbox := cs_outbox ?s @ [?m]\<rparr>)"
    using assms(4) st(1) own_validates [OF node]
    by (simp add: own_msg_def) (simp add: ConsensusMessage_new_def)
  then obtain t where "send f ?m ?s = Some t" "follows c ?s t"
    using send_own [OF assms(1) inv] st(1) by auto
  moreover have "follows c s ?s" using inv by (simp add: follows_def cs_static_def)
  ultimately show ?thesis
    using assms(3,4) st(2) follows_trans by (auto simp: prevote_def Let_def split: option.splits)
qed

lemma on_proposal_good:
  assumes f: "good_for c late f" and inv: "consensus_inv c s" and st: "cs_state s = ProposeState"
    and msg: "cm_pkey msg \<noteq> cs_pkey s \<or> own_msg c msg s" and body: "cm_body msg = Proposal p"
  shows "handles c msg s (on_proposal c f msg p s)"
proof -
  obtain l where l: "cs_leader c s = Some l"
    using inv by (fastforce simp: cs_leader_def consensus_inv_def node_ok_def)
  let ?t = "s\<lparr>cs_state := PrevoteState, cs_block := None, cs_block_hash := Some (cm_block_hash msg),
              cs_proposal := Some p\<rparr>"
  have empty: "cs_prevotes s = []" "cs_precommits s = []" "cs_block_hash s = None" "cs_proposal s = None"
    using inv st by (auto simp: inv_defs)
  have t: "consensus_inv c ?t"
    using inv st by (auto simp: inv_defs votes_ok_def precommits_ok_def)
  have relock: "\<exists>s'. prevote c f (lr_block lr)
        (?t\<lparr>cs_locked_round := None, cs_precommits := lr_precommits lr\<rparr>) = Some s' \<and>
      consensus_inv c s' \<and> cs_static s' = cs_static ?t \<and> cs_state s' \<noteq> ProposeState"
    if "cs_locked_round s = Some lr" "cm_block_hash msg = macro_digest c (lr_block lr)" for lr
  proof -
    let ?u = "?t\<lparr>cs_locked_round := None, cs_precommits := lr_precommits lr\<rparr>"
    have "consensus_inv c ?u"
      using t that empty by (auto simp: inv_defs)
    moreover have "should_prevote ?u" using empty by (simp add: should_prevote_def)
    ultimately show ?thesis
      using prevote_good [OF f, of ?u "lr_block lr"] that by (auto simp: follows_def cs_static_def)
  qed
  have rest: "\<exists>s'. Option.bind (process_inbox f u) (check_votes c f) = Some s' \<and> follows c s s'"
    if u: "consensus_inv c u" "cs_static u = cs_static ?t" "cs_state u \<noteq> ProposeState" for u
  proof -
    obtain v where v: "process_inbox f u = Some v" "follows c u v"
      using process_inbox_good [OF f u(1)] u(3) by auto
    moreover obtain w where "check_votes c f v = Some w" "follows c v w"
      using check_votes_good [of c v f] v(2) good_for_subset [OF f, of "{PrecommitState}"]
      by (auto simp: follows_def)
    ultimately show ?thesis using u(2) st by (auto simp: follows_def cs_static_def)
  qed
  show ?thesis
  proof (cases "cm_pkey msg = l")
    case False
    then show ?thesis using l msg body follows_refl [OF inv] by (auto simp: on_proposal_def handles_def own_msg_def)
  next
    case True
    let ?locked = "case cs_locked_round ?t of
                 Some lr \<Rightarrow>
                   if cm_block_hash msg = macro_digest c (lr_block lr)
                      \<and> digest c (hash_MacroBlockProposal c (lr_proposal lr))
                        = digest c (hash_MacroBlockProposal c p)
                   then prevote c f (lr_block lr)
                          (?t\<lparr>cs_locked_round := None, cs_precommits := lr_precommits lr\<rparr>)
                   else Some ?t
               | None \<Rightarrow> Some ?t"
    have "\<exists>u. ?locked = Some u \<and> consensus_inv c u \<and> cs_static u = cs_static ?t \<and> cs_state u \<noteq> ProposeState"
      using relock t by (auto split: option.splits)
    then obtain u where u: "?locked = Some u"
      "consensus_inv c u" "cs_static u = cs_static ?t" "cs_state u \<noteq> ProposeState" by blast
    obtain w where "Option.bind (process_inbox f u) (check_votes c f) = Some w" "follows c s w"
      using rest [OF u(2-4)] by blast
    then have "on_proposal c f msg p s = Some (w, None)"
      unfolding on_proposal_def Let_def l u(1) using True empty by simp
    then show ?thesis using \<open>follows c s w\<close> by (simp add: handles_def)
  qed
qed

lemma feed_good: "good_for c UNIV (feed c)"
proof -
  have 1: "good_for c {PrecommitState} (feed_message c 1)"
    unfolding One_nat_def feed_message_Suc by (rule good_for_subset [OF feed_good_late]) simp
  have 2: "good_for c late (feed_message c 2)"
    using feed_good_votes [OF 1] by (simp add: feed_message_Suc numeral_2_eq_2 late_def)
  have "good_for c UNIV (feed_step c (feed_message c 2))"
    using on_proposal_good [OF 2] good_for_subset [OF 2, of "{PrecommitState}"]
    by (intro feed_step_good on_vote_good) auto
  then show ?thesis by (simp add: feed_depth_def feed_message_Suc numeral_3_eq_3 numeral_2_eq_2)
qed

section \<open>Runs of a node\<close>

text \<open>What \<open>reset\<close> relies on: the votes of the old round do not matter.\<close>

definition reset_ok :: "('g, 'f) crypto \<Rightarrow> 'f Consensus \<Rightarrow> bool" where
  "reset_ok c s \<longleftrightarrow>
     node_ok c s \<and> (\<forall>m \<in> set (cs_inbox s). cm_pkey m \<noteq> cs_pkey s) \<and>
     (\<forall>lr. cs_locked_round s = Some lr \<longrightarrow>
        precommits_ok c (cs_validators s) (macro_digest c (lr_block lr)) (lr_precommits lr))"

lemma propose_unchecked_good:
  assumes "consensus_inv c s" "cs_state s = ProposeState" "is_leader c s = Some True"
  shows "\<exists>s'. propose_unchecked c h p s = Some s' \<and> follows c s s'"
proof -
  have node: "node_ok c s" using assms(1) by (simp add: consensus_inv_def)
  let ?m = "ConsensusMessage_new c (cs_epoch s) (cs_round s) h (cs_skey s) (cs_pkey s) (Proposal p)"
  have "own_msg c ?m (s\<lparr>cs_outbox := cs_outbox s @ [?m]\<rparr>)"
    using assms(2,3) own_validates [OF node]
    by (auto simp: own_msg_def is_leader_def cs_leader_def) (simp_all add: ConsensusMessage_new_def cs_leader_def)
  from send_own [OF feed_good assms(1) _ this] show ?thesis by (simp add: propose_unchecked_def)
qed

lemma reset_good:
  assumes "reset_ok c s"
  shows "\<exists>s'. reset c s = Some s' \<and> consensus_inv c s' \<and> cs_static s' = cs_static s"
proof -
  let ?s = "s\<lparr>cs_state := ProposeState, cs_prevotes := [], cs_precommits := [], cs_block := None,
               cs_block_hash := None, cs_proposal := None, cs_outbox := []\<rparr>"
  have inv: "consensus_inv c ?s" using assms by (auto simp: inv_defs reset_ok_def)
  have st: "cs_static ?s = cs_static s" by (simp add: cs_static_def)
  obtain l where l: "is_leader c ?s = Some l"
    using inv by (fastforce simp: is_leader_def cs_leader_def consensus_inv_def node_ok_def)
  let ?r = "case cs_locked_round ?s of
      Some lr \<Rightarrow> if l then propose_unchecked c (macro_digest c (lr_block lr)) (lr_proposal lr) ?s else Some ?s
    | None \<Rightarrow> Some ?s"
  have "\<exists>t. ?r = Some t \<and> follows c ?s t"
    using propose_unchecked_good [OF inv _ ] l follows_refl [OF inv] by (auto split: option.splits)
  then obtain t where t: "?r = Some t" "follows c ?s t" by blast
  obtain u where u: "process_inbox (feed c) t = Some u" "follows c t u"
    using process_inbox_good [OF feed_good, of c t] t(2) by (auto simp: follows_def)
  have "reset c s = Some u"
    unfolding reset_def Let_def l using t(1) u(1) by simp
  moreover have "consensus_inv c u" "cs_static u = cs_static s"
    using t(2) u(2) st by (auto simp: follows_def)
  ultimately show ?thesis by blast
qed

lemma inv_reset_ok: "consensus_inv c s \<Longrightarrow> reset_ok c s"
  by (simp add: reset_ok_def consensus_inv_def)

text \<open>
  A round may only be ended in the Precommit state once the block is known, which is what
  \<open>lock\<close> asserts.
\<close>

lemma next_round_good:
  assumes "consensus_inv c s" "cs_state s \<noteq> CommitState" "cs_state s = PrecommitState \<Longrightarrow> cs_block s \<noteq> None"
  shows "\<exists>s'. next_round c s = Some s' \<and> consensus_inv c s'"
proof (cases "cs_state s = PrecommitState")
  case True
  then obtain b p where b: "cs_block s = Some b" "cs_proposal s = Some p"
    "precommits_ok c (cs_validators s) (macro_digest c b) (cs_precommits s)"
    using assms by (auto simp: inv_defs)
  let ?s = "s\<lparr>cs_round := cs_round s + 1, cs_block := None, cs_proposal := None, cs_precommits := [],
              cs_locked_round := Some \<lparr>lr_precommits = cs_precommits s, lr_block = b, lr_proposal = p\<rparr>\<rparr>"
  have "reset_ok c ?s" using inv_reset_ok [OF assms(1)] b(3) by (simp add: reset_ok_def node_ok_def)
  from reset_good [OF this] b(1,2) True show ?thesis by (auto simp: next_round_def lock_def Let_def)
next
  case False
  have "reset_ok c (s\<lparr>cs_round := cs_round s + 1\<rparr>)"
    using inv_reset_ok [OF assms(1)] by (simp add: reset_ok_def node_ok_def)
  from reset_good [OF this] False assms(2) show ?thesis by (auto simp: next_round_def Let_def)
qed

lemma new_inv:
  assumes "Consensus_new epoch skey pkey er vs = Some s" "node_ok c s"
  shows "consensus_inv c s"
  using assms by (auto simp: inv_defs Consensus_new_def split: if_splits)

text \<open>
  The runs of a node: it is created among its validators, it is given the messages of other
  validators, it proposes, pre-votes for a proposed block it has validated, starts a new round
  and sends what is queued.
\<close>

inductive consensus_reach :: "('g, 'f) crypto \<Rightarrow> 'f Consensus \<Rightarrow> bool" for c where
  reach_new: "Consensus_new epoch skey pkey er vs = Some s \<Longrightarrow> node_ok c s \<Longrightarrow> consensus_reach c s"
| reach_feed: "consensus_reach c s \<Longrightarrow> cm_pkey msg \<noteq> cs_pkey s \<Longrightarrow> feed c msg s = Some (s', e) \<Longrightarrow>
    consensus_reach c s'"
| reach_propose: "consensus_reach c s \<Longrightarrow> propose c h p s = Some s' \<Longrightarrow> consensus_reach c s'"
| reach_prevote: "consensus_reach c s \<Longrightarrow> prevote c (feed c) b s = Some s' \<Longrightarrow> consensus_reach c s'"
| reach_next_round: "consensus_reach c s \<Longrightarrow> next_round c s = Some s' \<Longrightarrow> consensus_reach c s'"
| reach_reset: "consensus_reach c s \<Longrightarrow> reset c s = Some s' \<Longrightarrow> consensus_reach c s'"
| reach_flush: "consensus_reach c s \<Longrightarrow> consensus_reach c (s\<lparr>cs_outbox := []\<rparr>)"

lemma reach_inv: "consensus_reach c s \<Longrightarrow> consensus_inv c s"
proof (induction rule: consensus_reach.induct)
  case (reach_new epoch skey pkey er vs s)
  then show ?case by (rule new_inv)
next
  case (reach_feed s msg s' e)
  then have "handles c msg s (feed c msg s)"
    using good_forD [OF feed_good, of c s msg] by auto
  with reach_feed show ?case by (auto simp: handles_def follows_def)
next
  case (reach_propose s h p s')
  then show ?case
    using propose_unchecked_good [of c s h p]
    by (auto simp: propose_def should_propose_def follows_def split: option.splits bool.splits if_splits)
next
  case (reach_prevote s b s')
  have "good_for c late (feed c)" using good_for_subset [OF feed_good] by blast
  moreover have "should_prevote s" "cs_block_hash s = Some (macro_digest c b)"
    using reach_prevote(2) by (auto simp: prevote_def Let_def split: if_splits)
  ultimately show ?case
    using prevote_good [of c "feed c" s b] reach_prevote by (auto simp: follows_def)
next
  case (reach_next_round s s')
  then have "cs_state s \<noteq> CommitState" "cs_state s = PrecommitState \<Longrightarrow> cs_block s \<noteq> None"
    by (auto simp: next_round_def lock_def Let_def split: if_splits bind_splits)
  with reach_next_round next_round_good [of c s] show ?case by auto
next
  case (reach_reset s s')
  then show ?case using reset_good [OF inv_reset_ok, of c s] by auto
qed simp

section \<open>Sample run\<close>

text \<open>A node that is the only validator: it proposes and commits a block on its own.\<close>

definition sample_election :: ElectionResult where
  "sample_election =
     \<lparr>er_random = sample_vrf, er_view_change = 0, er_validators = [(1, 1)], facilitator = 1\<rparr>"

definition sample_node :: "8 word Consensus" where
  "sample_node =
     \<lparr>cs_skey = 1, cs_pkey = 1, cs_validators = [(1, 1)], cs_total_slots = 1, cs_epoch = 3,
      cs_election_result = sample_election, cs_state = ProposeState, cs_round = 0,
      cs_block = None, cs_block_hash = None, cs_proposal = None, cs_locked_round = None,
      cs_prevotes = [], cs_precommits = [], cs_inbox = [], cs_outbox = []\<rparr>"

definition sample_header :: "8 word MacroBlockHeader" where
  "sample_header =
     \<lparr>ah_version = 1, ah_previous = 0, ah_epoch = 3, ah_view_change = 0, ah_pkey = 1,
      ah_random = sample_vrf, ah_difficulty = 0, ah_timestamp = 0, ah_block_reward = 0, ah_gamma = 0,
      ah_activity_map = [], ah_validators_len = 1, ah_validators_range_hash = 0, ah_inputs_len = 0,
      ah_inputs_range_hash = 0, ah_outputs_len = 0, ah_outputs_range_hash = 0,
      ah_canaries_range_hash = 0\<rparr>"

definition sample_macro :: "8 word MacroBlock" where
  "sample_macro =
     \<lparr>ab_header = sample_header, ab_multisig = None, ab_multisigmap = [], ab_inputs = [], ab_outputs = []\<rparr>"

definition sample_proposal :: "8 word MacroBlockProposal" where
  "sample_proposal = \<lparr>mp_header = sample_header, mp_transactions = []\<rparr>"

lemma sample_leader: "select_leader sample_crypto sample_election view = Some 1"
  using unwrap_winner_total [of "[(1, 1)]"]
  by (simp add: select_leader_def sample_election_def stakes_ok_def signed_simps)

lemma sample_node_ok: "node_ok sample_crypto sample_node"
  by (simp add: node_ok_def sample_node_def sample_leader group_valid_def slots_valid_def slots_total_def
      signed_simps) (simp add: sample_crypto_def)

lemma sample_node_new: "Consensus_new 3 1 1 sample_election [(1, 1)] = Some sample_node"
  by (simp add: Consensus_new_def sample_node_def)

lemma sample_super: "check_supermajority 1 1 = Some True" "check_supermajority 0 1 = Some False"
  by (simp_all add: check_supermajority_iff signed_simps)

lemma sample_validates:
  "validate_message sample_crypto (ConsensusMessage_new sample_crypto e r h 1 1 body) = Ok ()"
  using own_validates [OF sample_node_ok, of e r h body] by (simp add: sample_node_def)

lemma sample_new_fields [simp]:
  "cm_pkey (ConsensusMessage_new c e r h sk pk body) = pk"
  "cm_round (ConsensusMessage_new c e r h sk pk body) = r"
  "cm_epoch (ConsensusMessage_new c e r h sk pk body) = e"
  "cm_block_hash (ConsensusMessage_new c e r h sk pk body) = h"
  "cm_body (ConsensusMessage_new c e r h sk pk body) = body"
  by (simp_all add: ConsensusMessage_new_def)

lemmas run_simps = sample_node_def feed_depth_def numeral_3_eq_3 feed_message_Suc feed_step_def sample_validates
  send_def cs_leader_def sample_leader check_votes_def process_inbox_def cs_check_supermajority_def
  votes_slots_def Let_def sample_super

lemma sample_signed: "is_ok (check_hash sample_crypto h (Some (pbc_sign_hash sample_crypto h 1)) (Some 1))"
  by (simp add: check_hash_def pbc_sign_hash_def sample_crypto_def)

definition sample_alone :: "'f Consensus \<Rightarrow> bool" where
  "sample_alone s \<longleftrightarrow> cs_skey s = 1 \<and> cs_pkey s = 1 \<and> cs_validators s = [(1, 1)] \<and> cs_total_slots s = 1"

lemma sample_precommit:
  assumes "sample_alone s" "cs_state s = PrecommitState" "cs_block_hash s = Some h" "cs_precommits s = []"
  shows "feed_message sample_crypto (Suc n) (ConsensusMessage_new sample_crypto (cs_epoch s) (cs_round s) h 1 1
           (Precommit (pbc_sign_hash sample_crypto h 1))) s =
    Some (s\<lparr>cs_precommits := [(1, pbc_sign_hash sample_crypto h 1)], cs_state := CommitState\<rparr>, None)"
  using assms sample_signed [of h]
  by (simp add: feed_message_Suc feed_step_def sample_validates on_vote_def check_votes_def sample_alone_def
      cs_check_supermajority_def votes_slots_def sample_super)

lemma sample_prevote:
  assumes "sample_alone s" "cs_state s = PrevoteState" "cs_block_hash s = Some h" "cs_precommits s = []"
    "cs_prevotes s = []" "cs_block s = Some b"
  shows "\<exists>s'. feed_message sample_crypto (Suc (Suc n))
           (ConsensusMessage_new sample_crypto (cs_epoch s) (cs_round s) h 1 1 Prevote) s = Some (s', None) \<and>
    cs_state s' = CommitState \<and> cs_block s' = Some b \<and> cs_block_hash s' = Some h \<and> cs_validators s' = [(1, 1)]"
proof -
  let ?m = "ConsensusMessage_new sample_crypto (cs_epoch s) (cs_round s) h 1 1 Prevote"
  let ?m' = "ConsensusMessage_new sample_crypto (cs_epoch s) (cs_round s) h 1 1
               (Precommit (pbc_sign_hash sample_crypto h 1))"
  let ?t = "s\<lparr>cs_prevotes := [(1, cm_sig ?m)], cs_state := PrecommitState, cs_outbox := cs_outbox s @ [?m']\<rparr>"
  from sample_precommit [of ?t h n] assms
  have "feed_message sample_crypto (Suc n) ?m' ?t =
      Some (?t\<lparr>cs_precommits := [(1, pbc_sign_hash sample_crypto h 1)], cs_state := CommitState\<rparr>, None)"
    by (simp add: sample_alone_def)
  then show ?thesis
    using assms unfolding feed_message_Suc [of _ "Suc n"]
    by (simp add: feed_step_def sample_validates on_vote_def check_votes_def sample_alone_def precommit_def send_def
      cs_check_supermajority_def votes_slots_def sample_super Let_def)
qed

lemma sample_run:
  "\<exists>s. consensus_reach sample_crypto s \<and> cs_state s = CommitState \<and> cs_block s = Some sample_macro \<and>
       cs_block_hash s = Some (macro_digest sample_crypto sample_macro) \<and> cs_validators s = [(1, 1)]"
proof -
  let ?h = "macro_digest sample_crypto sample_macro"
  let ?m = "ConsensusMessage_new sample_crypto 3 0 ?h 1 1 (Proposal sample_proposal)"
  let ?m' = "ConsensusMessage_new sample_crypto 3 0 ?h 1 1 Prevote"
  define s1 where "s1 = sample_node\<lparr>cs_state := PrevoteState, cs_block_hash := Some ?h,
      cs_proposal := Some sample_proposal, cs_outbox := [?m]\<rparr>"
  have "propose sample_crypto ?h sample_proposal sample_node = Some s1"
    by (simp add: propose_def should_propose_def is_leader_def propose_unchecked_def on_proposal_def
      run_simps s1_def)
  then have reach: "consensus_reach sample_crypto s1"
    using reach_new [OF sample_node_new sample_node_ok] by (blast intro: reach_propose)
  define s2 where "s2 = s1\<lparr>cs_block := Some sample_macro, cs_outbox := [?m, ?m']\<rparr>"
  obtain s where s: "feed_message sample_crypto (Suc (Suc 1)) ?m' s2 = Some (s, None)"
    "cs_state s = CommitState" "cs_block s = Some sample_macro" "cs_block_hash s = Some ?h"
    "cs_validators s = [(1, 1)]"
    using sample_prevote [of s2 ?h sample_macro 1]
    by (auto simp: sample_alone_def s1_def s2_def sample_node_def)
  then have "prevote sample_crypto (feed sample_crypto) sample_macro s1 = Some s"
    by (simp add: prevote_def should_prevote_def send_def Let_def s1_def s2_def sample_node_def feed_depth_def
      numeral_3_eq_3)
  with reach s show ?thesis by (blast intro: reach_prevote)
qed

section \<open>Properties\<close>

text \<open>
  C7: no message of another validator, valid or not, in whatever state the node has reached,
  makes \<open>feed_message\<close> panic or recurse without end: three levels of calls are enough. The
  result keeps the invariant of the node.
\<close>

theorem consensus_feed_total:
  assumes "consensus_reach c s" "cm_pkey msg \<noteq> cs_pkey s" "3 \<le> n"
  shows "\<exists>s' e. feed_message c n msg s = Some (s', e) \<and> consensus_inv c s'"
proof -
  have "handles c msg s (feed c msg s)"
    using good_forD [OF feed_good reach_inv [OF assms(1)]] assms(2) by simp
  then show ?thesis
    using feed_message_depth [OF assms(3), of c msg s] by (auto simp: handles_def feed_depth_def follows_def)
qed

theorem consensus_feed_total_witness:
  "\<exists>s' e. feed_message sample_crypto 5
     (ConsensusMessage_new sample_crypto 3 0 7 2 2 Prevote) sample_node = Some (s', e) \<and>
     consensus_inv sample_crypto s'"
  by (rule consensus_feed_total [OF reach_new [OF sample_node_new sample_node_ok]])
    (simp_all add: sample_node_def)

text \<open>
  C8: the invariant of the consensus state holds after every sequence of operations, and no
  operation of the node panics when its guard holds: a new round outside the Commit state (in the
  Precommit state, once the block is known), a proposal of the leader, a pre-vote for the
  proposed block.
\<close>

theorem consensus_invariant:
  assumes "consensus_reach c s"
  shows "consensus_inv c s \<and>
    (cs_state s \<noteq> CommitState \<longrightarrow> (cs_state s = PrecommitState \<longrightarrow> cs_block s \<noteq> None) \<longrightarrow> next_round c s \<noteq> None) \<and>
    (should_propose c s = Some True \<longrightarrow> propose c h p s \<noteq> None) \<and>
    (should_prevote s \<longrightarrow> cs_block_hash s = Some (macro_digest c b) \<longrightarrow> prevote c (feed c) b s \<noteq> None)"
proof (intro conjI impI)
  show inv: "consensus_inv c s" by (rule reach_inv [OF assms])
  show "next_round c s \<noteq> None"
    if "cs_state s \<noteq> CommitState" "cs_state s = PrecommitState \<longrightarrow> cs_block s \<noteq> None"
    using next_round_good [OF inv] that by auto
  show "propose c h p s \<noteq> None" if "should_propose c s = Some True"
    using that propose_unchecked_good [OF inv, of h p]
    by (auto simp: propose_def should_propose_def split: if_splits)
  show "prevote c (feed c) b s \<noteq> None" if "should_prevote s" "cs_block_hash s = Some (macro_digest c b)"
    using prevote_good [OF good_for_subset [OF feed_good] inv that] by auto
qed

theorem consensus_invariant_witness:
  "consensus_inv sample_crypto sample_node \<and> next_round sample_crypto sample_node \<noteq> None \<and>
   propose sample_crypto 7 sample_proposal sample_node \<noteq> None"
  using consensus_invariant [OF reach_new [OF sample_node_new sample_node_ok], of 7 sample_proposal sample_macro]
  by (simp add: should_propose_def is_leader_def cs_leader_def sample_leader sample_node_def)

lemma inv_sigs_valid:
  assumes "precommits_ok c vs h v"
  shows "sigs_valid c h vs v"
  using assms by (auto simp: precommits_ok_def sigs_valid_def check_hash_Ok_iff dest!: map_of_SomeD)

lemma inv_commit_slots:
  assumes "consensus_inv c s" "cs_state s = CommitState"
  shows "check_supermajority (\<Sum>k \<in> fst ` set (cs_precommits s). slot_of (cs_validators s) k)
           (slots_total (cs_validators s)) = Some True"
  using assms inv_votes(2) [OF assms(1)]
  by (auto simp: consensus_inv_def cs_check_supermajority_def votes_ok_def votes_slots_eq bt_inv_distinct node_ok_def)

text \<open>
  C6: a node in the Commit state that knows the block produces a block whose multi-signature
  passes the check of every other node.
\<close>

theorem consensus_commit_valid:
  assumes "bls_laws c" "consensus_reach c s" "cs_state s = CommitState" "cs_block s = Some b"
    and "length (cs_validators s) < 2 ^ 32"
  shows "\<exists>b'. commit c s = Some b' \<and> ab_header b' = ab_header b \<and>
    check_multi_signature c (macro_digest c b') (ab_multisig b') (ab_multisigmap b')
      (cs_validators s) (slots_total (cs_validators s)) = Ok ()"
proof -
  let ?vs = "cs_validators s" and ?v = "cs_precommits s"
  have inv: "consensus_inv c s" by (rule reach_inv [OF assms(2)])
  then have vs: "group_valid ?vs" and v: "precommits_ok c ?vs (macro_digest c b) ?v"
    using assms(3,4) by (auto simp: inv_defs)
  have "fst ` set ?v \<subseteq> fst ` set ?vs" using v by (simp add: precommits_ok_def votes_ok_def)
  moreover have "{i. i < length ?vs \<and> signed_by ?v (?vs ! i)} = {i. i < length ?vs \<and> fst (?vs ! i) \<in> fst ` set ?v}"
    by (auto simp: map_of_eq_None_iff)
  ultimately have "check_supermajority (\<Sum>i | i < length ?vs \<and> signed_by ?v (?vs ! i). slots_at ?vs i)
      (slots_total ?vs) = Some True"
    using inv_commit_slots [OF inv assms(3)] sum_keys_index [of ?vs "fst ` set ?v" "\<lambda>x. x"] vs
    by (simp add: group_valid_def)
  from create_check_multi_signature [OF assms(1) _ assms(5) inv_sigs_valid [OF v] this] vs
  obtain msig bm where "create_multi_signature c ?vs ?v = Some (msig, bm)"
    "check_multi_signature c (macro_digest c b) msig bm ?vs (slots_total ?vs) = Ok ()"
    by (auto simp: group_valid_def)
  then show ?thesis
    using assms(3,4) by (simp add: commit_def should_commit_def macro_digest_def hash_MacroBlock_def)
qed

theorem consensus_commit_valid_witness:
  "\<exists>s b. commit sample_crypto s = Some b \<and> ab_header b = ab_header sample_macro \<and>
     check_multi_signature sample_crypto (macro_digest sample_crypto b) (ab_multisig b) (ab_multisigmap b)
       [(1, 1)] (slots_total [(1, 1)]) = Ok ()"
proof -
  obtain s where "consensus_reach sample_crypto s" "cs_state s = CommitState" "cs_block s = Some sample_macro"
    "cs_validators s = [(1, 1)]" using sample_run by blast
  then show ?thesis using consensus_commit_valid [OF sample_crypto_bls, of s sample_macro] by auto
qed

text \<open>
  C2: agreement is accountable. When two nodes of the same group commit, whatever their rounds,
  then outside every set of validators that holds at most a third of the slots there is a
  validator whose valid pre-commit signatures both nodes hold. So two different blocks are only
  committed if such a validator has signed the hashes of both.
\<close>

theorem consensus_commit_intersect:
  assumes "consensus_reach c s1" "cs_state s1 = CommitState" "cs_block_hash s1 = Some h1"
    and "consensus_reach c s2" "cs_state s2 = CommitState" "cs_block_hash s2 = Some h2"
    and "cs_validators s1 = vs" "cs_validators s2 = vs"
    and "F \<subseteq> fst ` set vs" "3 * (\<Sum>k \<in> F. sint (slot_of vs k)) \<le> (\<Sum>k \<in> fst ` set vs. sint (slot_of vs k))"
  shows "\<exists>pk sig1 sig2. pk \<in> fst ` set vs \<and> pk \<notin> F \<and>
    bt_get (cs_precommits s1) pk = Some sig1 \<and> check_hash c h1 (Some sig1) (Some pk) = Ok () \<and>
    bt_get (cs_precommits s2) pk = Some sig2 \<and> check_hash c h2 (Some sig2) (Some pk) = Ok ()"
proof -
  note inv = reach_inv [OF assms(1)] reach_inv [OF assms(4)]
  have v: "precommits_ok c vs h1 (cs_precommits s1)" "precommits_ok c vs h2 (cs_precommits s2)" "group_valid vs"
    using inv assms(2,3,5-8) by (auto simp: inv_defs)
  have "\<exists>pk \<in> fst ` set (cs_precommits s1) \<inter> fst ` set (cs_precommits s2). pk \<notin> F"
    using v inv_commit_slots [OF inv(1)] inv_commit_slots [OF inv(2)] assms(2,5,7-10)
    by (intro voters.accepts_honest [of vs]) (auto simp: precommits_ok_def votes_ok_def)
  then obtain pk where pk: "pk \<in> fst ` set (cs_precommits s1)" "pk \<in> fst ` set (cs_precommits s2)" "pk \<notin> F" by blast
  have signed: "\<exists>sig. bt_get v pk = Some sig \<and> check_hash c h (Some sig) (Some pk) = Ok ()"
    if "precommits_ok c vs h v" "pk \<in> fst ` set v" for h v
    using that map_of_is_SomeI [OF bt_inv_distinct, of v pk] by (fastforce simp: precommits_ok_def votes_ok_def)
  moreover have "pk \<in> fst ` set vs" using v(1) pk(1) by (auto simp: precommits_ok_def votes_ok_def)
  ultimately show ?thesis
    using signed [OF v(1) pk(1)] signed [OF v(2) pk(2)] pk(3) by blast
qed

theorem consensus_commit_intersect_witness:
  "\<exists>s sig. consensus_reach sample_crypto s \<and> bt_get (cs_precommits s) 1 = Some sig \<and>
     check_hash sample_crypto (macro_digest sample_crypto sample_macro) (Some sig) (Some 1) = Ok ()"
proof -
  obtain s where s: "consensus_reach sample_crypto s" "cs_state s = CommitState"
    "cs_block_hash s = Some (macro_digest sample_crypto sample_macro)" "cs_validators s = [(1, 1)]"
    using sample_run by blast
  then show ?thesis
    using consensus_commit_intersect [OF s(1-3) s(1-4) s(4), of "{}"] by (auto simp: slot_of_def)
qed


section \<open>The lock of a round\<close>

lemma sample_validates2:
  "validate_message sample_crypto (ConsensusMessage_new sample_crypto e r h 2 2 body) = Ok ()"
  by (simp add: validate_message_def ConsensusMessage_new_def check_hash_def pbc_sign_hash_def outcome_simps)
    (simp add: sample_crypto_def)

text \<open>
  A node with key 1 beside the leader, who has key 2, with one slot each: both must vote.
\<close>

definition pair_election :: ElectionResult where
  "pair_election =
     \<lparr>er_random = sample_vrf, er_view_change = 0, er_validators = [(2, 1)], facilitator = 2\<rparr>"

definition pair_node :: "8 word Consensus" where
  "pair_node = sample_node\<lparr>cs_validators := [(1, 1), (2, 1)], cs_total_slots := 2, cs_election_result := pair_election\<rparr>"

lemma pair_leader: "select_leader sample_crypto pair_election view = Some 2"
  using unwrap_winner_total [of "[(2, 1)]"]
  by (simp add: select_leader_def pair_election_def stakes_ok_def signed_simps)

lemma pair_super: "check_supermajority 2 2 = Some True" "check_supermajority 1 2 = Some False"
  by (simp_all add: check_supermajority_iff signed_simps)

lemma pair_reach: "consensus_reach sample_crypto pair_node"
proof (rule reach_new)
  show "Consensus_new 3 1 1 pair_election [(1, 1), (2, 1)] = Some pair_node"
    by (simp add: Consensus_new_def pair_node_def sample_node_def)
  show "node_ok sample_crypto pair_node"
    by (simp add: node_ok_def pair_node_def sample_node_def pair_leader group_valid_def slots_valid_def
      slots_total_def signed_simps) (simp add: sample_crypto_def)
qed

lemma pair_super0: "check_supermajority 0 2 = Some False"
  by (simp add: check_supermajority_iff signed_simps)

lemmas pair_simps = feed_message_Suc feed_step_def sample_validates sample_validates2 cs_leader_def pair_leader
  process_inbox_def check_votes_def cs_check_supermajority_def votes_slots_def pair_super pair_super0
  pair_node_def sample_node_def Let_def

lemma pair_precommit:
  assumes "cs_pkey s = 1" "cs_validators s = [(1, 1), (2, 1)]" "cs_total_slots s = 2"
    "cs_state s = PrecommitState" "cs_block_hash s = Some h" "cs_precommits s = []"
  shows "feed_message sample_crypto (Suc n) (ConsensusMessage_new sample_crypto (cs_epoch s) (cs_round s) h 1 1
           (Precommit (pbc_sign_hash sample_crypto h 1))) s =
    Some (s\<lparr>cs_precommits := [(1, pbc_sign_hash sample_crypto h 1)]\<rparr>, None)"
  using assms sample_signed [of h]
  by (simp add: feed_message_Suc feed_step_def sample_validates on_vote_def check_votes_def
      cs_check_supermajority_def votes_slots_def pair_super)

lemma sample_locked:
  "\<exists>s. consensus_reach sample_crypto s \<and> cs_state s = ProposeState \<and> cs_pkey s = 1 \<and> cs_round s = 1 \<and>
     cs_epoch s = 3 \<and> cs_inbox s = [] \<and> cs_validators s = [(1, 1), (2, 1)] \<and> cs_total_slots s = 2 \<and>
     cs_election_result s = pair_election \<and>
     (\<exists>v. cs_locked_round s = Some \<lparr>lr_precommits = v, lr_block = sample_macro, lr_proposal = sample_proposal\<rparr>)"
proof -
  let ?h = "macro_digest sample_crypto sample_macro"
  let ?m1 = "ConsensusMessage_new sample_crypto 3 0 ?h 1 1 Prevote"
  let ?m2 = "ConsensusMessage_new sample_crypto 3 0 ?h 2 2 Prevote"
  let ?m3 = "ConsensusMessage_new sample_crypto 3 0 ?h 1 1 (Precommit (pbc_sign_hash sample_crypto ?h 1))"
  define s1 where "s1 = pair_node\<lparr>cs_state := PrevoteState, cs_block_hash := Some ?h, cs_proposal := Some sample_proposal\<rparr>"
  have "feed sample_crypto (ConsensusMessage_new sample_crypto 3 0 ?h 2 2 (Proposal sample_proposal)) pair_node = Some (s1, None)"
    by (simp add: feed_depth_def numeral_3_eq_3 on_proposal_def s1_def pair_simps)
  then have "consensus_reach sample_crypto s1"
    by (rule reach_feed [OF pair_reach, rotated]) (simp add: pair_node_def sample_node_def)
  moreover define s2 where "s2 = s1\<lparr>cs_block := Some sample_macro, cs_outbox := [?m1], cs_prevotes := [(1, cm_sig ?m1)]\<rparr>"
  have "prevote sample_crypto (feed sample_crypto) sample_macro s1 = Some s2"
    by (simp add: prevote_def should_prevote_def send_def feed_depth_def numeral_3_eq_3 on_vote_def s1_def s2_def pair_simps)
  ultimately have reach2: "consensus_reach sample_crypto s2" by (rule reach_prevote)
  define s3 where "s3 = s2\<lparr>cs_state := PrecommitState, cs_prevotes := [(1, cm_sig ?m1), (2, cm_sig ?m2)],
      cs_outbox := [?m1, ?m3]\<rparr>"
  have own: "feed_message sample_crypto (Suc n) ?m3 s3 =
      Some (s3\<lparr>cs_precommits := [(1, pbc_sign_hash sample_crypto ?h 1)]\<rparr>, None)" for n
    using pair_precommit [of s3 ?h n] by (simp add: s1_def s2_def s3_def pair_node_def sample_node_def)
  have "feed sample_crypto ?m2 s2 = Some (s3\<lparr>cs_precommits := [(1, pbc_sign_hash sample_crypto ?h 1)]\<rparr>, None)"
    unfolding feed_depth_def numeral_3_eq_3 feed_message_Suc [of _ "Suc (Suc 0)"] using own [of 1]
    by (simp add: feed_step_def on_vote_def precommit_def send_def sample_validates2 check_votes_def
        cs_check_supermajority_def votes_slots_def pair_super s1_def s2_def s3_def pair_node_def sample_node_def Let_def)
  then have "consensus_reach sample_crypto (s3\<lparr>cs_precommits := [(1, pbc_sign_hash sample_crypto ?h 1)]\<rparr>)"
    by (rule reach_feed [OF reach2, rotated]) (simp add: s1_def s2_def pair_node_def sample_node_def)
  moreover have "\<exists>s. next_round sample_crypto (s3\<lparr>cs_precommits := [(1, pbc_sign_hash sample_crypto ?h 1)]\<rparr>) = Some s \<and>
     cs_state s = ProposeState \<and> cs_pkey s = 1 \<and> cs_round s = 1 \<and>
     cs_epoch s = 3 \<and> cs_inbox s = [] \<and> cs_validators s = [(1, 1), (2, 1)] \<and> cs_total_slots s = 2 \<and>
     cs_election_result s = pair_election \<and>
     (\<exists>v. cs_locked_round s = Some \<lparr>lr_precommits = v, lr_block = sample_macro, lr_proposal = sample_proposal\<rparr>)"
    by (simp add: next_round_def lock_def reset_def is_leader_def cs_leader_def pair_leader process_inbox_def
      s1_def s2_def s3_def pair_node_def sample_node_def Let_def)
  ultimately show ?thesis by (blast intro: reach_next_round)
qed

text \<open>
  C33: the lock on a block can be lost. A node that has pre-committed a block in an earlier round
  and is locked on it gives the lock up as soon as the leader proposes the same block again; if
  that round then ends without a supermajority of pre-votes, the next round starts without any
  lock, and the node is free to pre-vote another block although the earlier round may have been
  decided elsewhere.
\<close>

theorem consensus_lock_lost:
  assumes "consensus_reach c s" "cs_state s = ProposeState" "cs_locked_round s = Some lr" "cs_inbox s = []"
    and "validate_message c msg = Ok ()" "bt_get (cs_validators s) (cm_pkey msg) \<noteq> None"
    and "cs_leader c s = Some (cm_pkey msg)" "cm_epoch msg = cs_epoch s" "cm_round msg = cs_round s"
    and "cm_body msg = Proposal (lr_proposal lr)" "cm_block_hash msg = macro_digest c (lr_block lr)"
    and "check_supermajority (slot_of (cs_validators s) (cs_pkey s)) (cs_total_slots s) = Some False"
  shows "\<exists>s1 s2. feed c msg s = Some (s1, None) \<and> bt_get (cs_prevotes s1) (cs_pkey s) \<noteq> None \<and>
    next_round c s1 = Some s2 \<and> cs_state s2 = ProposeState \<and> cs_locked_round s2 = None"
proof -
  have inv: "consensus_inv c s" by (rule reach_inv [OF assms(1)])
  then have node: "node_ok c s" and empty: "cs_prevotes s = []" "cs_block_hash s = None" "cs_proposal s = None"
    using assms(2) by (simp_all add: consensus_inv_def round_ok_def)
  obtain n where n: "bt_get (cs_validators s) (cs_pkey s) = Some n" using node by (auto simp: node_ok_def)
  let ?h = "macro_digest c (lr_block lr)"
  let ?m = "ConsensusMessage_new c (cs_epoch s) (cs_round s) ?h (cs_skey s) (cs_pkey s) Prevote"
  define s1 where "s1 = s\<lparr>cs_state := PrevoteState, cs_block_hash := Some ?h,
      cs_proposal := Some (lr_proposal lr), cs_locked_round := None, cs_precommits := lr_precommits lr,
      cs_block := Some (lr_block lr), cs_outbox := cs_outbox s @ [?m], cs_prevotes := [(cs_pkey s, cm_sig ?m)]\<rparr>"
  have votes: "check_votes c f s1 = Some s1" for f
    using assms n by (simp add: check_votes_def cs_check_supermajority_def votes_slots_def slot_of_def s1_def)
  have inbox: "process_inbox f s1 = Some s1" for f
    using assms(4) by (simp add: process_inbox_def s1_def)
  define u where "u = s\<lparr>cs_state := PrevoteState, cs_block := None, cs_block_hash := Some ?h,
      cs_proposal := Some (lr_proposal lr), cs_locked_round := None, cs_precommits := lr_precommits lr\<rparr>"
  have "feed_message c (Suc k) ?m (u\<lparr>cs_block := Some (lr_block lr), cs_outbox := cs_outbox s @ [?m]\<rparr>) = Some (s1, None)" for k
    using own_validates [OF node] votes [unfolded s1_def] n empty by (simp add: feed_message_Suc feed_step_def on_vote_def u_def s1_def)
  then have "prevote c (feed_message c (Suc k)) (lr_block lr) u = Some s1" for k
    using empty assms(11) by (simp add: prevote_def should_prevote_def send_def Let_def u_def)
  then have "feed c msg s = Some (s1, None)"
    unfolding feed_depth_def numeral_3_eq_3 feed_message_Suc [of c "Suc (Suc 0)"]
    using assms empty votes inbox by (simp add: feed_step_def on_proposal_def Let_def flip: u_def)
  moreover obtain l where "is_leader c (s1\<lparr>cs_round := cs_round s + 1, cs_state := ProposeState, cs_prevotes := [],
      cs_precommits := [], cs_block := None, cs_block_hash := None, cs_proposal := None, cs_outbox := []\<rparr>) = Some l"
    using node by (fastforce simp: is_leader_def cs_leader_def node_ok_def s1_def)
  then have "\<exists>s2. next_round c s1 = Some s2 \<and> cs_state s2 = ProposeState \<and> cs_locked_round s2 = None"
    using assms(4) by (simp add: next_round_def reset_def process_inbox_def s1_def Let_def)
  ultimately show ?thesis by (auto simp: s1_def)
qed

theorem consensus_lock_lost_witness:
  "\<exists>s s1 s2 msg. cs_locked_round s \<noteq> None \<and> feed sample_crypto msg s = Some (s1, None) \<and>
     next_round sample_crypto s1 = Some s2 \<and> cs_locked_round s2 = None"
proof -
  obtain s v where s: "consensus_reach sample_crypto s" "cs_state s = ProposeState"
    "cs_locked_round s = Some \<lparr>lr_precommits = v, lr_block = sample_macro, lr_proposal = sample_proposal\<rparr>"
    "cs_inbox s = []" "cs_pkey s = 1" "cs_round s = 1" "cs_epoch s = 3" "cs_validators s = [(1, 1), (2, 1)]"
    "cs_total_slots s = 2" "cs_election_result s = pair_election"
    using sample_locked by blast
  let ?msg = "ConsensusMessage_new sample_crypto 3 1 (macro_digest sample_crypto sample_macro) 2 2
                (Proposal sample_proposal)"
  have "\<exists>s1 s2. feed sample_crypto ?msg s = Some (s1, None) \<and> bt_get (cs_prevotes s1) (cs_pkey s) \<noteq> None \<and>
      next_round sample_crypto s1 = Some s2 \<and> cs_state s2 = ProposeState \<and> cs_locked_round s2 = None"
    by (rule consensus_lock_lost [OF s(1-4)])
      (simp_all add: s sample_validates2 cs_leader_def pair_leader slot_of_def pair_super)
  with s(3) show ?thesis by blast
qed

end
