(* ===== verification/Chain.thy ===== *)
theory Chain
  imports Ledger Escrow Awards
begin

text \<open>
  The state of the block chain and the operations on micro blocks,
  \<open>blockchain/src/blockchain.rs\<close>: the indexes of blocks and unspent outputs, the global
  monetary balance, the escrow, the election result and the activity of the epoch, all kept in
  multi-versioned maps, beside the blocks on the disk. The theory holds registering a micro block
  and reverting the last one.

  The database crate is a parameter: reading, writing and deleting a block under a key, and the
  iteration over the blocks from a key on. Blocks are stored as values, since serialization is
  not modelled, and the storage does not fail. Metrics and log messages have no effect on the
  state and are left out. The hash maps of the code are walked in the order of their keys.
\<close>

section \<open>Data\<close>

record ('d, 'f) storage =
  db_get :: "'d \<Rightarrow> bytes \<Rightarrow> 'f Block option"
  db_put :: "bytes \<Rightarrow> 'f Block \<Rightarrow> 'd \<Rightarrow> 'd"
  db_delete :: "bytes \<Rightarrow> 'd \<Rightarrow> 'd"
  db_from :: "'d \<Rightarrow> bytes \<Rightarrow> 'f Block list"

record ChainConfig =
  max_slot_count :: i64
  min_stake_amount :: i64
  stake_epochs :: u64
  micro_blocks_in_epoch :: u32
  awards_difficulty :: nat
  cfg_block_reward :: i64
  service_award_per_epoch :: i64
  vetted_timestamp_delta :: u64

text \<open>Where an unspent output is found.\<close>

datatype OutputKey =
    OKMacroBlock u64 u32
  | OKMicroBlock u64 u32 u32 u32

record ('g, 'f) Balance =
  bal_created :: "'g Pt"
  bal_burned :: "'g Pt"
  bal_gamma :: 'f
  bal_block_reward :: i64

record ('g, 'f, 'd) Blockchain =
  bc_cfg :: ChainConfig
  database :: 'd
  block_by_hash :: "(hash, LSN, LSN) MultiVersionedMap"
  outputs_index :: "(hash, OutputKey, LSN) MultiVersionedMap"
  balances :: "(unit, ('g, 'f) Balance, LSN) MultiVersionedMap"
  escrow :: Escrow
  bc_difficulty :: u64
  bc_epoch :: u64
  bc_offset :: u32
  election_results :: "(unit, ElectionResult, LSN) MultiVersionedMap"
  bc_view_change_proof :: "ViewChangeProof option"
  last_macro_block_timestamp :: Timestamp
  last_macro_block_hash :: hash
  last_macro_block_random :: hash
  last_block_timestamp :: Timestamp
  last_block_hash :: hash
  bc_awards :: Awards
  epoch_activity :: "(pbc_pkey, ValidatorAwardState, LSN) MultiVersionedMap"
  block_cache :: "'f Block list"

section \<open>Queries\<close>

definition block_key :: "LSN \<Rightarrow> bytes" where
  "block_key lsn = be_bytes 8 (lsn_epoch lsn) @ be_bytes 4 (lsn_offset lsn)"

definition nth_opt :: "'a list \<Rightarrow> nat \<Rightarrow> 'a option" where
  "nth_opt xs i = (if i < length xs then Some (xs ! i) else None)"

definition get_block_cached :: "u64 \<Rightarrow> ('g, 'f, 'd) Blockchain \<Rightarrow> 'f Block option" where
  "get_block_cached epoch ch =
     (if epoch > bc_epoch ch then None
      else
        let n = stake_epochs (bc_cfg ch) + 1;
            lower_epoch = (if n \<le> bc_epoch ch then bc_epoch ch - n else 0)
        in if epoch < lower_epoch then None
           else nth_opt (block_cache ch) (unat (epoch - lower_epoch)))"

text \<open>\<open>None\<close> is a panic of the assertion and \<open>unwrap_macro_ref\<close>.\<close>

definition cache_push_block ::
  "'f Block \<Rightarrow> ('g, 'f, 'd) Blockchain \<Rightarrow> ('g, 'f, 'd) Blockchain option" where
  "cache_push_block b ch =
     (if length (block_cache ch) = unat (stake_epochs (bc_cfg ch) + 1)
      then (case block_cache ch of
          [] \<Rightarrow> None
        | _ # rest \<Rightarrow> Some (ch\<lparr>block_cache := rest @ [b]\<rparr>))
      else Some (ch\<lparr>block_cache := block_cache ch @ [b]\<rparr>))"

text \<open>A block that is not there makes the lookup panic.\<close>

definition block_at ::
  "('d, 'f) storage \<Rightarrow> LSN \<Rightarrow> ('g, 'f, 'd) Blockchain \<Rightarrow> 'f Block option" where
  "block_at d lsn ch =
     (case (if lsn_offset lsn = MACRO_BLOCK_OFFSET then get_block_cached (lsn_epoch lsn) ch else None) of
        Some b \<Rightarrow> Some b
      | None \<Rightarrow> db_get d (database ch) (block_key lsn))"

definition micro_block ::
  "('d, 'f) storage \<Rightarrow> u64 \<Rightarrow> u32 \<Rightarrow> ('g, 'f, 'd) Blockchain \<Rightarrow> 'f MicroBlock option" where
  "micro_block d epoch offset ch = Option.bind (block_at d (LSN epoch offset) ch) unwrap_micro"

definition macro_block ::
  "('d, 'f) storage \<Rightarrow> u64 \<Rightarrow> ('g, 'f, 'd) Blockchain \<Rightarrow> 'f MacroBlock option" where
  "macro_block d epoch ch = Option.bind (block_at d (LSN epoch MACRO_BLOCK_OFFSET) ch) unwrap_macro"

text \<open>
  The output an index entry stands for, with the block it is found in. The outer \<open>None\<close> is a
  panic; the inner one is an output pruned from a macro block.
\<close>

record 'f OutputRecovery =
  or_output :: Output
  or_epoch :: u64
  or_block_hash :: hash
  or_is_final :: bool
  or_timestamp :: Timestamp

fun resolve_output ::
  "('g, 'f) crypto \<Rightarrow> ('d, 'f) storage \<Rightarrow> ('g, 'f, 'd) Blockchain \<Rightarrow> OutputKey \<Rightarrow>
     'f OutputRecovery option option" where
  "resolve_output c d ch (OKMacroBlock epoch output_id) =
     Option.bind (macro_block d epoch ch) (\<lambda>b.
       if ah_epoch (ab_header b) \<noteq> epoch then None
       else Some (map_option
              (\<lambda>output. \<lparr>or_output = output, or_epoch = ah_epoch (ab_header b),
                        or_block_hash = macro_digest c b, or_is_final = True,
                        or_timestamp = ah_timestamp (ab_header b)\<rparr>)
              (nth_opt (ab_outputs b) (unat output_id))))"
| "resolve_output c d ch (OKMicroBlock epoch offset tx_id txout_id) =
     Option.bind (micro_block d epoch offset ch) (\<lambda>b.
     Option.bind (nth_opt (mb_transactions b) (unat tx_id)) (\<lambda>tx.
     Option.bind (nth_opt (txouts tx) (unat txout_id)) (\<lambda>output.
       Some (Some \<lparr>or_output = output, or_epoch = mh_epoch (mb_header b),
                   or_block_hash = digest c (hash_MicroBlock b), or_is_final = False,
                   or_timestamp = mh_timestamp (mb_header b)\<rparr>))))"

definition output_by_hash_with_proof ::
  "('g, 'f) crypto \<Rightarrow> ('d, 'f) storage \<Rightarrow> hash \<Rightarrow> ('g, 'f, 'd) Blockchain \<Rightarrow>
     'f OutputRecovery option option" where
  "output_by_hash_with_proof c d h ch =
     (case mv_get (outputs_index ch) h of
        None \<Rightarrow> Some None
      | Some key \<Rightarrow> resolve_output c d ch key)"

definition output_by_hash ::
  "('g, 'f) crypto \<Rightarrow> ('d, 'f) storage \<Rightarrow> hash \<Rightarrow> ('g, 'f, 'd) Blockchain \<Rightarrow> Output option option" where
  "output_by_hash c d h ch = map_option (map_option or_output) (output_by_hash_with_proof c d h ch)"

definition contains_output :: "hash \<Rightarrow> ('g, 'f, 'd) Blockchain \<Rightarrow> bool" where
  "contains_output h ch \<longleftrightarrow> mv_get (outputs_index ch) h \<noteq> None"

definition contains_block :: "hash \<Rightarrow> ('g, 'f, 'd) Blockchain \<Rightarrow> bool" where
  "contains_block h ch \<longleftrightarrow> mv_get (block_by_hash ch) h \<noteq> None"

text \<open>\<open>election_result\<close> and \<open>balance\<close> unwrap the only entry of their maps.\<close>

definition election_result :: "('g, 'f, 'd) Blockchain \<Rightarrow> ElectionResult option" where
  "election_result ch = mv_get (election_results ch) ()"

definition balance :: "('g, 'f, 'd) Blockchain \<Rightarrow> ('g, 'f) Balance option" where
  "balance ch = mv_get (balances ch) ()"

definition view_change :: "('g, 'f, 'd) Blockchain \<Rightarrow> u32 option" where
  "view_change ch = map_option er_view_change (election_result ch)"

definition validators :: "('g, 'f, 'd) Blockchain \<Rightarrow> StakersGroup option" where
  "validators ch = map_option er_validators (election_result ch)"

definition chain_select_leader ::
  "('g, 'f) crypto \<Rightarrow> u32 \<Rightarrow> ('g, 'f, 'd) Blockchain \<Rightarrow> pbc_pkey option" where
  "chain_select_leader c vc ch = Option.bind (election_result ch) (\<lambda>er. select_leader c er vc)"

definition last_random :: "('g, 'f, 'd) Blockchain \<Rightarrow> hash option" where
  "last_random ch = map_option (vrf_random \<circ> er_random) (election_result ch)"

definition is_epoch_full :: "('g, 'f, 'd) Blockchain \<Rightarrow> bool" where
  "is_epoch_full ch \<longleftrightarrow> bc_offset ch \<ge> micro_blocks_in_epoch (bc_cfg ch)"

definition total_slots :: "('g, 'f, 'd) Blockchain \<Rightarrow> i64" where
  "total_slots ch = max_slot_count (bc_cfg ch)"

definition next_election_result ::
  "('g, 'f) crypto \<Rightarrow> VRF \<Rightarrow> ('g, 'f, 'd) Blockchain \<Rightarrow> ElectionResult option" where
  "next_election_result c random ch =
     select_validators_slots c
       (get_stakers_majority (bc_epoch ch + 1) (min_stake_amount (bc_cfg ch)) (escrow ch))
       random (max_slot_count (bc_cfg ch))"

text \<open>
  The election result as it was before the block at an offset of the epoch; a copy of the map
  is rolled back.
\<close>

definition prev_lsn :: "u64 \<Rightarrow> u32 \<Rightarrow> LSN" where
  "prev_lsn epoch offset =
     (if offset = 0 then LSN (epoch - 1) MACRO_BLOCK_OFFSET else LSN epoch (offset - 1))"

definition election_result_by_offset :: "u32 \<Rightarrow> ('g, 'f, 'd) Blockchain \<Rightarrow> ElectionResult option" where
  "election_result_by_offset offset ch =
     (if \<not> 0 < bc_epoch ch then None
      else if \<not> offset \<le> bc_offset ch then None
      else
        let lsn = prev_lsn (bc_epoch ch) offset
        in Option.bind (rollback_to_lsn lsn (election_results ch)) (\<lambda>election.
             if \<not> current_lsn election \<le> lsn then None else mv_get election ()))"

definition validators_at_epoch_start :: "('g, 'f, 'd) Blockchain \<Rightarrow> StakersGroup option" where
  "validators_at_epoch_start ch = map_option er_validators (election_result_by_offset 0 ch)"

section \<open>View changes\<close>

text \<open>An insertion whose previous value does not matter.\<close>

definition mv_put ::
  "'lsn::linorder \<Rightarrow> 'k::linorder \<Rightarrow> 'v \<Rightarrow> ('k, 'v, 'lsn) MultiVersionedMap \<Rightarrow>
     ('k, 'v, 'lsn) MultiVersionedMap option" where
  "mv_put lsn k v m = map_option snd (mv_insert lsn k v m)"

definition set_view_change ::
  "u32 \<Rightarrow> ViewChangeProof \<Rightarrow> ('g, 'f, 'd) Blockchain \<Rightarrow> ('g, 'f, 'd) Blockchain option" where
  "set_view_change new_view_change proof ch =
     Option.bind (election_result ch) (\<lambda>er.
       if \<not> er_view_change er < new_view_change then None
       else map_option
              (\<lambda>m. ch\<lparr>election_results := m, bc_view_change_proof := Some proof\<rparr>)
              (mv_put (LSN (bc_epoch ch) (bc_offset ch)) () (er\<lparr>er_view_change := new_view_change\<rparr>)
                 (election_results ch)))"

definition reset_view_change :: "('g, 'f, 'd) Blockchain \<Rightarrow> ('g, 'f, 'd) Blockchain option" where
  "reset_view_change ch =
     Option.bind (election_result ch) (\<lambda>er.
       map_option
         (\<lambda>m. ch\<lparr>election_results := m, bc_view_change_proof := None\<rparr>)
         (mv_put (LSN (bc_epoch ch) (bc_offset ch)) () (er\<lparr>er_view_change := 0\<rparr>)
            (election_results ch)))"

section \<open>Inputs and outputs of a block\<close>

text \<open>
  \<open>register_inputs_and_outputs\<close>: an input leaves the index of unspent outputs and the escrow,
  an output enters them; the sums of the commitments are checked against the reward and the
  gamma adjustment, for the block and for the whole chain. \<open>None\<close> is a panic.
\<close>

definition register_input ::
  "('g::group_add, 'f) crypto \<Rightarrow> LSN \<Rightarrow> hash \<times> Output \<Rightarrow>
     (hash, OutputKey, LSN) MultiVersionedMap \<times> Escrow \<times> 'g Pt \<Rightarrow>
     ((hash, OutputKey, LSN) MultiVersionedMap \<times> Escrow \<times> 'g Pt) option" where
  "register_input c lsn hi st =
     (case st of (index, e, burned) \<Rightarrow>
        case mv_remove lsn (fst hi) index of
          Some (Some _, index') \<Rightarrow>
            Option.bind (pedersen_commitment c (snd hi)) (\<lambda>cmt.
              map_option (\<lambda>e'. (index', e', pt_add c burned cmt)) (escrow_input lsn hi e))
        | _ \<Rightarrow> None)"

definition register_output ::
  "('g::group_add, 'f) crypto \<Rightarrow> LSN \<Rightarrow> u64 \<Rightarrow> u64 \<Rightarrow> hash \<times> Output \<times> OutputKey \<Rightarrow>
     (hash, OutputKey, LSN) MultiVersionedMap \<times> Escrow \<times> 'g Pt \<Rightarrow>
     ((hash, OutputKey, LSN) MultiVersionedMap \<times> Escrow \<times> 'g Pt) option" where
  "register_output c lsn epoch epochs ho st =
     (case (ho, st) of ((h, output, key), (index, e, created)) \<Rightarrow>
        case mv_insert lsn h key index of
          Some (None, index') \<Rightarrow>
            if current_lsn index' \<noteq> lsn then None
            else Option.bind (pedersen_commitment c output) (\<lambda>cmt.
                   map_option (\<lambda>e'. (index', e', pt_add c created cmt))
                     (escrow_output lsn epoch epochs (h, output) e))
        | _ \<Rightarrow> None)"

text \<open>\<open>fee_a(reward) + burned - created == gamma * Pt::one()\<close>; \<open>fee_a\<close> panics on a negative reward.\<close>

definition monetary_balance ::
  "('g::group_add, 'f) crypto \<Rightarrow> i64 \<Rightarrow> 'g Pt \<Rightarrow> 'g Pt \<Rightarrow> 'f \<Rightarrow> bool option" where
  "monetary_balance c reward burned created gamma =
     map_option (\<lambda>fee. pt_eq c (pt_sub c (pt_add c fee burned) created) (pt_mul c (pt_one c) gamma))
       (fee_a c reward)"

definition register_inputs_and_outputs ::
  "('g::group_add, 'f::plus) crypto \<Rightarrow> LSN \<Rightarrow> hash \<Rightarrow> (hash, Output) btree \<Rightarrow>
     (hash, Output \<times> OutputKey) btree \<Rightarrow> 'f \<Rightarrow> i64 \<Rightarrow> ('g, 'f, 'd) Blockchain \<Rightarrow>
     ('g, 'f, 'd) Blockchain option" where
  "register_inputs_and_outputs c lsn block_hash inputs outputs gamma block_reward ch =
     (case mv_insert lsn block_hash lsn (block_by_hash ch) of
        Some (None, blocks) \<Rightarrow>
          if current_lsn blocks \<noteq> lsn then None
          else
            Option.bind (fold_option (register_input c lsn) inputs
                           (outputs_index ch, escrow ch, pt_inf)) (\<lambda>(index, e, burned).
            Option.bind (fold_option (register_output c lsn (bc_epoch ch) (stake_epochs (bc_cfg ch))) outputs
                           (index, e, pt_inf)) (\<lambda>(index, e, created).
            Option.bind (monetary_balance c block_reward burned created gamma) (\<lambda>ok.
              if \<not> ok then None
              else Option.bind (balance ch) (\<lambda>orig_balance.
                let bal = \<lparr>bal_created = pt_add c (bal_created orig_balance) created,
                           bal_burned = pt_add c (bal_burned orig_balance) burned,
                           bal_gamma = bal_gamma orig_balance + gamma,
                           bal_block_reward = bal_block_reward orig_balance + block_reward\<rparr>
                in Option.bind (monetary_balance c (bal_block_reward bal) (bal_burned bal)
                                  (bal_created bal) (bal_gamma bal)) (\<lambda>ok.
                     if \<not> ok then None
                     else Option.bind (mv_put lsn () bal (balances ch)) (\<lambda>bals.
                            if current_lsn bals \<noteq> lsn then None
                            else Some (ch\<lparr>block_by_hash := blocks, outputs_index := index, escrow := e,
                                         balances := bals\<rparr>)))))))
      | _ \<Rightarrow> None)"

section \<open>Micro blocks\<close>

text \<open>
  The transactions of a micro block: the inputs are resolved, the outputs get their index keys,
  the rewards and gamma adjustments are summed up, a cheater leaves the validators. The state of
  the loop is the result so far; \<open>None\<close> is a panic.
\<close>

record 'f MicroRegister =
  mr_inputs :: "(hash, Output) btree"
  mr_outputs :: "(hash, Output \<times> OutputKey) btree"
  mr_gamma :: 'f
  mr_block_reward :: i64
  mr_txs :: "(hash, 'f Transaction) btree"
  mr_election :: "(unit, ElectionResult, LSN) MultiVersionedMap"

definition U32_MAX :: nat where
  "U32_MAX = 4294967295"

definition micro_input ::
  "('g, 'f) crypto \<Rightarrow> ('d, 'f) storage \<Rightarrow> ('g, 'f, 'd) Blockchain \<Rightarrow> hash \<Rightarrow> 'f MicroRegister \<Rightarrow>
     'f MicroRegister option" where
  "micro_input c d ch input_hash r =
     (if bt_get (mr_outputs r) input_hash \<noteq> None then None
      else case output_by_hash c d input_hash ch of
        Some (Some input) \<Rightarrow>
          if bt_get (mr_inputs r) input_hash \<noteq> None then None
          else Some (r\<lparr>mr_inputs := bt_put input_hash input (mr_inputs r)\<rparr>)
      | _ \<Rightarrow> None)"

definition micro_output ::
  "('g, 'f) crypto \<Rightarrow> ('g, 'f, 'd) Blockchain \<Rightarrow> nat \<Rightarrow> nat \<times> Output \<Rightarrow> 'f MicroRegister \<Rightarrow>
     'f MicroRegister option" where
  "micro_output c ch tx_id o' r =
     (let output_hash = output_digest c (snd o');
          key = OKMicroBlock (bc_epoch ch) (bc_offset ch) (of_nat tx_id) (of_nat (fst o'))
      in if \<not> fst o' < U32_MAX then None
         else if bt_get (mr_outputs r) output_hash \<noteq> None then None
         else Some (r\<lparr>mr_outputs := bt_put output_hash (snd o', key) (mr_outputs r)\<rparr>))"

fun micro_tx_kind ::
  "LSN \<Rightarrow> 'f::plus Transaction \<Rightarrow> 'f MicroRegister \<Rightarrow> 'f MicroRegister option" where
  "micro_tx_kind lsn (CoinbaseTransaction tx) r =
     Some (r\<lparr>mr_block_reward := mr_block_reward r + cb_block_reward tx, mr_gamma := mr_gamma r + cb_gamma tx\<rparr>)"
| "micro_tx_kind lsn (PaymentTransaction tx) r = Some (r\<lparr>mr_gamma := mr_gamma r + pt_gamma tx\<rparr>)"
| "micro_tx_kind lsn (RestakeTransaction tx) r = Some r"
| "micro_tx_kind lsn (SlashingTransaction tx) r =
     Option.bind (cheater tx) (\<lambda>cheat.
     Option.bind (mv_get (mr_election r) ()) (\<lambda>er.
       let new_validators = filter (\<lambda>(k, v). k \<noteq> cheat) (er_validators er)
       in map_option (\<lambda>m. r\<lparr>mr_election := m\<rparr>)
            (mv_put lsn () (er\<lparr>er_validators := new_validators\<rparr>) (mr_election r))))"
| "micro_tx_kind lsn (ServiceAwardTransaction tx) r = None"

definition micro_tx ::
  "('g, 'f::plus) crypto \<Rightarrow> ('d, 'f) storage \<Rightarrow> LSN \<Rightarrow> ('g, 'f, 'd) Blockchain \<Rightarrow> nat \<times> 'f Transaction \<Rightarrow>
     'f MicroRegister \<Rightarrow> 'f MicroRegister option" where
  "micro_tx c d lsn ch t r =
     (case t of (tx_id, tx) \<Rightarrow>
        let tx_hash = digest c (hash_Transaction c tx)
        in if \<not> tx_id < U32_MAX then None
           else
             Option.bind (fold_option (micro_input c d ch) (txins tx) r) (\<lambda>r.
             Option.bind (fold_option (micro_output c ch tx_id) (enumerate 0 (txouts tx)) r) (\<lambda>r.
             Option.bind (micro_tx_kind lsn tx r) (\<lambda>r.
               if bt_get (mr_txs r) tx_hash \<noteq> None then None
               else Some (r\<lparr>mr_txs := bt_put tx_hash tx (mr_txs r)\<rparr>)))))"

text \<open>
  The leaders of the skipped views have failed; the leader of the block is active unless it is
  known already.
\<close>

definition skip_view ::
  "('g, 'f) crypto \<Rightarrow> LSN \<Rightarrow> u64 \<Rightarrow> u32 \<Rightarrow> ElectionResult \<Rightarrow> nat \<Rightarrow>
     (pbc_pkey, ValidatorAwardState, LSN) MultiVersionedMap \<Rightarrow>
     (pbc_pkey, ValidatorAwardState, LSN) MultiVersionedMap option" where
  "skip_view c lsn epoch offset er v activity =
     Option.bind (select_leader c er (of_nat v)) (\<lambda>leader.
       mv_put lsn leader (Failed epoch offset) activity)"

definition update_activity ::
  "('g, 'f) crypto \<Rightarrow> LSN \<Rightarrow> u32 \<Rightarrow> ('g, 'f, 'd) Blockchain \<Rightarrow> ('g, 'f, 'd) Blockchain option" where
  "update_activity c lsn vc ch =
     Option.bind (election_result ch) (\<lambda>er.
     Option.bind (fold_option (skip_view c lsn (bc_epoch ch) (bc_offset ch) er) [0..<unat vc]
                    (epoch_activity ch)) (\<lambda>activity.
     Option.bind (select_leader c er vc) (\<lambda>leader.
       if mv_get activity leader = None
       then map_option (\<lambda>m. ch\<lparr>epoch_activity := m\<rparr>) (mv_put lsn leader Active activity)
       else Some (ch\<lparr>epoch_activity := activity\<rparr>))))"

definition register_micro_block ::
  "('g::group_add, 'f::{plus, zero}) crypto \<Rightarrow> ('d, 'f) storage \<Rightarrow> LSN \<Rightarrow> 'f MicroBlock \<Rightarrow>
     ('g, 'f, 'd) Blockchain \<Rightarrow>
     ((hash list \<times> (hash, Output) btree \<times> (hash, 'f Transaction) btree) \<times>
      ('g, 'f, 'd) Blockchain) option" where
  "register_micro_block c d lsn b ch =
     (let header = mb_header b;
          block_hash = digest c (hash_MicroBlock b)
      in if mh_version header \<noteq> VERSION then None
         else if bc_epoch ch \<noteq> mh_epoch header then None
         else if bc_offset ch \<noteq> mh_offset header then None
         else if mh_previous header \<noteq> last_block_hash ch then None
         else if \<not> last_block_timestamp ch < mh_timestamp header then None
         else if is_epoch_full ch then None
         else
           Option.bind (fold_option (micro_tx c d lsn ch) (enumerate 0 (mb_transactions b))
             \<lparr>mr_inputs = [], mr_outputs = [], mr_gamma = 0, mr_block_reward = 0, mr_txs = [],
              mr_election = election_results ch\<rparr>) (\<lambda>r.
           Option.bind (update_activity c lsn (mh_view_change header)
             (ch\<lparr>election_results := mr_election r\<rparr>)) (\<lambda>ch.
           Option.bind (register_inputs_and_outputs c lsn block_hash (mr_inputs r) (mr_outputs r)
             (mr_gamma r) (mr_block_reward r) ch) (\<lambda>ch.
           Option.bind (election_result ch) (\<lambda>er.
           map_option
             (\<lambda>m. ((map fst (mr_inputs r), map (\<lambda>(h, output, _). (h, output)) (mr_outputs r), mr_txs r),
                   ch\<lparr>last_block_timestamp := mh_timestamp header, last_block_hash := block_hash,
                      bc_offset := bc_offset ch + 1, election_results := m,
                      bc_view_change_proof := None\<rparr>))
             (mv_put lsn () (er\<lparr>er_view_change := 0, er_random := mh_random header\<rparr>)
                (election_results ch)))))))"

text \<open>
  \<open>pop_micro_block\<close>: the last micro block leaves the disk, every map is rolled back to the
  sequence number of the block before, and the transactions of users are returned.
\<close>

definition previous_block ::
  "('g, 'f) crypto \<Rightarrow> ('d, 'f) storage \<Rightarrow> u32 \<Rightarrow> ('g, 'f, 'd) Blockchain \<Rightarrow> (hash \<times> LSN \<times> Timestamp) option" where
  "previous_block c d offset ch =
     (if offset = 0
      then map_option (\<lambda>b. (macro_digest c b, prev_lsn (bc_epoch ch) offset, ah_timestamp (ab_header b)))
             (macro_block d (bc_epoch ch - 1) ch)
      else map_option (\<lambda>b. (digest c (hash_MicroBlock b), prev_lsn (bc_epoch ch) offset,
                            mh_timestamp (mb_header b)))
             (micro_block d (bc_epoch ch) (offset - 1) ch))"

definition rollback_maps :: "LSN \<Rightarrow> ('g, 'f, 'd) Blockchain \<Rightarrow> ('g, 'f, 'd) Blockchain option" where
  "rollback_maps lsn ch =
     Option.bind (rollback_to_lsn lsn (block_by_hash ch)) (\<lambda>blocks.
     Option.bind (rollback_to_lsn lsn (outputs_index ch)) (\<lambda>index.
     Option.bind (rollback_to_lsn lsn (balances ch)) (\<lambda>bals.
     Option.bind (escrow_rollback_to_lsn lsn (escrow ch)) (\<lambda>e.
     Option.bind (rollback_to_lsn lsn (epoch_activity ch)) (\<lambda>activity.
     Option.bind (rollback_to_lsn lsn (election_results ch)) (\<lambda>election.
       if current_lsn blocks \<noteq> lsn \<or> current_lsn election \<noteq> lsn \<or> \<not> current_lsn activity \<le> lsn
          \<or> \<not> current_lsn index \<le> lsn \<or> \<not> current_lsn bals \<le> lsn \<or> \<not> escrow_current_lsn e \<le> lsn
       then None
       else Some (ch\<lparr>block_by_hash := blocks, outputs_index := index, balances := bals, escrow := e,
                    epoch_activity := activity, election_results := election\<rparr>)))))))"

definition recover_input ::
  "('g, 'f) crypto \<Rightarrow> ('d, 'f) storage \<Rightarrow> ('g, 'f, 'd) Blockchain \<Rightarrow> hash \<Rightarrow> (hash, Output) btree \<Rightarrow>
     (hash, Output) btree option" where
  "recover_input c d ch input_hash recovered =
     (case output_by_hash c d input_hash ch of
        Some (Some input) \<Rightarrow> Some (bt_put input_hash input recovered)
      | _ \<Rightarrow> None)"

fun is_user_tx :: "'f Transaction \<Rightarrow> bool" where
  "is_user_tx (PaymentTransaction _) = True"
| "is_user_tx (RestakeTransaction _) = True"
| "is_user_tx _ = False"

definition pop_micro_block ::
  "('g, 'f) crypto \<Rightarrow> ('d, 'f) storage \<Rightarrow> ('g, 'f, 'd) Blockchain \<Rightarrow>
     ((hash list \<times> (hash, Output) btree \<times> 'f Transaction list \<times> 'f MicroBlock) \<times>
      ('g, 'f, 'd) Blockchain) option" where
  "pop_micro_block c d ch =
     (if \<not> 0 < bc_epoch ch \<or> \<not> 0 < bc_offset ch then None
      else
        let offset = bc_offset ch - 1
        in
          Option.bind (micro_block d (bc_epoch ch) offset ch) (\<lambda>b.
          Option.bind (previous_block c d offset ch) (\<lambda>(previous, lsn, timestamp).
          Option.bind (rollback_maps lsn
            (ch\<lparr>database := db_delete d (block_key (LSN (bc_epoch ch) offset)) (database ch)\<rparr>)) (\<lambda>ch.
          Option.bind (reset_view_change
            (ch\<lparr>bc_offset := offset, last_block_hash := previous, last_block_timestamp := timestamp\<rparr>)) (\<lambda>ch.
          map_option
            (\<lambda>recovered. ((map (output_digest c) (mb_outputs b), recovered,
                           filter is_user_tx (mb_transactions b), b), ch))
            (fold_option (recover_input c d ch) (mb_inputs b) []))))))"

end
