(* ===== verification/Revert.thy ===== *)
theory Revert
  imports Chain Validation
begin

text \<open>
  The effect of registering a micro block on the multi-versioned maps of the chain: every map
  changes under the sequence number of the block only, so that rolling the maps back to the
  number of an earlier block restores them. The well-formedness of the undo logs within an epoch
  is an invariant of registering blocks, of view changes and of reverting blocks.
\<close>

section \<open>Changes under one sequence number\<close>

definition mv_changes ::
  "'lsn::linorder \<Rightarrow> ('k::linorder, 'v, 'lsn) MultiVersionedMap \<Rightarrow> ('k, 'v, 'lsn) MultiVersionedMap \<Rightarrow> bool" where
  "mv_changes n m m' \<longleftrightarrow> (\<exists>ops. run_ops mv_step ops m = Some m' \<and> (\<forall>(l, _) \<in> set ops. l = n))"

lemma mv_changes_refl [simp, intro]: "mv_changes n m m"
  unfolding mv_changes_def by (rule exI [of _ "[]"]) simp

lemma mv_changes_trans:
  assumes "mv_changes n a b" "mv_changes n b d"
  shows "mv_changes n a d"
proof -
  obtain xs ys where "run_ops mv_step xs a = Some b" "\<forall>(l, _) \<in> set xs. l = n"
    "run_ops mv_step ys b = Some d" "\<forall>(l, _) \<in> set ys. l = n"
    using assms unfolding mv_changes_def by blast
  then show ?thesis unfolding mv_changes_def by (intro exI [of _ "xs @ ys"]) (auto simp: run_ops_append)
qed

lemma mv_changes_step: "mv_step n op m = Some m' \<Longrightarrow> mv_changes n m m'"
  unfolding mv_changes_def by (rule exI [of _ "[(n, op)]"]) simp

lemma mv_changes_insert: "mv_insert n k v m = Some (r, m') \<Longrightarrow> mv_changes n m m'"
  by (rule mv_changes_step [of n "OpInsert k v"]) (simp add: mv_step.simps)

lemma mv_changes_remove: "mv_remove n k m = Some (r, m') \<Longrightarrow> mv_changes n m m'"
  by (rule mv_changes_step [of n "OpRemove k"]) (simp add: mv_step.simps)

lemma mv_changes_put: "mv_put n k v m = Some m' \<Longrightarrow> mv_changes n m m'"
  by (auto simp: mv_put_def intro: mv_changes_insert)

lemma mv_changes_stake: "stake n v a h ep eps amount e = Some e' \<Longrightarrow> mv_changes n e e'"
  by (auto simp: stake_def Let_def split: option.splits intro: mv_changes_insert)

lemma mv_changes_unstake: "unstake n v h e = Some e' \<Longrightarrow> mv_changes n e e'"
  by (auto simp: unstake_def split: option.splits intro: mv_changes_remove)

text \<open>Such changes add records with that number to the log and are undone by a roll-back.\<close>

lemma run_ops_undo:
  "run_ops mv_step ops m = Some m' \<Longrightarrow> \<forall>(l, _) \<in> set ops. l = n \<Longrightarrow>
   \<exists>rs. undo m' = undo m @ rs \<and> (\<forall>r \<in> set rs. record_lsn r = n)"
proof (induction ops arbitrary: m)
  case (Cons o1 ops)
  obtain op where o1: "o1 = (n, op)" using Cons.prems(2) by (cases o1) auto
  with Cons.prems obtain t where t: "mv_step n op m = Some t" "run_ops mv_step ops t = Some m'"
    by (auto simp: outcome_simps)
  obtain rs where "undo m' = undo t @ rs" "\<forall>r \<in> set rs. record_lsn r = n"
    using Cons.IH [OF t(2)] Cons.prems(2) by auto
  moreover have "undo t = undo m @ step_records n op (mv_map m)"
    using t(1) by (auto simp: mv_step_eq split: if_splits)
  ultimately show ?case by (auto simp: step_records_lsn)
qed simp

lemma mv_changesD:
  assumes "mv_changes n m m'" "mv_inv m"
  shows "mv_inv m'" "ckpt_lsn m' = ckpt_lsn m"
    "ckpt_lsn m \<le> l \<Longrightarrow> l < n \<Longrightarrow> rollback_to_lsn l m' = rollback_to_lsn l m"
    "\<exists>rs. undo m' = undo m @ rs \<and> (\<forall>r \<in> set rs. record_lsn r = n)"
proof -
  obtain ops where ops: "run_ops mv_step ops m = Some m'" "\<forall>(l, _) \<in> set ops. l = n"
    using assms(1) by (auto simp: mv_changes_def)
  show "mv_inv m'" "ckpt_lsn m' = ckpt_lsn m"
    using mv.run_inv [OF ops(1) assms(2)] by (auto simp: checkpoint_lsn_def)
  show "rollback_to_lsn l m' = rollback_to_lsn l m" if "ckpt_lsn m \<le> l" "l < n"
    using ops that by (intro mv.run_rollback [OF ops(1) assms(2)]) (auto simp: checkpoint_lsn_def)
  show "\<exists>rs. undo m' = undo m @ rs \<and> (\<forall>r \<in> set rs. record_lsn r = n)"
    by (rule run_ops_undo [OF ops])
qed

text \<open>The log after a roll-back is the part up to the number.\<close>

lemma current_lsn_le_undo: "current_lsn m \<le> l \<Longrightarrow> mv_inv m \<Longrightarrow> \<forall>r \<in> set (undo m). record_lsn r \<le> l"
  using mv_inv_lsn_le [of m] by fastforce

lemma rollback_loop_pop:
  assumes "rollback_loop l m = Some m'" "l < current_lsn m" "mv_inv m"
  shows "\<exists>m1 r. undo m = undo m1 @ [r] \<and> l < record_lsn r \<and> mv_inv m1 \<and> ckpt_lsn m1 = ckpt_lsn m \<and>
    (\<forall>k. k < record_lsn r \<longrightarrow> rollback_loop k m = rollback_loop k m1)"
proof (cases "undo m" rule: rev_cases)
  case Nil
  then have "rev (undo m) = []" by simp
  then show ?thesis using assms(1,2) by (subst (asm) rollback_loop.simps) simp
next
  case (snoc rs r)
  have inv: "mv_inv (m\<lparr>mv_map := x, undo := rs\<rparr>)" if "bt_inv x" for x
    using assms(3) that snoc by (auto simp: mv_inv_def sorted_append)
  have bt: "bt_inv (mv_map m)" using assms(3) by (simp add: mv_inv_def)
  show ?thesis
  proof (cases r)
    case (URemove n k)
    obtain p where p: "bt_get (mv_map m) k = Some p" "l < n"
      using assms(1,2) snoc URemove
      by (subst (asm) rollback_loop.simps) (auto simp: bt_remove_def split: if_splits option.splits)
    then show ?thesis
      using rollback_loop_remove [of m rs n k _ p] snoc URemove inv [OF bt_inv_del [OF bt]]
      by (intro exI [of _ "m\<lparr>mv_map := bt_del k (mv_map m), undo := rs\<rparr>"] exI [of _ r]) auto
  next
    case (UInsert n k v)
    have p: "bt_get (mv_map m) k = None" "l < n"
      using assms(1,2) snoc UInsert
      by (subst (asm) rollback_loop.simps, auto simp: bt_insert_def split: if_splits option.splits)+
    then show ?thesis
      using rollback_loop_insert [of m rs n k v] snoc UInsert inv [OF bt_inv_put [OF bt]]
      by (intro exI [of _ "m\<lparr>mv_map := bt_put k v (mv_map m), undo := rs\<rparr>"] exI [of _ r]) auto
  qed
qed

lemma rollback_loop_undo:
  assumes "rollback_loop l m = Some m'" "mv_inv m"
  shows "mv_inv m' \<and> ckpt_lsn m' = ckpt_lsn m \<and> undo m' = filter (\<lambda>r. record_lsn r \<le> l) (undo m) \<and>
   (\<forall>k \<le> l. rollback_loop k m' = rollback_loop k m)"
  using assms
proof (induction "length (undo m)" arbitrary: m rule: less_induct)
  case less
  show ?case
  proof (cases "l < current_lsn m")
    case False
    then have "m' = m" using less(2) by (simp add: rollback_loop_stop)
    moreover have "filter (\<lambda>r. record_lsn r \<le> l) (undo m) = undo m"
      using current_lsn_le_undo [of m l] False less(3) by (simp add: not_less)
    ultimately show ?thesis using less(3) by simp
  next
    case True
    obtain m1 r where m1: "undo m = undo m1 @ [r]" "l < record_lsn r" "mv_inv m1" "ckpt_lsn m1 = ckpt_lsn m"
      "\<And>k. k < record_lsn r \<Longrightarrow> rollback_loop k m = rollback_loop k m1"
      using rollback_loop_pop [OF less(2) True less(3)] by blast
    then show ?thesis using less(1) [of m1] less(2) by (auto simp: not_le)
  qed
qed

lemma rollbackD:
  assumes "rollback_to_lsn l m = Some m'" "mv_inv m"
  shows "mv_inv m'" "ckpt_lsn m' = ckpt_lsn m" "undo m' = filter (\<lambda>r. record_lsn r \<le> l) (undo m)"
    "ckpt_lsn m \<le> l" "current_lsn m' \<le> l"
    "k \<le> l \<Longrightarrow> rollback_to_lsn k m' = rollback_to_lsn k m"
  using assms rollback_loop_undo [of l m m']
  by (auto simp: rollback_to_lsn_def checkpoint_lsn_def outcome_simps split: if_splits)

section \<open>What registering a block changes\<close>

lemma fold_option_rel:
  assumes "fold_option f xs s = Some s'" "\<And>x s s'. x \<in> set xs \<Longrightarrow> f x s = Some s' \<Longrightarrow> R s s'"
    "\<And>s. R s s" "\<And>a b d. R a b \<Longrightarrow> R b d \<Longrightarrow> R a d"
  shows "R s s'"
  using assms(1,2)
proof (induction xs arbitrary: s)
  case Nil
  then show ?case using assms(3) by simp
next
  case (Cons x xs)
  then obtain t where "f x s = Some t" "fold_option f xs t = Some s'" by (auto simp: outcome_simps)
  then show ?case using Cons.IH [of t] Cons.prems(2) assms(4) by (meson list.set_intros)
qed

lemma escrow_input_changes: "escrow_input n hi e = Some e' \<Longrightarrow> mv_changes n e e'"
  by (cases "(n, hi, e)" rule: escrow_input.cases) (auto simp: outcome_simps mv_changes_unstake split: if_splits)

lemma escrow_output_changes: "escrow_output n ep eps ho e = Some e' \<Longrightarrow> mv_changes n e e'"
  by (cases "(n, ep, eps, ho, e)" rule: escrow_output.cases)
    (auto simp: outcome_simps split: if_splits dest: mv_changes_stake)

abbreviation reg_changes ::
  "LSN \<Rightarrow> (hash, OutputKey, LSN) MultiVersionedMap \<times> Escrow \<times> 'g Pt \<Rightarrow>
     (hash, OutputKey, LSN) MultiVersionedMap \<times> Escrow \<times> 'g Pt \<Rightarrow> bool" where
  "reg_changes n s s' \<equiv> mv_changes n (fst s) (fst s') \<and> mv_changes n (fst (snd s)) (fst (snd s'))"

lemma register_input_changes: "register_input c n hi s = Some s' \<Longrightarrow> reg_changes n s s'"
  by (auto simp: register_input_def outcome_simps split: option.splits prod.splits
      dest: mv_changes_remove escrow_input_changes)

lemma register_output_changes: "register_output c n ep eps ho s = Some s' \<Longrightarrow> reg_changes n s s'"
  by (auto simp: register_output_def outcome_simps split: option.splits prod.splits if_splits
      dest: mv_changes_insert escrow_output_changes)

lemma fold_register_changes:
  "fold_option (register_input c n) ins s = Some s' \<Longrightarrow> reg_changes n s s'"
  "fold_option (register_output c n ep eps) outs s = Some s' \<Longrightarrow> reg_changes n s s'"
  by (erule fold_option_rel [where R = "reg_changes n"];
      auto dest: register_input_changes register_output_changes intro: mv_changes_trans)+

text \<open>The fields that no operation on a micro block changes.\<close>

definition same_base :: "('g, 'f, 'd) Blockchain \<Rightarrow> ('g, 'f, 'd) Blockchain \<Rightarrow> bool" where
  "same_base ch ch' \<longleftrightarrow>
     bc_cfg ch' = bc_cfg ch \<and> bc_difficulty ch' = bc_difficulty ch \<and> bc_epoch ch' = bc_epoch ch \<and>
     last_macro_block_timestamp ch' = last_macro_block_timestamp ch \<and>
     last_macro_block_hash ch' = last_macro_block_hash ch \<and>
     last_macro_block_random ch' = last_macro_block_random ch \<and>
     bc_awards ch' = bc_awards ch \<and> block_cache ch' = block_cache ch"

definition maps_change :: "LSN \<Rightarrow> ('g, 'f, 'd) Blockchain \<Rightarrow> ('g, 'f, 'd) Blockchain \<Rightarrow> bool" where
  "maps_change n ch ch' \<longleftrightarrow>
     mv_changes n (block_by_hash ch) (block_by_hash ch') \<and>
     mv_changes n (outputs_index ch) (outputs_index ch') \<and>
     mv_changes n (balances ch) (balances ch') \<and> mv_changes n (escrow ch) (escrow ch') \<and>
     mv_changes n (epoch_activity ch) (epoch_activity ch') \<and>
     mv_changes n (election_results ch) (election_results ch')"

lemma maps_change_trans: "maps_change n a b \<Longrightarrow> maps_change n b d \<Longrightarrow> maps_change n a d"
  by (auto simp: maps_change_def intro: mv_changes_trans)

lemma mv_put_get: "mv_put n k v m = Some m' \<Longrightarrow> mv_get m' k = Some v"
  by (auto simp: mv_put_def mv_insert_def Let_def bt_insert_def mv_get_def split: if_splits option.splits)

lemma register_inputs_and_outputs_effect:
  assumes "register_inputs_and_outputs c n h ins outs gamma reward ch = Some ch'"
  shows "maps_change n ch ch'" "same_base ch ch'" "database ch' = database ch" "bc_offset ch' = bc_offset ch"
    "election_results ch' = election_results ch" "epoch_activity ch' = epoch_activity ch"
    "current_lsn (block_by_hash ch') = n" "current_lsn (balances ch') = n" "mv_get (balances ch') () \<noteq> None"
  using assms
  by (auto simp: register_inputs_and_outputs_def outcome_simps maps_change_def same_base_def Let_def
      split: option.splits prod.splits if_splits
      dest!: fold_register_changes mv_changes_insert dest: mv_changes_put mv_put_get intro: mv_changes_trans)

abbreviation mr_changes :: "LSN \<Rightarrow> 'f MicroRegister \<Rightarrow> 'f MicroRegister \<Rightarrow> bool" where
  "mr_changes n r r' \<equiv> mv_changes n (mr_election r) (mr_election r')"

lemma micro_input_changes: "micro_input c d ch h r = Some r' \<Longrightarrow> mr_changes n r r'"
  by (auto simp: micro_input_def split: if_splits option.splits)

lemma micro_output_changes: "micro_output c ch i o' r = Some r' \<Longrightarrow> mr_changes n r r'"
  by (auto simp: micro_output_def Let_def split: if_splits)

lemma micro_tx_kind_changes: "micro_tx_kind n tx r = Some r' \<Longrightarrow> mr_changes n r r'"
  by (cases "(n, tx, r)" rule: micro_tx_kind.cases) (auto simp: outcome_simps Let_def dest: mv_changes_put)

lemma micro_tx_changes:
  assumes "micro_tx c d n ch t r = Some r'"
  shows "mr_changes n r r'"
proof -
  obtain i tx where t: "t = (i, tx)" by (cases t)
  obtain r1 r2 r3 where r: "fold_option (micro_input c d ch) (txins tx) r = Some r1"
    "fold_option (micro_output c ch i) (enumerate 0 (txouts tx)) r1 = Some r2"
    "micro_tx_kind n tx r2 = Some r3" "mr_election r' = mr_election r3"
    using assms by (auto simp: t micro_tx_def Let_def outcome_simps split: if_splits)
  have "mr_changes n r r1"
    by (rule fold_option_rel [OF r(1), where R = "mr_changes n"]) (auto dest: micro_input_changes intro: mv_changes_trans)
  moreover have "mr_changes n r1 r2"
    by (rule fold_option_rel [OF r(2), where R = "mr_changes n"]) (auto dest: micro_output_changes intro: mv_changes_trans)
  ultimately show ?thesis
    using micro_tx_kind_changes [OF r(3)] r(4) by (metis mv_changes_trans)
qed

lemma fold_micro_tx_changes: "fold_option (micro_tx c d n ch) ts r = Some r' \<Longrightarrow> mr_changes n r r'"
  by (erule fold_option_rel [where R = "mr_changes n"]) (auto dest: micro_tx_changes intro: mv_changes_trans)

lemma update_activity_effect:
  assumes "update_activity c n vc ch = Some ch'"
  shows "\<exists>m. ch' = ch\<lparr>epoch_activity := m\<rparr> \<and> mv_changes n (epoch_activity ch) m"
proof -
  have "mv_changes n a a'" if "fold_option (skip_view c n e off er) vs a = Some a'" for e off er vs a a'
    by (rule fold_option_rel [OF that, where R = "mv_changes n"])
      (auto simp: skip_view_def outcome_simps dest: mv_changes_put intro: mv_changes_trans)
  note skip = this
  obtain er act leader where a: "fold_option (skip_view c n (bc_epoch ch) (bc_offset ch) er) [0..<unat vc] (epoch_activity ch) = Some act"
    and l: "(if mv_get act leader = None then map_option (\<lambda>m. ch\<lparr>epoch_activity := m\<rparr>) (mv_put n leader Active act)
      else Some (ch\<lparr>epoch_activity := act\<rparr>)) = Some ch'"
    using assms by (auto simp: update_activity_def outcome_simps)
  show ?thesis
  proof (cases "mv_get act leader = None")
    case True
    then obtain m where "mv_put n leader Active act = Some m" "ch' = ch\<lparr>epoch_activity := m\<rparr>" using l by auto
    then show ?thesis using mv_changes_trans [OF skip [OF a] mv_changes_put] by blast
  next
    case False
    then show ?thesis using l skip [OF a] by auto
  qed
qed

lemma current_lsn_put: "mv_put n k v m = Some m' \<Longrightarrow> current_lsn m' = n"
  by (auto simp: mv_put_def mv_insert_def Let_def bt_insert_def split: if_splits option.splits)

text \<open>The guards and effects of \<open>register_micro_block\<close>.\<close>

lemma register_micro_block_effect:
  assumes "register_micro_block c d n b ch = Some (res, ch')"
  shows "maps_change n ch ch'" "same_base ch ch'" "database ch' = database ch"
    "bc_offset ch' = bc_offset ch + 1" "bc_offset ch < micro_blocks_in_epoch (bc_cfg ch)"
    "current_lsn (block_by_hash ch') = n" "current_lsn (balances ch') = n" "current_lsn (election_results ch') = n"
    "last_block_hash ch' = digest c (hash_MicroBlock b)" "last_block_timestamp ch' = mh_timestamp (mb_header b)"
    "mh_epoch (mb_header b) = bc_epoch ch" "mh_offset (mb_header b) = bc_offset ch"
    "mh_previous (mb_header b) = last_block_hash ch"
    "bc_view_change_proof ch' = None" "mv_get (balances ch') () \<noteq> None" "mv_get (election_results ch') () \<noteq> None"
    "\<exists>r. fold_option (micro_tx c d n ch) (enumerate 0 (mb_transactions b))
             \<lparr>mr_inputs = [], mr_outputs = [], mr_gamma = 0, mr_block_reward = 0, mr_txs = [],
              mr_election = election_results ch\<rparr> = Some r \<and>
         (\<exists>ch1 ch2. register_inputs_and_outputs c n (digest c (hash_MicroBlock b)) (mr_inputs r) (mr_outputs r)
             (mr_gamma r) (mr_block_reward r) ch1 = Some ch2 \<and>
           block_by_hash ch1 = block_by_hash ch \<and> outputs_index ch1 = outputs_index ch \<and> balances ch1 = balances ch \<and>
           escrow ch1 = escrow ch \<and> same_base ch ch1 \<and>
           outputs_index ch' = outputs_index ch2 \<and> balances ch' = balances ch2)"
proof -
  let ?r0 = "\<lparr>mr_inputs = [], mr_outputs = [], mr_gamma = 0, mr_block_reward = 0, mr_txs = [],
              mr_election = election_results ch\<rparr>"
  obtain r ch1 ch2 er m where r: "fold_option (micro_tx c d n ch) (enumerate 0 (mb_transactions b)) ?r0 = Some r"
    "update_activity c n (mh_view_change (mb_header b)) (ch\<lparr>election_results := mr_election r\<rparr>) = Some ch1"
    "register_inputs_and_outputs c n (digest c (hash_MicroBlock b)) (mr_inputs r) (mr_outputs r)
             (mr_gamma r) (mr_block_reward r) ch1 = Some ch2"
    "mv_put n () (er\<lparr>er_view_change := 0, er_random := mh_random (mb_header b)\<rparr>) (election_results ch2) = Some m"
    "ch' = ch2\<lparr>last_block_timestamp := mh_timestamp (mb_header b), last_block_hash := digest c (hash_MicroBlock b),
                      bc_offset := bc_offset ch2 + 1, election_results := m, bc_view_change_proof := None\<rparr>"
    and guards: "mh_epoch (mb_header b) = bc_epoch ch" "mh_offset (mb_header b) = bc_offset ch"
    "mh_previous (mb_header b) = last_block_hash ch" "\<not> is_epoch_full ch"
    using assms by (auto simp: register_micro_block_def Let_def outcome_simps split: if_splits)
  obtain a where a: "ch1 = ch\<lparr>election_results := mr_election r, epoch_activity := a\<rparr>"
    "mv_changes n (epoch_activity ch) a"
    using update_activity_effect [OF r(2)] by auto
  have el: "mv_changes n (election_results ch) (mr_election r)" using fold_micro_tx_changes [OF r(1)] by simp
  note eff = register_inputs_and_outputs_effect [OF r(3)]
  show "maps_change n ch ch'"
    using eff(1,5) a el mv_changes_put [OF r(4)] unfolding r(5)
    by (auto simp: maps_change_def intro: mv_changes_trans)
  show "same_base ch ch'" "database ch' = database ch" "bc_offset ch' = bc_offset ch + 1"
    using eff(2-4) a(1) by (simp_all add: r(5) same_base_def)
  show "current_lsn (block_by_hash ch') = n" "current_lsn (balances ch') = n" "current_lsn (election_results ch') = n"
    using eff(7,8) current_lsn_put [OF r(4)] by (simp_all add: r(5))
  show "bc_offset ch < micro_blocks_in_epoch (bc_cfg ch)" using guards(4) by (simp add: is_epoch_full_def)
  show "\<exists>r. fold_option (micro_tx c d n ch) (enumerate 0 (mb_transactions b)) ?r0 = Some r \<and>
         (\<exists>ch1 ch2. register_inputs_and_outputs c n (digest c (hash_MicroBlock b)) (mr_inputs r) (mr_outputs r)
             (mr_gamma r) (mr_block_reward r) ch1 = Some ch2 \<and>
           block_by_hash ch1 = block_by_hash ch \<and> outputs_index ch1 = outputs_index ch \<and> balances ch1 = balances ch \<and>
           escrow ch1 = escrow ch \<and> same_base ch ch1 \<and>
           outputs_index ch' = outputs_index ch2 \<and> balances ch' = balances ch2)"
    using r(1,3) by (intro exI [of _ r] conjI exI [of _ ch1] exI [of _ ch2]) (simp_all add: r(5) a(1) same_base_def)
  show "last_block_hash ch' = digest c (hash_MicroBlock b)" "last_block_timestamp ch' = mh_timestamp (mb_header b)"
    "mh_epoch (mb_header b) = bc_epoch ch" "mh_offset (mb_header b) = bc_offset ch"
    "mh_previous (mb_header b) = last_block_hash ch" "bc_view_change_proof ch' = None" "mv_get (balances ch') () \<noteq> None" "mv_get (election_results ch') () \<noteq> None"
    using guards eff(9) mv_put_get [OF r(4)] by (simp_all add: r(5))
qed

section \<open>The logs of a chain\<close>

lemma LSN_le_iff [simp]:
  "LSN a b \<le> LSN a' b' \<longleftrightarrow> a < a' \<or> a = a' \<and> b \<le> b'" "LSN a b < LSN a' b' \<longleftrightarrow> a < a' \<or> a = a' \<and> b < b'"
  by (auto simp: less_eq_LSN_def less_LSN_def)

text \<open>Every roll-back to a number since the checkpoint succeeds.\<close>

definition mv_ok :: "('k::linorder, 'v, 'lsn::linorder) MultiVersionedMap \<Rightarrow> bool" where
  "mv_ok m \<longleftrightarrow> mv_inv m \<and> (\<forall>l \<ge> ckpt_lsn m. rollback_to_lsn l m \<noteq> None)"

abbreviation records :: "('k, 'v, 'lsn) MultiVersionedMap \<Rightarrow> 'lsn set" where
  "records m \<equiv> record_lsn ` set (undo m)"

lemma mv_changes_lsn: "mv_changes n m m' \<Longrightarrow> mv_inv m \<Longrightarrow> m' = m \<or> current_lsn m' \<le> n"
proof -
  assume "mv_changes n m m'" "mv_inv m"
  then obtain ops where ops: "run_ops mv_step ops m = Some m'" "\<forall>(l, _) \<in> set ops. l = n"
    by (auto simp: mv_changes_def)
  show ?thesis
  proof (cases ops rule: rev_cases)
    case (snoc ops' o1)
    then obtain op where "o1 = (n, op)" using ops(2) by (cases o1) auto
    with snoc ops obtain t where "run_ops mv_step ops' m = Some t" "mv_step n op t = Some m'"
      by (auto simp: run_ops_append outcome_simps)
    then show ?thesis using mv.lsn_step mv.run_inv \<open>mv_inv m\<close> by blast
  qed (use ops in simp)
qed

lemma rollback_here: "current_lsn m \<le> l \<Longrightarrow> ckpt_lsn m \<le> l \<Longrightarrow> rollback_to_lsn l m = Some m"
  by (simp add: rollback_to_lsn_def checkpoint_lsn_def rollback_loop_stop)

lemma mv_ok_changes:
  assumes "mv_ok m" "mv_changes n m m'"
  shows "mv_ok m'"
proof -
  have inv: "mv_inv m" using assms(1) by (simp add: mv_ok_def)
  note D = mv_changesD [OF assms(2) inv]
  have "rollback_to_lsn l m' \<noteq> None" if "ckpt_lsn m \<le> l" for l
  proof (cases "l < n")
    case True
    then show ?thesis using D(3) [OF that] assms(1) that by (simp add: mv_ok_def)
  next
    case False
    then show ?thesis
      using mv_changes_lsn [OF assms(2) inv] rollback_here [of m' l] assms(1) that D(2)
      by (auto simp: mv_ok_def not_less)
  qed
  then show ?thesis using D by (simp add: mv_ok_def)
qed

lemma mv_ok_rollback:
  assumes "mv_ok m" "rollback_to_lsn l m = Some m'"
  shows "mv_ok m'"
proof -
  have inv: "mv_inv m" using assms(1) by (simp add: mv_ok_def)
  note D = rollbackD [OF assms(2) inv]
  have "rollback_to_lsn k m' \<noteq> None" if "ckpt_lsn m \<le> k" for k
    using D(6) [of k] rollback_here [of m' k] D(2,4,5) that assms(1)
    by (cases "k \<le> l") (auto simp: mv_ok_def not_le)
  then show ?thesis using D(1,2) by (simp add: mv_ok_def)
qed

lemma rollback_records: "rollback_to_lsn l m = Some m' \<Longrightarrow> mv_inv m \<Longrightarrow> records m' = {r \<in> records m. r \<le> l}"
  using rollbackD(3) [of l m m'] by auto

lemma current_lsn_records: "mv_inv m \<Longrightarrow> current_lsn m = (if records m = {} then ckpt_lsn m else Max (records m))"
  using mv_inv_lsn_le [of m]
  by (cases "undo m" rule: rev_cases) (auto intro!: Max_eqI [symmetric])

lemma changes_records:
  assumes "mv_changes n m m'" "mv_inv m"
  shows "records m \<subseteq> records m'" "records m' \<subseteq> insert n (records m)"
    "current_lsn m' = n \<Longrightarrow> ckpt_lsn m \<noteq> n \<Longrightarrow> n \<in> records m'"
proof -
  obtain rs where "undo m' = undo m @ rs" "\<forall>r \<in> set rs. record_lsn r = n"
    using mv_changesD(4) [OF assms] by blast
  then show "records m \<subseteq> records m'" "records m' \<subseteq> insert n (records m)" by auto
  show "n \<in> records m'" if "current_lsn m' = n" "ckpt_lsn m \<noteq> n"
  proof -
    have "records m' \<noteq> {}" "Max (records m') = n"
      using that current_lsn_records [OF mv_changesD(1) [OF assms]] mv_changesD(2) [OF assms]
      by (auto split: if_splits)
    then show ?thesis using Max_in [of "records m'"] by simp
  qed
qed

definition epoch_lsns :: "u64 \<Rightarrow> u32 \<Rightarrow> LSN set" where
  "epoch_lsns ep n = LSN ep ` {..<n}"

lemma word_less_add_one: "n \<noteq> - 1 \<Longrightarrow> x < n + 1 \<longleftrightarrow> x \<le> n" for n :: "'a::len word"
proof -
  assume "n \<noteq> - 1"
  then have "1 + n \<noteq> 0" by (metis add.commute add_eq_0_iff)
  then show ?thesis by (simp add: word_less_nat_alt word_le_nat_alt unatSuc add.commute [of n] less_Suc_eq_le)
qed

lemma word_le_minus_one: "k \<noteq> 0 \<Longrightarrow> x \<le> k - 1 \<longleftrightarrow> x < k" for k :: "'a::len word"
  using word_less_add_one [of "k - 1" x] by simp

lemma epoch_lsns_Suc: "n \<noteq> - 1 \<Longrightarrow> epoch_lsns ep (n + 1) = insert (LSN ep n) (epoch_lsns ep n)"
  by (auto simp: epoch_lsns_def word_less_add_one le_less)

lemma word_minus_one_less: "0 < ep \<Longrightarrow> ep - 1 < ep" for ep :: "'a::len word"
  using word_le_minus_one [of ep "ep - 1"] by auto

lemma epoch_lsns_below:
  assumes "k \<le> n" "0 < ep"
  shows "{l \<in> epoch_lsns ep n. l \<le> prev_lsn ep k} = epoch_lsns ep k"
  using assms word_minus_one_less [OF assms(2)]
  by (auto simp: epoch_lsns_def prev_lsn_def word_le_minus_one)

lemma Max_epoch_lsns: "n \<noteq> 0 \<Longrightarrow> Max (epoch_lsns ep n) = LSN ep (n - 1)"
  using word_minus_one_less [of n]
  by (intro Max_eqI) (auto simp: epoch_lsns_def word_le_minus_one word_neq_0_conv)

lemma epoch_lsns_empty [simp]: "epoch_lsns ep n = {} \<longleftrightarrow> n = 0"
  by (auto simp: epoch_lsns_def word_neq_0_conv intro: exI [of _ 0])


definition full :: "(unit, 'v, 'lsn::linorder) MultiVersionedMap \<Rightarrow> bool" where
  "full m \<longleftrightarrow> (\<forall>l m'. rollback_to_lsn l m = Some m' \<longrightarrow> mv_get m' () \<noteq> None)"

text \<open>
  The logs of a chain at some offset of its epoch: one sequence number per micro block of the
  epoch, on top of the checkpoint of the last macro block. A view change writes the election
  result under the number of the next block.
\<close>

definition logs_ok :: "('g, 'f, 'd) Blockchain \<Rightarrow> bool" where
  "logs_ok ch \<longleftrightarrow>
     (let base = prev_lsn (bc_epoch ch) 0; lsns = epoch_lsns (bc_epoch ch) (bc_offset ch)
      in 0 < bc_epoch ch \<and> bc_offset ch \<le> micro_blocks_in_epoch (bc_cfg ch) \<and>
         mv_ok (block_by_hash ch) \<and> mv_ok (outputs_index ch) \<and> mv_ok (balances ch) \<and> mv_ok (escrow ch) \<and>
         mv_ok (epoch_activity ch) \<and> mv_ok (election_results ch) \<and>
         full (balances ch) \<and> full (election_results ch) \<and>
         ckpt_lsn (block_by_hash ch) = base \<and> ckpt_lsn (election_results ch) = base \<and>
         ckpt_lsn (outputs_index ch) \<le> base \<and> ckpt_lsn (balances ch) \<le> base \<and> ckpt_lsn (escrow ch) \<le> base \<and>
         ckpt_lsn (epoch_activity ch) \<le> base \<and>
         records (block_by_hash ch) = lsns \<and> lsns \<subseteq> records (election_results ch) \<and>
         records (election_results ch) \<subseteq> insert (LSN (bc_epoch ch) (bc_offset ch)) lsns \<and>
         records (outputs_index ch) \<subseteq> lsns \<and> records (balances ch) \<subseteq> lsns \<and> records (escrow ch) \<subseteq> lsns \<and>
         records (epoch_activity ch) \<subseteq> lsns)"

lemma full_changes:
  assumes "full m" "mv_ok m" "mv_changes n m m'" "mv_get m' () \<noteq> None"
  shows "full m'"
  unfolding full_def
proof (intro allI impI)
  fix l x
  assume x: "rollback_to_lsn l m' = Some x"
  have inv: "mv_inv m" using assms(2) by (simp add: mv_ok_def)
  note D = mv_changesD [OF assms(3) inv]
  have "ckpt_lsn m \<le> l" using rollbackD(4) [OF x D(1)] D(2) by simp
  show "mv_get x () \<noteq> None"
  proof (cases "l < n")
    case True
    then show ?thesis using D(3) [OF \<open>ckpt_lsn m \<le> l\<close>] x assms(1) by (auto simp: full_def)
  next
    case False
    then show ?thesis
      using mv_changes_lsn [OF assms(3) inv] rollback_here [of m' l] x D(2) \<open>ckpt_lsn m \<le> l\<close> assms(1,4)
      by (auto simp: full_def not_less)
  qed
qed

lemma full_rollback: "full m \<Longrightarrow> mv_ok m \<Longrightarrow> rollback_to_lsn l m = Some m' \<Longrightarrow> full m'"
  unfolding full_def
proof (intro allI impI)
  fix k x
  assume f: "\<forall>l m'. rollback_to_lsn l m = Some m' \<longrightarrow> mv_get m' () \<noteq> None" and "mv_ok m"
    and m': "rollback_to_lsn l m = Some m'" and x: "rollback_to_lsn k m' = Some x"
  then have inv: "mv_inv m" by (simp add: mv_ok_def)
  note D = rollbackD [OF m' inv]
  show "mv_get x () \<noteq> None"
  proof (cases "k \<le> l")
    case True
    then show ?thesis using D(6) x f by auto
  next
    case False
    then have "x = m'" using rollback_here [of m' k] D(5) rollbackD(4) [OF x D(1)] x by simp
    then show ?thesis using f m' by simp
  qed
qed

lemma map_step:
  assumes "mv_ok m" "mv_changes n m m'"
  shows "mv_ok m' \<and> ckpt_lsn m' = ckpt_lsn m \<and> records m \<subseteq> records m' \<and> records m' \<subseteq> insert n (records m) \<and>
    (current_lsn m' = n \<longrightarrow> ckpt_lsn m \<noteq> n \<longrightarrow> n \<in> records m')"
  using assms changes_records [of n m m'] mv_changesD(2) [of n m m'] mv_ok_changes [of m n m']
  by (simp add: mv_ok_def)

lemma insert_chain:
  "A \<subseteq> insert n B \<Longrightarrow> B \<subseteq> L \<Longrightarrow> A \<subseteq> insert n L" "A \<subseteq> insert n B \<Longrightarrow> B \<subseteq> insert n L \<Longrightarrow> A \<subseteq> insert n L"
  "n \<in> A \<Longrightarrow> B \<subseteq> A \<Longrightarrow> L \<subseteq> B \<Longrightarrow> insert n L \<subseteq> A"
  by auto

lemma logs_register:
  assumes "logs_ok ch" "register_micro_block c d (LSN (bc_epoch ch) (bc_offset ch)) b ch = Some (r, ch')"
  shows "logs_ok ch'"
proof -
  note E = register_micro_block_effect [OF assms(2)]
  let ?n = "LSN (bc_epoch ch) (bc_offset ch)"
  have base: "prev_lsn (bc_epoch ch) 0 < ?n" "prev_lsn (bc_epoch ch) 0 \<noteq> ?n"
    using assms(1) word_minus_one_less [of "bc_epoch ch"] by (auto simp: logs_ok_def Let_def prev_lsn_def)
  have off: "bc_offset ch \<noteq> -1" using E(5) by (metis linorder_not_le word_n1_ge)
  have lsns: "epoch_lsns (bc_epoch ch) (bc_offset ch + 1) = insert ?n (epoch_lsns (bc_epoch ch) (bc_offset ch))"
    using off by (rule epoch_lsns_Suc)
  have ch: "mv_changes ?n (block_by_hash ch) (block_by_hash ch')" "mv_changes ?n (outputs_index ch) (outputs_index ch')"
    "mv_changes ?n (balances ch) (balances ch')" "mv_changes ?n (escrow ch) (escrow ch')"
    "mv_changes ?n (epoch_activity ch) (epoch_activity ch')" "mv_changes ?n (election_results ch) (election_results ch')"
    using E(1) by (simp_all add: maps_change_def)
  have L: "0 < bc_epoch ch" "mv_ok (block_by_hash ch)" "mv_ok (outputs_index ch)" "mv_ok (balances ch)" "mv_ok (escrow ch)"
    "mv_ok (epoch_activity ch)" "mv_ok (election_results ch)" "full (balances ch)" "full (election_results ch)"
    using assms(1) by (simp_all add: logs_ok_def Let_def)
  note M = map_step [OF L(2) ch(1)] map_step [OF L(3) ch(2)] map_step [OF L(4) ch(3)] map_step [OF L(5) ch(4)]
    map_step [OF L(6) ch(5)] map_step [OF L(7) ch(6)]
  have f: "full (balances ch')" "full (election_results ch')"
    using full_changes [OF L(8,4) ch(3) E(15)] full_changes [OF L(9,7) ch(6) E(16)] by auto
  have le: "bc_offset ch + 1 \<le> micro_blocks_in_epoch (bc_cfg ch)" using E(5) by (simp add: inc_le)
  have same: "bc_epoch ch' = bc_epoch ch" "bc_cfg ch' = bc_cfg ch" using E(2) by (simp_all add: same_base_def)
  let ?L = "epoch_lsns (bc_epoch ch) (bc_offset ch)" and ?base = "prev_lsn (bc_epoch ch) 0"
  have K: "ckpt_lsn (block_by_hash ch) = ?base" "ckpt_lsn (election_results ch) = ?base"
    "ckpt_lsn (outputs_index ch) \<le> ?base" "ckpt_lsn (balances ch) \<le> ?base" "ckpt_lsn (escrow ch) \<le> ?base"
    "ckpt_lsn (epoch_activity ch) \<le> ?base"
    using assms(1) by (simp_all add: logs_ok_def Let_def)
  have R: "records (block_by_hash ch) = ?L" "?L \<subseteq> records (election_results ch)"
    "records (election_results ch) \<subseteq> insert ?n ?L"
    "records (outputs_index ch) \<subseteq> ?L" "records (balances ch) \<subseteq> ?L" "records (escrow ch) \<subseteq> ?L"
    "records (epoch_activity ch) \<subseteq> ?L"
    using assms(1) by (simp_all add: logs_ok_def Let_def)
  have new: "?n \<in> records (block_by_hash ch')" "?n \<in> records (election_results ch')"
    using M(1,6) K(1,2) E(6,8) base(2) by simp_all
  have "records (block_by_hash ch') \<subseteq> insert ?n ?L" "insert ?n ?L \<subseteq> records (block_by_hash ch')"
    using M(1) R(1) new(1) by simp_all
  then have blocks: "records (block_by_hash ch') = insert ?n ?L" by (rule subset_antisym)
  have el: "insert ?n ?L \<subseteq> records (election_results ch')" "records (election_results ch') \<subseteq> insert ?n ?L"
    by (rule insert_chain(3) [OF new(2) _ R(2)], simp add: M(6), rule insert_chain(2) [OF _ R(3)], simp add: M(6))
  have others: "records (outputs_index ch') \<subseteq> insert ?n ?L" "records (balances ch') \<subseteq> insert ?n ?L"
    "records (escrow ch') \<subseteq> insert ?n ?L" "records (epoch_activity ch') \<subseteq> insert ?n ?L"
    using insert_chain(1) [OF _ R(4)] insert_chain(1) [OF _ R(5)] insert_chain(1) [OF _ R(6)] insert_chain(1) [OF _ R(7)]
      M(2-5) by simp_all
  show ?thesis
    unfolding logs_ok_def Let_def same E(4) lsns
    using M K f le blocks el others L(1) by (simp add: subset_insertI2)
qed

lemma prev_lsn_less: "0 < ep \<Longrightarrow> prev_lsn ep k < LSN ep k"
  using word_minus_one_less [of ep] word_minus_one_less [of k] by (auto simp: prev_lsn_def word_neq_0_conv)

lemma prev_lsn_mono: "0 < ep \<Longrightarrow> k \<le> n \<Longrightarrow> prev_lsn ep k \<le> prev_lsn ep n"
proof -
  assume "0 < ep" "k \<le> n"
  show ?thesis
  proof (cases "k = 0")
    case True
    then show ?thesis using word_minus_one_less [OF \<open>0 < ep\<close>] by (simp add: prev_lsn_def)
  next
    case False
    then have "n \<noteq> 0" using \<open>k \<le> n\<close> by auto
    moreover have "k - 1 < n" using word_minus_one_less [of k] False \<open>k \<le> n\<close> by (simp add: word_neq_0_conv)
    ultimately show ?thesis using False by (simp add: prev_lsn_def word_le_minus_one)
  qed
qed

lemma logs_view:
  assumes "logs_ok ch" "mv_put (LSN (bc_epoch ch) (bc_offset ch)) () er (election_results ch) = Some m"
  shows "logs_ok (ch\<lparr>election_results := m, bc_view_change_proof := p\<rparr>)"
proof -
  let ?n = "LSN (bc_epoch ch) (bc_offset ch)" and ?L = "epoch_lsns (bc_epoch ch) (bc_offset ch)"
  have L: "mv_ok (election_results ch)" "full (election_results ch)" "?L \<subseteq> records (election_results ch)"
    "records (election_results ch) \<subseteq> insert ?n ?L"
    using assms(1) by (simp_all add: logs_ok_def Let_def)
  note c = mv_changes_put [OF assms(2)]
  note M = map_step [OF L(1) c]
  have "full m" using full_changes [OF L(2,1) c] mv_put_get [OF assms(2)] by simp
  moreover have "?L \<subseteq> records m" "records m \<subseteq> insert ?n ?L"
    using M subset_trans [OF L(3)] insert_chain(2) [OF _ L(4)] by simp_all
  ultimately show ?thesis using assms(1) M by (simp add: logs_ok_def Let_def)
qed

lemma map_back:
  assumes "mv_ok m" "ckpt_lsn m \<le> l"
  shows "\<exists>m'. rollback_to_lsn l m = Some m' \<and> mv_ok m' \<and> ckpt_lsn m' = ckpt_lsn m \<and>
    records m' = {r \<in> records m. r \<le> l} \<and> current_lsn m' \<le> l"
proof -
  obtain m' where m': "rollback_to_lsn l m = Some m'" using assms by (auto simp: mv_ok_def)
  moreover have "mv_inv m" using assms(1) by (simp add: mv_ok_def)
  ultimately show ?thesis
    using mv_ok_rollback [OF assms(1) m'] rollbackD [OF m'] rollback_records [OF m'] by blast
qed

lemma records_below:
  assumes "0 < ep" "k < n" "A \<subseteq> insert (LSN ep n) (epoch_lsns ep n)"
  shows "{r \<in> A. r \<le> prev_lsn ep k} \<subseteq> epoch_lsns ep k"
    "epoch_lsns ep n \<subseteq> A \<Longrightarrow> {r \<in> A. r \<le> prev_lsn ep k} = epoch_lsns ep k"
proof -
  have "\<not> LSN ep n \<le> prev_lsn ep k"
    using prev_lsn_less [OF assms(1), of k] assms(2) by (auto simp: not_le intro: less_trans)
  then have "{r \<in> A. r \<le> prev_lsn ep k} \<subseteq> {r \<in> epoch_lsns ep n. r \<le> prev_lsn ep k}" using assms(3) by auto
  moreover have eq: "{r \<in> epoch_lsns ep n. r \<le> prev_lsn ep k} = epoch_lsns ep k"
    using epoch_lsns_below [of k n ep] assms(1,2) by auto
  ultimately show "{r \<in> A. r \<le> prev_lsn ep k} \<subseteq> epoch_lsns ep k" by simp
  then show "{r \<in> A. r \<le> prev_lsn ep k} = epoch_lsns ep k" if "epoch_lsns ep n \<subseteq> A"
    using that eq by auto
qed

lemma current_lsn_epoch:
  assumes "mv_ok m" "records m = epoch_lsns ep k" "ckpt_lsn m = prev_lsn ep 0"
  shows "current_lsn m = prev_lsn ep k"
  using current_lsn_records [of m] assms Max_epoch_lsns [of k ep] by (auto simp: mv_ok_def prev_lsn_def)

lemma rollback_maps_ok:
  assumes "logs_ok ch" "k < bc_offset ch"
  shows "\<exists>ch1. rollback_maps (prev_lsn (bc_epoch ch) k) ch = Some ch1 \<and> logs_ok (ch1\<lparr>bc_offset := k\<rparr>) \<and>
    rollback_to_lsn (prev_lsn (bc_epoch ch) k) (outputs_index ch) = Some (outputs_index ch1) \<and>
    rollback_to_lsn (prev_lsn (bc_epoch ch) k) (balances ch) = Some (balances ch1) \<and>
    rollback_to_lsn (prev_lsn (bc_epoch ch) k) (block_by_hash ch) = Some (block_by_hash ch1) \<and>
    rollback_to_lsn (prev_lsn (bc_epoch ch) k) (escrow ch) = Some (escrow ch1) \<and>
    rollback_to_lsn (prev_lsn (bc_epoch ch) k) (epoch_activity ch) = Some (epoch_activity ch1) \<and>
    rollback_to_lsn (prev_lsn (bc_epoch ch) k) (election_results ch) = Some (election_results ch1) \<and>
    same_base ch ch1 \<and> database ch1 = database ch"
proof -
  let ?ep = "bc_epoch ch" and ?n = "bc_offset ch" and ?l = "prev_lsn (bc_epoch ch) k"
  let ?base = "prev_lsn ?ep 0" and ?L = "epoch_lsns ?ep ?n"
  have ep: "0 < ?ep" using assms(1) by (simp add: logs_ok_def Let_def)
  have base: "?base \<le> ?l" using prev_lsn_mono [OF ep, of 0 k] by simp
  have L: "mv_ok (block_by_hash ch)" "mv_ok (outputs_index ch)" "mv_ok (balances ch)" "mv_ok (escrow ch)"
    "mv_ok (epoch_activity ch)" "mv_ok (election_results ch)" "full (balances ch)" "full (election_results ch)"
    "?n \<le> micro_blocks_in_epoch (bc_cfg ch)"
    using assms(1) by (simp_all add: logs_ok_def Let_def)
  have K: "ckpt_lsn (block_by_hash ch) = ?base" "ckpt_lsn (election_results ch) = ?base"
    "ckpt_lsn (outputs_index ch) \<le> ?base" "ckpt_lsn (balances ch) \<le> ?base" "ckpt_lsn (escrow ch) \<le> ?base"
    "ckpt_lsn (epoch_activity ch) \<le> ?base"
    using assms(1) by (simp_all add: logs_ok_def Let_def)
  have R: "records (block_by_hash ch) = ?L" "?L \<subseteq> records (election_results ch)"
    "records (election_results ch) \<subseteq> insert (LSN ?ep ?n) ?L"
    "records (outputs_index ch) \<subseteq> ?L" "records (balances ch) \<subseteq> ?L" "records (escrow ch) \<subseteq> ?L"
    "records (epoch_activity ch) \<subseteq> ?L"
    using assms(1) by (simp_all add: logs_ok_def Let_def)
  note below = records_below [OF ep assms(2)]
  obtain blocks where blocks: "rollback_to_lsn ?l (block_by_hash ch) = Some blocks" "mv_ok blocks"
    "ckpt_lsn blocks = ?base" "records blocks = epoch_lsns ?ep k"
    using map_back [OF L(1), of ?l] K(1) base R(1) below(2) [OF subset_insertI order_refl] by auto
  obtain election where election: "rollback_to_lsn ?l (election_results ch) = Some election" "mv_ok election"
    "ckpt_lsn election = ?base" "records election = epoch_lsns ?ep k"
    using map_back [OF L(6), of ?l] K(2) base R(2,3) below(2) [OF R(3) R(2)] by auto
  obtain index where index: "rollback_to_lsn ?l (outputs_index ch) = Some index" "mv_ok index" "ckpt_lsn index \<le> ?base"
    "records index \<subseteq> epoch_lsns ?ep k" "current_lsn index \<le> ?l"
    using map_back [OF L(2) order_trans [OF K(3) base]] below(1) [OF subset_insertI2 [OF R(4)]] K(3) by auto
  obtain bals where bals: "rollback_to_lsn ?l (balances ch) = Some bals" "mv_ok bals" "ckpt_lsn bals \<le> ?base"
    "records bals \<subseteq> epoch_lsns ?ep k" "current_lsn bals \<le> ?l"
    using map_back [OF L(3) order_trans [OF K(4) base]] below(1) [OF subset_insertI2 [OF R(5)]] K(4) by auto
  obtain e where e: "rollback_to_lsn ?l (escrow ch) = Some e" "mv_ok e" "ckpt_lsn e \<le> ?base"
    "records e \<subseteq> epoch_lsns ?ep k" "current_lsn e \<le> ?l"
    using map_back [OF L(4) order_trans [OF K(5) base]] below(1) [OF subset_insertI2 [OF R(6)]] K(5) by auto
  obtain act where act: "rollback_to_lsn ?l (epoch_activity ch) = Some act" "mv_ok act" "ckpt_lsn act \<le> ?base"
    "records act \<subseteq> epoch_lsns ?ep k" "current_lsn act \<le> ?l"
    using map_back [OF L(5) order_trans [OF K(6) base]] below(1) [OF subset_insertI2 [OF R(7)]] K(6) by auto
  have full: "full bals" "full election"
    using full_rollback [OF L(7,3) bals(1)] full_rollback [OF L(8,6) election(1)] .
  have cur: "current_lsn blocks = ?l" "current_lsn election = ?l"
    using current_lsn_epoch [OF blocks(2,4,3)] current_lsn_epoch [OF election(2,4,3)] .
  let ?ch1 = "ch\<lparr>block_by_hash := blocks, outputs_index := index, balances := bals, escrow := e,
                    epoch_activity := act, election_results := election\<rparr>"
  have "rollback_maps ?l ch = Some ?ch1"
    using blocks(1) election(1) index(1,5) bals(1,5) e(1,5) act(1,5) cur
    by (simp add: rollback_maps_def escrow_rollback_to_lsn_def escrow_current_lsn_def)
  moreover have "logs_ok (?ch1\<lparr>bc_offset := k\<rparr>)"
    using ep order_trans [OF less_imp_le [OF assms(2)] L(9)] blocks election index bals e act full
    by (simp add: logs_ok_def Let_def subset_insertI)
  ultimately show ?thesis using blocks(1) election(1) index(1) bals(1) e(1) act(1) by (auto simp: same_base_def)
qed

end
