(* ===== verification/Supply.thy ===== *)
theory Supply
  imports Revert
begin

text \<open>
  The invariant of a chain within an epoch, over all the micro blocks that may still be reverted:
  the blocks are on the disk, the unspent outputs are found in them, and the sum of the
  commitments of the unspent outputs is what was created less what was burned. Registering a
  micro block and reverting the last one keep it, and the second undoes the first.
\<close>

section \<open>The database\<close>

text \<open>What the code relies on of the key-value store.\<close>

definition storage_laws :: "('d, 'f) storage \<Rightarrow> bool" where
  "storage_laws d \<longleftrightarrow>
     (\<forall>db k b. db_get d (db_put d k b db) k = Some b) \<and>
     (\<forall>db k k' b. k \<noteq> k' \<longrightarrow> db_get d (db_put d k b db) k' = db_get d db k') \<and>
     (\<forall>db k k'. k \<noteq> k' \<longrightarrow> db_get d (db_delete d k db) k' = db_get d db k')"

lemma block_key_inject [simp]: "block_key a = block_key b \<longleftrightarrow> a = b"
  by (cases a; cases b) (auto simp: block_key_def)

fun key_lsn :: "OutputKey \<Rightarrow> LSN" where
  "key_lsn (OKMacroBlock epoch _) = LSN epoch MACRO_BLOCK_OFFSET"
| "key_lsn (OKMicroBlock epoch offset _ _) = LSN epoch offset"

text \<open>Two chains that hold the same block at a position.\<close>

definition same_block ::
  "('d, 'f) storage \<Rightarrow> LSN \<Rightarrow> ('g, 'f, 'd) Blockchain \<Rightarrow> ('g, 'f, 'd) Blockchain \<Rightarrow> bool" where
  "same_block d lsn ch ch' \<longleftrightarrow>
     same_base ch ch' \<and> db_get d (database ch') (block_key lsn) = db_get d (database ch) (block_key lsn)"

lemma block_at_cong: "same_block d lsn ch ch' \<Longrightarrow> block_at d lsn ch' = block_at d lsn ch"
  by (auto simp: same_block_def same_base_def block_at_def get_block_cached_def Let_def split: option.split)

lemma resolve_cong:
  "block_at d (key_lsn k) ch' = block_at d (key_lsn k) ch \<Longrightarrow> resolve_output c d ch' k = resolve_output c d ch k"
  by (cases k) (simp_all add: macro_block_def micro_block_def)

definition written :: "('d, 'f) storage \<Rightarrow> 'f MicroBlock \<Rightarrow> ('g, 'f, 'd) Blockchain \<Rightarrow> ('g, 'f, 'd) Blockchain" where
  "written d b ch =
     ch\<lparr>database := db_put d (block_key (LSN (bc_epoch ch) (bc_offset ch))) (MicroBlock b) (database ch)\<rparr>"

lemma same_block_written:
  "storage_laws d \<Longrightarrow> lsn \<noteq> LSN (bc_epoch ch) (bc_offset ch) \<Longrightarrow> same_block d lsn ch (written d b ch)"
  by (auto simp: same_block_def same_base_def written_def storage_laws_def)

section \<open>The unspent outputs and the monetary balance\<close>

text \<open>The commitment of the output an index entry stands for.\<close>

definition out_val :: "('g, 'f) crypto \<Rightarrow> ('d, 'f) storage \<Rightarrow> ('g, 'f, 'd) Blockchain \<Rightarrow> OutputKey \<Rightarrow> 'g option" where
  "out_val c d ch k =
     (case resolve_output c d ch k of Some (Some r) \<Rightarrow> cmt_val c (or_output r) | _ \<Rightarrow> None)"

definition utxo_sum ::
  "('g::monoid_add, 'f) crypto \<Rightarrow> ('d, 'f) storage \<Rightarrow> ('g, 'f, 'd) Blockchain \<Rightarrow>
     (hash, OutputKey, LSN) MultiVersionedMap \<Rightarrow> 'g" where
  "utxo_sum c d ch index = sum_list (map (\<lambda>(h, k). the (out_val c d ch k)) (mv_map index))"

text \<open>The output an index entry stands for has the hash it is indexed by.\<close>

definition found ::
  "('g, 'f) crypto \<Rightarrow> ('d, 'f) storage \<Rightarrow> ('g, 'f, 'd) Blockchain \<Rightarrow> hash \<Rightarrow> OutputKey \<Rightarrow> bool" where
  "found c d ch h k \<longleftrightarrow> (\<exists>r. resolve_output c d ch k = Some (Some r) \<and> output_digest c (or_output r) = h)"

text \<open>
  The outputs and balances before a sequence number: every unspent output lies in an earlier
  block and is found there, and the sum of their commitments is what was created less what was
  burned.
\<close>

definition utxo_ok ::
  "('g::ab_group_add, 'f) crypto \<Rightarrow> ('d, 'f) storage \<Rightarrow> ('g, 'f, 'd) Blockchain \<Rightarrow> LSN \<Rightarrow>
     (hash, OutputKey, LSN) MultiVersionedMap \<Rightarrow> (unit, ('g, 'f) Balance, LSN) MultiVersionedMap \<Rightarrow> bool" where
  "utxo_ok c d ch l index bals \<longleftrightarrow>
     (\<forall>(h, key) \<in> set (mv_map index). key_lsn key < l \<and> out_val c d ch key \<noteq> None \<and> found c d ch h key) \<and>
     (\<exists>bal created burned. mv_get bals () = Some bal \<and> pt_val c (bal_created bal) = Some created \<and>
        pt_val c (bal_burned bal) = Some burned \<and> utxo_sum c d ch index = created - burned)"

definition snapshot_ok ::
  "('g::ab_group_add, 'f) crypto \<Rightarrow> ('d, 'f) storage \<Rightarrow> ('g, 'f, 'd) Blockchain \<Rightarrow> LSN \<Rightarrow>
     (hash, OutputKey, LSN) MultiVersionedMap \<Rightarrow> (unit, ('g, 'f) Balance, LSN) MultiVersionedMap \<Rightarrow> bool" where
  "snapshot_ok c d ch l index bals \<longleftrightarrow>
     utxo_ok c d ch l index bals \<and>
     (\<exists>bal. mv_get bals () = Some bal \<and>
        monetary_balance c (bal_block_reward bal) (bal_burned bal) (bal_created bal) (bal_gamma bal) = Some True)"

lemma utxo_cong:
  assumes "utxo_ok c d ch l index bals" "\<And>lsn. lsn < l \<Longrightarrow> block_at d lsn ch' = block_at d lsn ch"
  shows "utxo_ok c d ch' l index bals"
proof -
  have res: "resolve_output c d ch' key = resolve_output c d ch key" if "(h, key) \<in> set (mv_map index)" for h key
    using assms(1) that by (intro resolve_cong assms(2)) (auto simp: utxo_ok_def)
  have eq: "out_val c d ch' key = out_val c d ch key" "found c d ch' h key = found c d ch h key"
    if "(h, key) \<in> set (mv_map index)" for h key
    using res [OF that] by (simp_all add: out_val_def found_def)
  have "utxo_sum c d ch' index = utxo_sum c d ch index"
    unfolding utxo_sum_def by (rule arg_cong [of _ _ sum_list], rule map_cong) (auto simp: eq)
  then show ?thesis
    using assms(1) eq by (auto simp: utxo_ok_def)
qed

lemma snapshot_cong:
  "snapshot_ok c d ch l index bals \<Longrightarrow> (\<And>lsn. lsn < l \<Longrightarrow> block_at d lsn ch' = block_at d lsn ch) \<Longrightarrow>
     snapshot_ok c d ch' l index bals"
  unfolding snapshot_ok_def using utxo_cong [of c d ch l index bals ch'] by blast

lemma sum_bt_del:
  fixes f :: "'k \<times> 'v \<Rightarrow> 'a::ab_group_add"
  shows "bt_get m k = Some v \<Longrightarrow> sum_list (map f (bt_del k m)) = sum_list (map f m) - f (k, v)"
  by (induction k m rule: bt_del.induct) (auto simp: algebra_simps split: if_splits)

lemma register_inputD:
  assumes "register_input c n (h, i) (index, e, b0) = Some s"
  obtains idx1 e1 cmt v where "mv_remove n h index = Some (Some v, idx1)" "pedersen_commitment c i = Some cmt"
    "s = (idx1, e1, pt_add c b0 cmt)"
  using assms by (auto simp: register_input_def outcome_simps split: option.splits prod.splits)

lemma register_outputD:
  assumes "register_output c n ep eps (h, o', k) (index, e, b0) = Some s"
  obtains idx1 e1 cmt where "mv_insert n h k index = Some (None, idx1)" "pedersen_commitment c o' = Some cmt"
    "s = (idx1, e1, pt_add c b0 cmt)"
  using assms by (auto simp: register_output_def outcome_simps split: option.splits prod.splits if_splits)

text \<open>The inputs of a block leave the index and are burned, the outputs enter it and are created.\<close>

lemma register_inputs_sum:
  fixes c :: "('g::ab_group_add, 'f) crypto"
  assumes "fold_option (register_input c n) ins (index, e, b0) = Some (index', e', b1)"
    "bt_inv (mv_map index)" "distinct (map fst ins)" "pt_val c b1 = Some x1"
    "\<forall>(h, i) \<in> set ins. \<exists>k. mv_get index h = Some k \<and> val k = cmt_val c i"
  shows "\<exists>x0. pt_val c b0 = Some x0 \<and> bt_inv (mv_map index') \<and> set (mv_map index') \<subseteq> set (mv_map index) \<and>
    sum_list (map (\<lambda>(h, k). the (val k)) (mv_map index')) =
      sum_list (map (\<lambda>(h, k). the (val k)) (mv_map index)) - (x1 - x0)"
  using assms
proof (induction ins arbitrary: index e b0)
  case Nil
  then show ?case by simp
next
  case (Cons hi ins)
  obtain h i where hi: "hi = (h, i)" by (cases hi)
  obtain idx1 e1 cmt v where s: "mv_remove n h index = Some (Some v, idx1)" "pedersen_commitment c i = Some cmt"
    "fold_option (register_input c n) ins (idx1, e1, pt_add c b0 cmt) = Some (index', e', b1)"
    using Cons.prems(1) by (auto simp: hi outcome_simps elim!: register_inputD)
  have get: "bt_get (mv_map index) h = Some v" "mv_map idx1 = bt_del h (mv_map index)"
    using s(1) by (auto simp: mv_remove_def bt_remove_def Let_def split: if_splits option.splits)
  have inv1: "bt_inv (mv_map idx1)" using get(2) Cons.prems(2) by simp
  have others: "\<forall>(h', i) \<in> set ins. \<exists>k. mv_get idx1 h' = Some k \<and> val k = cmt_val c i"
  proof clarify
    fix h' i' assume "(h', i') \<in> set ins"
    then have "h' \<noteq> h" "\<exists>k. mv_get index h' = Some k \<and> val k = cmt_val c i'"
      using Cons.prems(3,5) by (auto simp: hi rev_image_eqI)
    then show "\<exists>k. mv_get idx1 h' = Some k \<and> val k = cmt_val c i'"
      using Cons.prems(2) get(2) by (simp add: mv_get_def)
  qed
  obtain x where x: "pt_val c (pt_add c b0 cmt) = Some x" "bt_inv (mv_map index')"
    "set (mv_map index') \<subseteq> set (mv_map idx1)"
    "sum_list (map (\<lambda>(h, k). the (val k)) (mv_map index')) =
      sum_list (map (\<lambda>(h, k). the (val k)) (mv_map idx1)) - (x1 - x)"
    using Cons.IH [OF s(3) inv1 _ Cons.prems(4) others] Cons.prems(3) by auto
  obtain x0 y where xy: "pt_val c b0 = Some x0" "pt_val c cmt = Some y" "x = x0 + y"
    using x(1) by (auto simp: pt_simps split: option.splits)
  have "val v = Some y"
    using Cons.prems(5) get(1) s(2) xy(2) by (auto simp: hi mv_get_def cmt_val_def)
  then show ?case
    using x xy get sum_bt_del [OF get(1), of "\<lambda>(h, k). the (val k)"] bt_del_subset [of h "mv_map index"]
    by (auto simp: algebra_simps)
qed

lemma register_outputs_sum:
  fixes c :: "('g::ab_group_add, 'f) crypto"
  assumes "fold_option (register_output c n ep eps) outs (index, e, b0) = Some (index', e', b1)"
    "bt_inv (mv_map index)" "pt_val c b1 = Some x1"
    "\<forall>(h, o', k) \<in> set outs. val k = cmt_val c o'"
  shows "\<exists>x0. pt_val c b0 = Some x0 \<and> bt_inv (mv_map index') \<and>
    (\<forall>(h, k) \<in> set (mv_map index'). (h, k) \<in> set (mv_map index) \<or> val k \<noteq> None \<and> (\<exists>o'. (h, o', k) \<in> set outs)) \<and>
    sum_list (map (\<lambda>(h, k). the (val k)) (mv_map index')) =
      sum_list (map (\<lambda>(h, k). the (val k)) (mv_map index)) + (x1 - x0)"
  using assms
proof (induction outs arbitrary: index e b0)
  case Nil
  then show ?case by auto
next
  case (Cons ho outs)
  obtain h o' k where ho: "ho = (h, o', k)" by (cases ho)
  obtain idx1 e1 cmt where s: "mv_insert n h k index = Some (None, idx1)" "pedersen_commitment c o' = Some cmt"
    "fold_option (register_output c n ep eps) outs (idx1, e1, pt_add c b0 cmt) = Some (index', e', b1)"
    using Cons.prems(1) by (auto simp: ho outcome_simps elim!: register_outputD)
  have get: "bt_get (mv_map index) h = None" "mv_map idx1 = bt_put h k (mv_map index)"
    using s(1) by (auto simp: mv_insert_def bt_insert_def Let_def split: if_splits option.splits)
  have inv1: "bt_inv (mv_map idx1)" using get(2) Cons.prems(2) by simp
  obtain x where x: "pt_val c (pt_add c b0 cmt) = Some x" "bt_inv (mv_map index')"
    "\<forall>(h, k) \<in> set (mv_map index'). (h, k) \<in> set (mv_map idx1) \<or> val k \<noteq> None \<and> (\<exists>o'. (h, o', k) \<in> set outs)"
    "sum_list (map (\<lambda>(h, k). the (val k)) (mv_map index')) =
      sum_list (map (\<lambda>(h, k). the (val k)) (mv_map idx1)) + (x1 - x)"
    using Cons.IH [OF s(3) inv1 Cons.prems(3)] Cons.prems(4) by auto
  obtain x0 y where xy: "pt_val c b0 = Some x0" "pt_val c cmt = Some y" "x = x0 + y"
    using x(1) by (auto simp: pt_simps split: option.splits)
  have v: "val k = Some y"
    using Cons.prems(4) s(2) xy(2) by (auto simp: ho cmt_val_def)
  have "\<forall>(h, k) \<in> set (mv_map index'). (h, k) \<in> set (mv_map index) \<or> val k \<noteq> None \<and> (\<exists>o'. (h, o', k) \<in> set (ho # outs))"
    using x(3) get(2) v bt_put_subset [of h k "mv_map index"] by (fastforce simp: ho)
  then show ?case
    using x xy v sum_bt_put [OF Cons.prems(2), of "\<lambda>(h, k). the (val k)" h k] get
    by (auto simp: algebra_simps)
qed

section \<open>The transactions of a micro block\<close>

text \<open>
  The inputs collected from the transactions are unspent outputs of the chain; the outputs have
  the index keys under which the block itself is found.
\<close>

definition keyed :: "('g, 'f, 'd) Blockchain \<Rightarrow> 'f Transaction list \<Rightarrow> Output \<Rightarrow> OutputKey \<Rightarrow> bool" where
  "keyed ch txs o' key \<longleftrightarrow>
     (\<exists>i j. key = OKMicroBlock (bc_epoch ch) (bc_offset ch) (of_nat i) (of_nat j) \<and>
        i < U32_MAX \<and> j < U32_MAX \<and> i < length txs \<and> nth_opt (txouts (txs ! i)) j = Some o')"

definition collected ::
  "('g, 'f) crypto \<Rightarrow> ('d, 'f) storage \<Rightarrow> ('g, 'f, 'd) Blockchain \<Rightarrow> 'f Transaction list \<Rightarrow>
     'f MicroRegister \<Rightarrow> bool" where
  "collected c d ch txs r \<longleftrightarrow>
     bt_inv (mr_inputs r) \<and> bt_inv (mr_outputs r) \<and>
     (\<forall>(h, i) \<in> set (mr_inputs r). output_by_hash c d h ch = Some (Some i)) \<and>
     (\<forall>(h, o', key) \<in> set (mr_outputs r). output_digest c o' = h \<and> keyed ch txs o' key)"

lemma fold_option_inv:
  assumes "fold_option f xs s = Some s'" "P s" "\<And>x s s'. x \<in> set xs \<Longrightarrow> P s \<Longrightarrow> f x s = Some s' \<Longrightarrow> P s'"
  shows "P s'"
  using fold_option_rel [OF assms(1), where R = "\<lambda>s s'. P s \<longrightarrow> P s'"] assms(2,3) by blast

lemma fold_option_all: "fold_option f xs s = Some s' \<Longrightarrow> x \<in> set xs \<Longrightarrow> \<exists>t t'. f x t = Some t'"
  by (induction xs arbitrary: s) (auto simp: outcome_simps)

lemma micro_input_collected:
  "micro_input c d ch h r = Some r' \<Longrightarrow> collected c d ch txs r \<Longrightarrow> collected c d ch txs r'"
  using bt_put_subset [of h _ "mr_inputs r"]
  by (fastforce simp: micro_input_def collected_def split: if_splits option.splits)

lemma micro_output_collected:
  assumes "micro_output c ch i (j, o') r = Some r'" "collected c d ch txs r"
    "i < U32_MAX" "i < length txs" "nth_opt (txouts (txs ! i)) j = Some o'"
  shows "collected c d ch txs r'"
proof -
  let ?key = "OKMicroBlock (bc_epoch ch) (bc_offset ch) (of_nat i) (of_nat j)"
  have r': "r' = r\<lparr>mr_outputs := bt_put (output_digest c o') (o', ?key) (mr_outputs r)\<rparr>" "j < U32_MAX"
    using assms(1) by (auto simp: micro_output_def Let_def split: if_splits)
  then have "keyed ch txs o' ?key" using assms(3-5) unfolding keyed_def by blast
  then show ?thesis
    using assms(2) bt_put_subset [of "output_digest c o'" "(o', ?key)" "mr_outputs r"] r'(1)
    by (fastforce simp: collected_def)
qed

lemma micro_tx_kind_collected:
  "micro_tx_kind n tx r = Some r' \<Longrightarrow> collected c d ch txs r \<Longrightarrow> collected c d ch txs r'"
  by (cases "(n, tx, r)" rule: micro_tx_kind.cases) (auto simp: outcome_simps Let_def collected_def)

lemma micro_tx_collected:
  assumes "micro_tx c d n ch (i, tx) r = Some r'" "collected c d ch txs r" "i < length txs" "tx = txs ! i"
  shows "collected c d ch txs r'"
proof -
  obtain r1 r2 r3 where r: "fold_option (micro_input c d ch) (txins tx) r = Some r1"
    "fold_option (micro_output c ch i) (enumerate 0 (txouts tx)) r1 = Some r2"
    "micro_tx_kind n tx r2 = Some r3" "mr_inputs r' = mr_inputs r3" "mr_outputs r' = mr_outputs r3" "i < U32_MAX"
    using assms(1) by (auto simp: micro_tx_def Let_def outcome_simps split: if_splits)
  have r1: "collected c d ch txs r1"
    by (rule fold_option_inv [where P = "collected c d ch txs", OF r(1) assms(2)]) (rule micro_input_collected)
  have "collected c d ch txs r2"
  proof (rule fold_option_inv [where P = "collected c d ch txs", OF r(2) r1])
    fix x s s'
    assume "x \<in> set (enumerate 0 (txouts tx))" "collected c d ch txs s" "micro_output c ch i x s = Some s'"
    moreover obtain j o' where "x = (j, o')" by (cases x)
    ultimately show "collected c d ch txs s'"
      using micro_output_collected [of c ch i j o' s s' d txs] r(6) assms(3,4)
      by (auto simp: in_set_enumerate_eq nth_opt_def)
  qed
  then have "collected c d ch txs r3" by (rule micro_tx_kind_collected [OF r(3)])
  then show "collected c d ch txs r'" using r(4,5) by (simp add: collected_def)
qed

lemma micro_txs_collected:
  assumes "fold_option (micro_tx c d n ch) (enumerate 0 txs) r = Some r'" "collected c d ch txs r"
  shows "collected c d ch txs r'"
    "\<forall>tx \<in> set txs. \<forall>h \<in> set (txins tx). \<exists>o'. output_by_hash c d h ch = Some (Some o')"
proof -
  show r': "collected c d ch txs r'"
  proof (rule fold_option_inv [where P = "collected c d ch txs", OF assms])
    fix x s s'
    assume "x \<in> set (enumerate 0 txs)" "collected c d ch txs s" "micro_tx c d n ch x s = Some s'"
    moreover from this(1) have "fst x < length txs" "snd x = txs ! fst x" by (simp_all add: in_set_enumerate_eq)
    ultimately show "collected c d ch txs s'"
      by (metis micro_tx_collected prod.collapse)
  qed
  show "\<forall>tx \<in> set txs. \<forall>h \<in> set (txins tx). \<exists>o'. output_by_hash c d h ch = Some (Some o')"
  proof
    fix tx assume "tx \<in> set txs"
    then obtain i where i: "i < length txs" "tx = txs ! i" by (metis in_set_conv_nth)
    then have "(i, tx) \<in> set (enumerate 0 txs)" by (simp add: in_set_enumerate_eq)
    then obtain s s' where "micro_tx c d n ch (i, tx) s = Some s'" using fold_option_all [OF assms(1)] by blast
    then obtain s1 r1 where "fold_option (micro_input c d ch) (txins tx) s1 = Some r1"
      by (auto simp: micro_tx_def Let_def outcome_simps split: if_splits)
    then show "\<forall>h \<in> set (txins tx). \<exists>o'. output_by_hash c d h ch = Some (Some o')"
      using fold_option_all by (fastforce simp: micro_input_def split: if_splits option.splits)
  qed
qed

section \<open>The invariant of a chain\<close>

definition chain_inv ::
  "('g::ab_group_add, 'f) crypto \<Rightarrow> ('d, 'f) storage \<Rightarrow> ('g, 'f, 'd) Blockchain \<Rightarrow> bool" where
  "chain_inv c d ch \<longleftrightarrow>
     logs_ok ch \<and> macro_block d (bc_epoch ch - 1) ch \<noteq> None \<and>
     (\<forall>k < bc_offset ch. micro_block d (bc_epoch ch) k ch \<noteq> None) \<and>
     previous_block c d (bc_offset ch) ch =
       Some (last_block_hash ch, prev_lsn (bc_epoch ch) (bc_offset ch), last_block_timestamp ch) \<and>
     (\<forall>k \<le> bc_offset ch. \<forall>index bals. rollback_to_lsn (prev_lsn (bc_epoch ch) k) (outputs_index ch) = Some index \<longrightarrow>
        rollback_to_lsn (prev_lsn (bc_epoch ch) k) (balances ch) = Some bals \<longrightarrow>
        snapshot_ok c d ch (LSN (bc_epoch ch) k) index bals) \<and>
     (\<forall>k < bc_offset ch. \<forall>b index. micro_block d (bc_epoch ch) k ch = Some b \<longrightarrow>
        rollback_to_lsn (prev_lsn (bc_epoch ch) k) (outputs_index ch) = Some index \<longrightarrow>
        (\<forall>h \<in> set (mb_inputs b). mv_get index h \<noteq> None))"

text \<open>The maps of a chain are at the number of the last block.\<close>

lemma logs_here:
  assumes "logs_ok ch"
  shows "rollback_to_lsn (prev_lsn (bc_epoch ch) (bc_offset ch)) (outputs_index ch) = Some (outputs_index ch)"
    "rollback_to_lsn (prev_lsn (bc_epoch ch) (bc_offset ch)) (balances ch) = Some (balances ch)"
    "rollback_to_lsn (prev_lsn (bc_epoch ch) (bc_offset ch)) (block_by_hash ch) = Some (block_by_hash ch)"
    "rollback_to_lsn (prev_lsn (bc_epoch ch) (bc_offset ch)) (escrow ch) = Some (escrow ch)"
    "rollback_to_lsn (prev_lsn (bc_epoch ch) (bc_offset ch)) (epoch_activity ch) = Some (epoch_activity ch)"
proof -
  let ?l = "prev_lsn (bc_epoch ch) (bc_offset ch)" and ?L = "epoch_lsns (bc_epoch ch) (bc_offset ch)"
  have ep: "0 < bc_epoch ch" using assms by (simp add: logs_ok_def Let_def)
  have base: "prev_lsn (bc_epoch ch) 0 \<le> ?l" using prev_lsn_mono [OF ep, of 0] by simp
  have here: "rollback_to_lsn ?l m = Some m" if "mv_ok m" "ckpt_lsn m \<le> prev_lsn (bc_epoch ch) 0" "records m \<subseteq> ?L"
    for m :: "('x::linorder, 'y, LSN) MultiVersionedMap"
  proof (rule rollback_here)
    show "ckpt_lsn m \<le> ?l" using that(2) base by simp
    have "\<forall>r \<in> ?L. r \<le> ?l" using epoch_lsns_below [of "bc_offset ch" "bc_offset ch"] ep by auto
    then have "\<forall>r \<in> records m. r \<le> ?l" using that(3) by auto
    then show "current_lsn m \<le> ?l"
      using current_lsn_records [of m] that(1) \<open>ckpt_lsn m \<le> ?l\<close> by (auto simp: mv_ok_def)
  qed
  show "rollback_to_lsn ?l (outputs_index ch) = Some (outputs_index ch)" "rollback_to_lsn ?l (balances ch) = Some (balances ch)"
    "rollback_to_lsn ?l (block_by_hash ch) = Some (block_by_hash ch)" "rollback_to_lsn ?l (escrow ch) = Some (escrow ch)"
    "rollback_to_lsn ?l (epoch_activity ch) = Some (epoch_activity ch)"
    using assms by (auto simp: logs_ok_def Let_def intro!: here)
qed

lemma logs_written [simp]: "logs_ok (written d b ch) = logs_ok ch"
  by (simp add: logs_ok_def written_def)

section \<open>Registering a micro block\<close>

lemma unat_of_nat_u32: "i < U32_MAX \<Longrightarrow> unat (of_nat i :: u32) = i"
  by (simp add: unat_of_nat take_bit_nat_eq_self U32_MAX_def)

text \<open>The outputs of the block are found in it.\<close>

lemma keyed_val:
  assumes "micro_block d (bc_epoch ch) (bc_offset ch) ch' = Some b" "keyed ch (mb_transactions b) o' key"
  shows "out_val c d ch' key = cmt_val c o'" "key_lsn key = LSN (bc_epoch ch) (bc_offset ch)"
    "found c d ch' (output_digest c o') key"
  using assms by (auto simp: keyed_def out_val_def found_def unat_of_nat_u32 nth_opt_def split: if_splits)

lemma input_val:
  assumes "output_by_hash c d h ch = Some (Some i)"
  shows "\<exists>k. mv_get (outputs_index ch) h = Some k \<and> out_val c d ch k = cmt_val c i"
  using assms by (auto simp: output_by_hash_def output_by_hash_with_proof_def out_val_def split: option.splits)

lemma register_snapshot:
  fixes c :: "('g::ab_group_add, 'f::ab_group_add) crypto"
  assumes reg: "register_inputs_and_outputs c n bh ins outs gamma reward ch1 = Some ch2"
    and snap: "utxo_ok c d ch l (outputs_index ch1) (balances ch1)" "bt_inv (mv_map (outputs_index ch1))"
    and ins: "distinct (map fst ins)"
      "\<forall>(h, i) \<in> set ins. \<exists>key. mv_get (outputs_index ch1) h = Some key \<and> out_val c d ch key = cmt_val c i"
    and outs: "\<forall>(h, o', key) \<in> set outs. out_val c d ch key = cmt_val c o' \<and> key_lsn key < l' \<and> found c d ch h key"
    and l: "l \<le> l'"
  shows "snapshot_ok c d ch l' (outputs_index ch2) (balances ch2)"
proof -
  obtain index e burned index' e' created bal bals where
    s: "fold_option (register_input c n) ins (outputs_index ch1, escrow ch1, pt_inf) = Some (index, e, burned)"
    "fold_option (register_output c n (bc_epoch ch1) (stake_epochs (bc_cfg ch1))) outs (index, e, pt_inf) = Some (index', e', created)"
    "monetary_balance c reward burned created gamma = Some True" "mv_get (balances ch1) () = Some bal"
    "monetary_balance c (bal_block_reward bal + reward) (pt_add c (bal_burned bal) burned) (pt_add c (bal_created bal) created)
       (bal_gamma bal + gamma) = Some True"
    "mv_put n () \<lparr>bal_created = pt_add c (bal_created bal) created,
                           bal_burned = pt_add c (bal_burned bal) burned, bal_gamma = bal_gamma bal + gamma,
                           bal_block_reward = bal_block_reward bal + reward\<rparr> (balances ch1) = Some bals"
    "outputs_index ch2 = index'" "balances ch2 = bals"
    using reg
    by (auto simp: register_inputs_and_outputs_def balance_def outcome_simps Let_def split: option.splits if_splits)
  note new = mv_put_get [OF s(6), folded s(8)]
  obtain x y where xy: "pt_val c burned = Some x" "pt_val c created = Some y"
    using s(3) by (auto simp: monetary_balance_def pt_simps split: option.splits)
  let ?val = "out_val c d ch"
  have i: "bt_inv (mv_map index)" "set (mv_map index) \<subseteq> set (mv_map (outputs_index ch1))"
    "utxo_sum c d ch index = utxo_sum c d ch (outputs_index ch1) - x"
    using register_inputs_sum [OF s(1) snap(2) ins(1) xy(1) ins(2)] by (simp_all add: utxo_sum_def)
  have vals: "\<forall>(h, o', key) \<in> set outs. ?val key = cmt_val c o'" using outs by auto
  have o: "\<forall>(h, key) \<in> set (mv_map index'). (h, key) \<in> set (mv_map index) \<or> ?val key \<noteq> None \<and> (\<exists>o'. (h, o', key) \<in> set outs)"
    "utxo_sum c d ch index' = utxo_sum c d ch index + y"
    using register_outputs_sum [OF s(2) i(1) xy(2) vals] by (auto simp: utxo_sum_def)
  obtain created0 burned0 where b: "pt_val c (bal_created bal) = Some created0" "pt_val c (bal_burned bal) = Some burned0"
    "utxo_sum c d ch (outputs_index ch1) = created0 - burned0"
    using snap(1) s(4) by (auto simp: utxo_ok_def)
  have "\<forall>(h, key) \<in> set (mv_map index'). key_lsn key < l' \<and> ?val key \<noteq> None \<and> found c d ch h key"
  proof clarify
    fix h key assume "(h, key) \<in> set (mv_map index')"
    then consider "(h, key) \<in> set (mv_map (outputs_index ch1))" | o' where "?val key \<noteq> None" "(h, o', key) \<in> set outs"
      using o(1) i(2) by blast
    then show "key_lsn key < l' \<and> ?val key \<noteq> None \<and> found c d ch h key"
    proof cases
      case 1
      then have "key_lsn key < l" "?val key \<noteq> None" "found c d ch h key" using snap(1) by (auto simp: utxo_ok_def)
      then show ?thesis using l by auto
    qed (use outs in auto)
  qed
  moreover have "utxo_sum c d ch index' = (created0 + y) - (burned0 + x)"
    using o(2) i(3) b(3) by (simp add: algebra_simps)
  ultimately show ?thesis
    unfolding snapshot_ok_def utxo_ok_def s(7) using s(5) new b(1,2) xy by (auto simp: pt_simps)
qed

text \<open>The snapshots that earlier blocks left stay, and the new block adds one.\<close>

lemma mv_changes_rollback:
  assumes "mv_ok m" "mv_changes n m m'" "l < n" "ckpt_lsn m \<le> l"
  shows "rollback_to_lsn l m' = rollback_to_lsn l m"
  using mv_changesD(3) [OF assms(2) _ assms(4,3)] assms(1) by (simp add: mv_ok_def)

lemma block_at_micro: "k \<noteq> MACRO_BLOCK_OFFSET \<Longrightarrow> micro_block d ep k ch = Option.bind (db_get d (database ch) (block_key (LSN ep k))) unwrap_micro"
  by (simp add: micro_block_def block_at_def)

lemma offset_not_macro: "k < micro_blocks_in_epoch cfg \<Longrightarrow> k \<noteq> MACRO_BLOCK_OFFSET"
  by (metis MACRO_BLOCK_OFFSET_def linorder_not_le word_order.extremum)

lemma resolve_same: "same_base ch ch' \<Longrightarrow> database ch' = database ch \<Longrightarrow> out_val c d ch' k = out_val c d ch k"
  unfolding out_val_def
  by (subst resolve_cong [of d k ch' ch]) (simp_all add: block_at_cong same_block_def)

lemma new_snapshot:
  fixes c :: "('g::ab_group_add, 'f::ab_group_add) crypto"
  assumes reg: "register_micro_block c d (LSN (bc_epoch ch) (bc_offset ch)) b ch = Some (r, ch')"
    and snap: "snapshot_ok c d ch' (LSN (bc_epoch ch) (bc_offset ch)) (outputs_index ch) (balances ch)"
    and inv: "bt_inv (mv_map (outputs_index ch))"
    and b: "micro_block d (bc_epoch ch) (bc_offset ch) ch' = Some b" and less: "bc_offset ch < k"
  shows "snapshot_ok c d ch' (LSN (bc_epoch ch) k) (outputs_index ch') (balances ch')"
    "\<forall>h \<in> set (mb_inputs b). mv_get (outputs_index ch) h \<noteq> None"
proof -
  note E = register_micro_block_effect [OF reg]
  let ?n = "LSN (bc_epoch ch) (bc_offset ch)"
  obtain r ch1 ch2 where r: "fold_option (micro_tx c d ?n ch) (enumerate 0 (mb_transactions b))
       \<lparr>mr_inputs = [], mr_outputs = [], mr_gamma = 0, mr_block_reward = 0, mr_txs = [],
        mr_election = election_results ch\<rparr> = Some r"
    "register_inputs_and_outputs c ?n (digest c (hash_MicroBlock b)) (mr_inputs r) (mr_outputs r)
       (mr_gamma r) (mr_block_reward r) ch1 = Some ch2"
    "outputs_index ch1 = outputs_index ch" "balances ch1 = balances ch"
    "outputs_index ch' = outputs_index ch2" "balances ch' = balances ch2" "same_base ch ch1"
    using E(17) by blast
  note C = micro_txs_collected [OF r(1), unfolded collected_def, simplified]
  note val = resolve_same [OF E(2,3), of c d]
  have ins: "\<forall>(h, i) \<in> set (mr_inputs r). \<exists>key. mv_get (outputs_index ch) h = Some key \<and> out_val c d ch' key = cmt_val c i"
    using C(1) input_val [of c d _ ch] by (fastforce simp: val)
  have outs: "\<forall>(h, o', key) \<in> set (mr_outputs r). out_val c d ch' key = cmt_val c o' \<and> key_lsn key < LSN (bc_epoch ch) k \<and> found c d ch' h key"
    using C(1) keyed_val [OF b] less by fastforce
  have "distinct (map fst (mr_inputs r))"
    using C(1) strict_sorted_iff [of "map fst (mr_inputs r)"] by (simp add: bt_inv_def)
  then show "snapshot_ok c d ch' (LSN (bc_epoch ch) k) (outputs_index ch') (balances ch')"
    using register_snapshot [OF r(2), of d ch' ?n "LSN (bc_epoch ch) k"] snap [unfolded snapshot_ok_def] inv ins outs less by (simp add: r(3-6))
  show "\<forall>h \<in> set (mb_inputs b). mv_get (outputs_index ch) h \<noteq> None"
    using C(2) input_val [of c d _ ch] by (fastforce simp: mb_inputs_def)
qed

lemma chain_invD:
  assumes "chain_inv c d ch"
  shows "logs_ok ch" "0 < bc_epoch ch" "bc_offset ch \<le> micro_blocks_in_epoch (bc_cfg ch)"
    "macro_block d (bc_epoch ch - 1) ch \<noteq> None" "k < bc_offset ch \<Longrightarrow> micro_block d (bc_epoch ch) k ch \<noteq> None"
    "previous_block c d (bc_offset ch) ch =
       Some (last_block_hash ch, prev_lsn (bc_epoch ch) (bc_offset ch), last_block_timestamp ch)"
    "k \<le> bc_offset ch \<Longrightarrow> rollback_to_lsn (prev_lsn (bc_epoch ch) k) (outputs_index ch) = Some index \<Longrightarrow>
       rollback_to_lsn (prev_lsn (bc_epoch ch) k) (balances ch) = Some bals \<Longrightarrow> snapshot_ok c d ch (LSN (bc_epoch ch) k) index bals"
    "k < bc_offset ch \<Longrightarrow> micro_block d (bc_epoch ch) k ch = Some b \<Longrightarrow>
       rollback_to_lsn (prev_lsn (bc_epoch ch) k) (outputs_index ch) = Some index \<Longrightarrow>
       \<forall>h \<in> set (mb_inputs b). mv_get index h \<noteq> None"
    "snapshot_ok c d ch (LSN (bc_epoch ch) (bc_offset ch)) (outputs_index ch) (balances ch)"
proof -
  show l: "logs_ok ch" and "0 < bc_epoch ch" "bc_offset ch \<le> micro_blocks_in_epoch (bc_cfg ch)"
    using assms by (simp_all add: chain_inv_def logs_ok_def Let_def)
  show "macro_block d (bc_epoch ch - 1) ch \<noteq> None" "k < bc_offset ch \<Longrightarrow> micro_block d (bc_epoch ch) k ch \<noteq> None"
    "previous_block c d (bc_offset ch) ch =
       Some (last_block_hash ch, prev_lsn (bc_epoch ch) (bc_offset ch), last_block_timestamp ch)"
    using assms unfolding chain_inv_def by blast+
  show "k \<le> bc_offset ch \<Longrightarrow> rollback_to_lsn (prev_lsn (bc_epoch ch) k) (outputs_index ch) = Some index \<Longrightarrow>
       rollback_to_lsn (prev_lsn (bc_epoch ch) k) (balances ch) = Some bals \<Longrightarrow> snapshot_ok c d ch (LSN (bc_epoch ch) k) index bals"
    for k index bals
    using assms unfolding chain_inv_def by blast
  from this [OF order_refl logs_here(1,2) [OF l]]
  show "snapshot_ok c d ch (LSN (bc_epoch ch) (bc_offset ch)) (outputs_index ch) (balances ch)" .
  show "k < bc_offset ch \<Longrightarrow> micro_block d (bc_epoch ch) k ch = Some b \<Longrightarrow>
       rollback_to_lsn (prev_lsn (bc_epoch ch) k) (outputs_index ch) = Some index \<Longrightarrow>
       \<forall>h \<in> set (mb_inputs b). mv_get index h \<noteq> None"
    using assms unfolding chain_inv_def by blast
qed

text \<open>The maps of the chain before the block are those rolled undone to its number.\<close>

lemma maps_before:
  assumes "logs_ok ch" "maps_change (LSN (bc_epoch ch) (bc_offset ch)) ch ch'" "k \<le> bc_offset ch"
  shows "rollback_to_lsn (prev_lsn (bc_epoch ch) k) (outputs_index ch') = rollback_to_lsn (prev_lsn (bc_epoch ch) k) (outputs_index ch)"
    "rollback_to_lsn (prev_lsn (bc_epoch ch) k) (balances ch') = rollback_to_lsn (prev_lsn (bc_epoch ch) k) (balances ch)"
    "rollback_to_lsn (prev_lsn (bc_epoch ch) k) (block_by_hash ch') = rollback_to_lsn (prev_lsn (bc_epoch ch) k) (block_by_hash ch)"
    "rollback_to_lsn (prev_lsn (bc_epoch ch) k) (escrow ch') = rollback_to_lsn (prev_lsn (bc_epoch ch) k) (escrow ch)"
    "rollback_to_lsn (prev_lsn (bc_epoch ch) k) (epoch_activity ch') = rollback_to_lsn (prev_lsn (bc_epoch ch) k) (epoch_activity ch)"
proof -
  let ?l = "prev_lsn (bc_epoch ch) k" and ?base = "prev_lsn (bc_epoch ch) 0"
  have ep: "0 < bc_epoch ch" using assms(1) by (simp add: logs_ok_def Let_def)
  have l: "?l < LSN (bc_epoch ch) (bc_offset ch)"
    using prev_lsn_less [OF ep, of "bc_offset ch"] prev_lsn_mono [OF ep assms(3)] by simp
  have base: "ckpt_lsn m \<le> ?base \<Longrightarrow> ckpt_lsn m \<le> ?l" for m :: "('x::linorder, 'y, LSN) MultiVersionedMap"
    using prev_lsn_mono [OF ep, of 0 k] by simp
  note same = mv_changes_rollback [OF _ _ l base]
  have ok: "mv_ok (block_by_hash ch)" "mv_ok (outputs_index ch)" "mv_ok (balances ch)" "mv_ok (escrow ch)" "mv_ok (epoch_activity ch)"
    "ckpt_lsn (block_by_hash ch) \<le> ?base" "ckpt_lsn (outputs_index ch) \<le> ?base" "ckpt_lsn (balances ch) \<le> ?base"
    "ckpt_lsn (escrow ch) \<le> ?base" "ckpt_lsn (epoch_activity ch) \<le> ?base"
    using assms(1) by (simp_all add: logs_ok_def Let_def)
  note M = assms(2) [unfolded maps_change_def]
  show "rollback_to_lsn ?l (outputs_index ch') = rollback_to_lsn ?l (outputs_index ch)"
    "rollback_to_lsn ?l (balances ch') = rollback_to_lsn ?l (balances ch)"
    "rollback_to_lsn ?l (block_by_hash ch') = rollback_to_lsn ?l (block_by_hash ch)"
    "rollback_to_lsn ?l (escrow ch') = rollback_to_lsn ?l (escrow ch)"
    "rollback_to_lsn ?l (epoch_activity ch') = rollback_to_lsn ?l (epoch_activity ch)"
    using M by (auto intro!: same ok)
qed

lemma written_simps [simp]:
  "bc_epoch (written d b ch) = bc_epoch ch" "bc_offset (written d b ch) = bc_offset ch"
  "outputs_index (written d b ch) = outputs_index ch" "balances (written d b ch) = balances ch"
  "block_by_hash (written d b ch) = block_by_hash ch" "escrow (written d b ch) = escrow ch"
  "epoch_activity (written d b ch) = epoch_activity ch" "bc_cfg (written d b ch) = bc_cfg ch"
  "election_results (written d b ch) = election_results ch" "last_block_hash (written d b ch) = last_block_hash ch"
  "last_block_timestamp (written d b ch) = last_block_timestamp ch"
  by (simp_all add: written_def)

lemma same_base_trans: "same_base a b \<Longrightarrow> same_base b e \<Longrightarrow> same_base a e"
  by (simp add: same_base_def)

lemma previous_cong:
  assumes "same_base ch ch'" "\<And>lsn. lsn \<le> prev_lsn (bc_epoch ch) k \<Longrightarrow> same_block d lsn ch ch'"
  shows "previous_block c d k ch' = previous_block c d k ch"
  using block_at_cong [OF assms(2) [OF order_refl]] assms(1)
  by (auto simp: previous_block_def macro_block_def micro_block_def prev_lsn_def same_base_def split: if_splits)

lemma chain_push:
  fixes c :: "('g::ab_group_add, 'f::ab_group_add) crypto"
  assumes laws: "storage_laws d" and inv: "chain_inv c d ch"
    and reg: "register_micro_block c d (LSN (bc_epoch ch) (bc_offset ch)) b (written d b ch) = Some (r, ch')"
  shows "chain_inv c d ch'"
proof -
  let ?ep = "bc_epoch ch" and ?n = "bc_offset ch" and ?ch = "written d b ch"
  note I = chain_invD [OF inv]
  note E = register_micro_block_effect [OF reg]
  have n: "?n \<noteq> MACRO_BLOCK_OFFSET" "?n \<noteq> - 1" "?n + 1 \<noteq> 0"
    using offset_not_macro [of ?n "bc_cfg ch"] E(5) by (simp_all add: MACRO_BLOCK_OFFSET_def) (metis add_eq_0_iff2)
  have logs: "logs_ok ch'" using logs_register [OF _ reg [folded written_simps(1,2) [of d b ch]]] I(1) by simp
  have base: "same_base ch ch'" using E(2) by (simp add: same_base_def written_def)
  have ep: "bc_epoch ch' = ?ep" and off: "bc_offset ch' = ?n + 1" using base E(4) by (simp_all add: same_base_def)
  have same: "same_block d lsn ch ch'" if "lsn \<noteq> LSN ?ep ?n" for lsn
    using same_block_written [OF laws that, of b] E(3) base by (simp add: same_block_def)
  have older: "same_block d lsn ch ch'" if "lsn < LSN ?ep k" "k \<le> ?n" for lsn k
    using that by (intro same) auto
  have at: "micro_block d ?ep ?n ch' = Some b"
    using laws E(3) n(1) by (simp add: block_at_micro written_def storage_laws_def)
  have before: "micro_block d ?ep k ch' = micro_block d ?ep k ch" if "k < ?n" for k
    using block_at_cong [OF same, of "LSN ?ep k"] that by (auto simp: micro_block_def)
  have "macro_block d (?ep - 1) ch' = macro_block d (?ep - 1) ch"
    using block_at_cong [OF same, of "LSN (?ep - 1) MACRO_BLOCK_OFFSET"] n(1) by (auto simp: macro_block_def)
  then have macro: "macro_block d (?ep - 1) ch' \<noteq> None" using I(4) by simp
  have less: "k < ?n + 1 \<longleftrightarrow> k < ?n \<or> k = ?n" for k using word_less_add_one [OF n(2)] by (simp add: le_less)
  have ks: "k \<le> ?n + 1 \<longleftrightarrow> k \<le> ?n \<or> k = ?n + 1" for k using less by (auto simp: le_less)
  note undone = maps_before [OF _ E(1) [folded written_simps(1,2) [of d b ch]], simplified, OF I(1)]
  have snap: "snapshot_ok c d ch' (LSN ?ep k) index bals"
    if "k \<le> ?n" "rollback_to_lsn (prev_lsn ?ep k) (outputs_index ch) = Some index"
      "rollback_to_lsn (prev_lsn ?ep k) (balances ch) = Some bals" for k index bals
    using snapshot_cong [OF I(7) [OF that]] block_at_cong [OF older [OF _ that(1)]] by blast
  have "bt_inv (mv_map (outputs_index ch))" using I(1) by (simp add: logs_ok_def Let_def mv_ok_def mv_inv_def)
  note new = new_snapshot [OF reg [folded written_simps(1,2) [of d b ch]], simplified,
      OF snap [OF order_refl logs_here(1,2) [OF I(1)]] this at, of "?n + 1"]
  have new: "snapshot_ok c d ch' (LSN ?ep (?n + 1)) (outputs_index ch') (balances ch')" "\<forall>h \<in> set (mb_inputs b). mv_get (outputs_index ch) h \<noteq> None"
    using new less by auto
  have here: "rollback_to_lsn (prev_lsn ?ep (?n + 1)) (outputs_index ch') = Some (outputs_index ch')"
    "rollback_to_lsn (prev_lsn ?ep (?n + 1)) (balances ch') = Some (balances ch')"
    using logs_here(1,2) [OF logs] by (simp_all add: ep off)
  show ?thesis
    unfolding chain_inv_def ep off
  proof (intro conjI allI impI)
    show "previous_block c d (?n + 1) ch' = Some (last_block_hash ch', prev_lsn ?ep (?n + 1), last_block_timestamp ch')"
      using at E(9,10) n(3) by (simp add: previous_block_def ep)
    show "micro_block d ?ep k ch' \<noteq> None" if "k < ?n + 1" for k
      using that at before I(5) by (auto simp: less)
    show "snapshot_ok c d ch' (LSN ?ep k) index bals"
      if "k \<le> ?n + 1" "rollback_to_lsn (prev_lsn ?ep k) (outputs_index ch') = Some index"
        "rollback_to_lsn (prev_lsn ?ep k) (balances ch') = Some bals" for k index bals
      using that snap undone new(1) here unfolding ks by auto
    show "\<forall>h \<in> set (mb_inputs x). mv_get index h \<noteq> None"
      if "k < ?n + 1" "micro_block d ?ep k ch' = Some x" "rollback_to_lsn (prev_lsn ?ep k) (outputs_index ch') = Some index"
      for k x index
    proof (cases "k = ?n")
      case True
      then have "x = b" "index = outputs_index ch" using that at undone(1) logs_here(1) [OF I(1)] by auto
      then show ?thesis using new(2) by simp
    next
      case False
      then show ?thesis using that less before undone(1) [of k] I(8) [of k x index] by auto
    qed
  qed (rule logs macro)+
qed

section \<open>View changes\<close>

text \<open>What does not touch the blocks, the outputs and the balances.\<close>

lemma chain_inv_cong:
  assumes inv: "chain_inv c d ch" and logs: "logs_ok ch'" and base: "same_base ch ch'"
    and same: "\<And>lsn. lsn < LSN (bc_epoch ch) (bc_offset ch) \<Longrightarrow> same_block d lsn ch ch'"
    and eq: "outputs_index ch' = outputs_index ch" "balances ch' = balances ch" "bc_offset ch' = bc_offset ch"
    "last_block_hash ch' = last_block_hash ch" "last_block_timestamp ch' = last_block_timestamp ch"
  shows "chain_inv c d ch'"
proof -
  note I = chain_invD [OF inv]
  have ep: "bc_epoch ch' = bc_epoch ch" using base by (simp add: same_base_def)
  have less: "prev_lsn (bc_epoch ch) k < LSN (bc_epoch ch) (bc_offset ch)" if "k \<le> bc_offset ch" for k
    using prev_lsn_less [OF I(2), of k] prev_lsn_mono [OF I(2) that] prev_lsn_less [OF I(2), of "bc_offset ch"] by simp
  have micro: "micro_block d (bc_epoch ch) k ch' = micro_block d (bc_epoch ch) k ch" if "k < bc_offset ch" for k
    using block_at_cong [OF same, of "LSN (bc_epoch ch) k"] that by (simp add: micro_block_def)
  have macro: "macro_block d (bc_epoch ch - 1) ch' = macro_block d (bc_epoch ch - 1) ch"
    using block_at_cong [OF same, of "LSN (bc_epoch ch - 1) MACRO_BLOCK_OFFSET"] word_minus_one_less [OF I(2)]
    by (simp add: macro_block_def)
  have prev: "previous_block c d (bc_offset ch) ch' = previous_block c d (bc_offset ch) ch"
    by (rule previous_cong [OF base same]) (use less [of "bc_offset ch"] in auto)
  have snap: "snapshot_ok c d ch' (LSN (bc_epoch ch) k) index bals"
    if "snapshot_ok c d ch (LSN (bc_epoch ch) k) index bals" "k \<le> bc_offset ch" for k index bals
    by (rule snapshot_cong [OF that(1)], rule block_at_cong [OF same]) (use that(2) in \<open>auto intro: less_le_trans\<close>)
  show ?thesis
    unfolding chain_inv_def ep eq
    using logs macro I(4) prev I(5,6) micro snap I(7,8) by auto
qed

lemma view_effect:
  assumes "set_view_change vc p ch = Some ch' \<or> reset_view_change ch = Some ch'"
  obtains er m q where "mv_put (LSN (bc_epoch ch) (bc_offset ch)) () er (election_results ch) = Some m"
    "ch' = ch\<lparr>election_results := m, bc_view_change_proof := q\<rparr>"
  using assms by (auto simp: set_view_change_def reset_view_change_def outcome_simps split: if_splits)

lemma chain_view:
  assumes "chain_inv c d ch" "set_view_change vc p ch = Some ch' \<or> reset_view_change ch = Some ch'"
  shows "chain_inv c d ch'"
proof -
  obtain er m q where m: "mv_put (LSN (bc_epoch ch) (bc_offset ch)) () er (election_results ch) = Some m"
    "ch' = ch\<lparr>election_results := m, bc_view_change_proof := q\<rparr>"
    by (rule view_effect [OF assms(2)])
  show ?thesis
    by (rule chain_inv_cong [OF assms(1)])
      (use logs_view [OF chain_invD(1) [OF assms(1)] m(1)] in \<open>simp_all add: m(2) same_base_def same_block_def\<close>)
qed

text \<open>The election result can always be written under the number of the next block.\<close>

lemma view_total:
  assumes "logs_ok ch"
  shows "\<exists>er m. election_result ch = Some er \<and>
    mv_put (LSN (bc_epoch ch) (bc_offset ch)) () x (election_results ch) = Some m"
proof -
  let ?n = "LSN (bc_epoch ch) (bc_offset ch)" and ?m = "election_results ch"
  have L: "0 < bc_epoch ch" "mv_ok ?m" "full ?m" "ckpt_lsn ?m = prev_lsn (bc_epoch ch) 0"
    "records ?m \<subseteq> insert ?n (epoch_lsns (bc_epoch ch) (bc_offset ch))"
    using assms by (simp_all add: logs_ok_def Let_def)
  have ckpt: "ckpt_lsn ?m \<le> ?n"
    using prev_lsn_less [OF L(1), of "bc_offset ch"] prev_lsn_mono [OF L(1), of 0 "bc_offset ch"] L(4) by simp
  have "\<forall>r \<in> records ?m. r \<le> ?n" using L(5) by (auto simp: epoch_lsns_def)
  then have le: "current_lsn ?m \<le> ?n"
    using ckpt current_lsn_records [of ?m] L(2) by (auto simp: mv_ok_def)
  then have "mv_get ?m () \<noteq> None"
    using L(3) rollback_here [OF _ ckpt] by (auto simp: full_def)
  moreover have "mv_put ?n () x ?m \<noteq> None"
    using le by (auto simp: mv_put_def mv_insert_def Let_def bt_insert_def split: option.split)
  ultimately show ?thesis by (auto simp: election_result_def)
qed

lemma reset_total: "logs_ok ch \<Longrightarrow> \<exists>ch'. reset_view_change ch = Some ch'"
  using view_total [of ch "(the (election_result ch))\<lparr>er_view_change := 0\<rparr>"] by (auto simp: reset_view_change_def)

section \<open>Reverting the last micro block\<close>

text \<open>The state after the maps are rolled back, before the view is reset.\<close>

lemma chain_undo:
  fixes c :: "('g::ab_group_add, 'f::ab_group_add) crypto"
  assumes laws: "storage_laws d" and inv: "chain_inv c d ch" and k: "bc_offset ch = k + 1" "k < bc_offset ch"
    and prev: "previous_block c d k ch = Some (h, prev_lsn (bc_epoch ch) k, ts)"
    and ch1: "rollback_maps (prev_lsn (bc_epoch ch) k)
      (ch\<lparr>database := db_delete d (block_key (LSN (bc_epoch ch) k)) (database ch)\<rparr>) = Some ch1"
  shows "chain_inv c d (ch1\<lparr>bc_offset := k, last_block_hash := h, last_block_timestamp := ts\<rparr>)"
proof -
  let ?ep = "bc_epoch ch" and ?del = "ch\<lparr>database := db_delete d (block_key (LSN (bc_epoch ch) k)) (database ch)\<rparr>"
  let ?ch = "ch1\<lparr>bc_offset := k, last_block_hash := h, last_block_timestamp := ts\<rparr>"
  note I = chain_invD [OF inv]
  have "logs_ok ?del" using I(1) by (simp add: logs_ok_def)
  from rollback_maps_ok [OF this, of k] ch1 k(2)
  have R: "logs_ok (ch1\<lparr>bc_offset := k\<rparr>)"
    "rollback_to_lsn (prev_lsn ?ep k) (outputs_index ch) = Some (outputs_index ch1)"
    "rollback_to_lsn (prev_lsn ?ep k) (balances ch) = Some (balances ch1)"
    "same_base ch ch1" "database ch1 = database ?del"
    by (auto simp: same_base_def)
  have logs: "logs_ok ?ch" using R(1) by (simp add: logs_ok_def)
  have base: "same_base ch ?ch" and ep: "bc_epoch ch1 = ?ep" using R(4) by (simp_all add: same_base_def)
  have same: "same_block d lsn ch ?ch" if "lsn < LSN ?ep k" for lsn
    using that laws R(5) base by (auto simp: same_block_def storage_laws_def)
  have older: "same_block d lsn ch ?ch" if "lsn < LSN ?ep j" "j \<le> k" for lsn j
    using that by (intro same) (auto intro: less_le_trans)
  have micro: "micro_block d ?ep j ?ch = micro_block d ?ep j ch" if "j < k" for j
    using block_at_cong [OF same, of "LSN ?ep j"] that by (simp add: micro_block_def)
  have macro: "macro_block d (?ep - 1) ?ch = macro_block d (?ep - 1) ch"
    using block_at_cong [OF same, of "LSN (?ep - 1) MACRO_BLOCK_OFFSET"] word_minus_one_less [OF I(2)]
    by (simp add: macro_block_def)
  have "previous_block c d k ?ch = previous_block c d k ch"
    by (rule previous_cong [OF base same]) (use prev_lsn_less [OF I(2), of k] in auto)
  then have last: "previous_block c d k ?ch = Some (h, prev_lsn ?ep k, ts)" using prev by simp
  have mv: "mv_inv (outputs_index ch)" "mv_inv (balances ch)"
    using I(1) by (simp_all add: logs_ok_def Let_def mv_ok_def)
  have rb: "rollback_to_lsn (prev_lsn ?ep j) (outputs_index ch1) = rollback_to_lsn (prev_lsn ?ep j) (outputs_index ch)"
    "rollback_to_lsn (prev_lsn ?ep j) (balances ch1) = rollback_to_lsn (prev_lsn ?ep j) (balances ch)" if "j \<le> k" for j
    using rollbackD(6) [OF R(2) mv(1)] rollbackD(6) [OF R(3) mv(2)] prev_lsn_mono [OF I(2) that] by auto
  show ?thesis
    unfolding chain_inv_def
  proof (intro conjI allI impI)
    show "logs_ok ?ch" by (rule logs)
    show "macro_block d (bc_epoch ?ch - 1) ?ch \<noteq> None" using macro I(4) ep by simp
    show "micro_block d (bc_epoch ?ch) j ?ch \<noteq> None" if "j < bc_offset ?ch" for j
      using that micro I(5) k(2) ep by simp
    show "previous_block c d (bc_offset ?ch) ?ch = Some (last_block_hash ?ch, prev_lsn (bc_epoch ?ch) (bc_offset ?ch), last_block_timestamp ?ch)"
      using last ep by simp
    show "snapshot_ok c d ?ch (LSN (bc_epoch ?ch) j) index bals" if "j \<le> bc_offset ?ch"
      "rollback_to_lsn (prev_lsn (bc_epoch ?ch) j) (outputs_index ?ch) = Some index"
      "rollback_to_lsn (prev_lsn (bc_epoch ?ch) j) (balances ?ch) = Some bals" for j index bals
    proof -
      have j: "j \<le> k" "j \<le> bc_offset ch" using that(1) k(2) by simp_all
      have "snapshot_ok c d ch (LSN ?ep j) index bals" using that(2,3) by (intro I(7) [OF j(2)]) (simp_all add: rb [OF j(1)] ep)
      then have "snapshot_ok c d ?ch (LSN ?ep j) index bals"
        using block_at_cong [OF older [OF _ j(1)]] by (rule snapshot_cong)
      then show ?thesis using ep by simp
    qed
    show "\<forall>h \<in> set (mb_inputs x). mv_get index h \<noteq> None" if "j < bc_offset ?ch" "micro_block d (bc_epoch ?ch) j ?ch = Some x"
      "rollback_to_lsn (prev_lsn (bc_epoch ?ch) j) (outputs_index ?ch) = Some index" for j x index
      by (rule I(8) [of j]) (use that micro rb k(2) ep in auto)
  qed
qed

lemma previous_total:
  assumes "chain_inv c d ch" "k < bc_offset ch"
  shows "\<exists>h ts. previous_block c d k ch = Some (h, prev_lsn (bc_epoch ch) k, ts)"
proof (cases "k = 0")
  case True
  then show ?thesis using chain_invD(4) [OF assms(1)] by (auto simp: previous_block_def)
next
  case False
  then have "k - 1 < bc_offset ch" using word_minus_one_less [of k] assms(2) by (auto simp: word_neq_0_conv)
  then show ?thesis using False chain_invD(5) [OF assms(1)] by (auto simp: previous_block_def)
qed

lemma recover_total:
  assumes "utxo_ok c d ch l (outputs_index ch) (balances ch)" "\<forall>h \<in> set hs. mv_get (outputs_index ch) h \<noteq> None"
  shows "\<exists>x. fold_option (recover_input c d ch) hs acc = Some x"
  using assms(2)
proof (induction hs arbitrary: acc)
  case (Cons h hs)
  then obtain key where key: "mv_get (outputs_index ch) h = Some key" by auto
  then have "(h, key) \<in> set (mv_map (outputs_index ch))" by (auto simp: mv_get_def dest: map_of_SomeD)
  then have "out_val c d ch key \<noteq> None" using assms(1) by (auto simp: utxo_ok_def)
  then obtain i where "output_by_hash c d h ch = Some (Some i)"
    using key by (auto simp: out_val_def output_by_hash_def output_by_hash_with_proof_def split: option.splits)
  then show ?case using Cons by (simp add: recover_input_def)
qed simp

lemma chain_pop:
  fixes c :: "('g::ab_group_add, 'f::ab_group_add) crypto" and ch :: "('g, 'f, 'd) Blockchain"
  assumes laws: "storage_laws d" and inv: "chain_inv c d ch" and k: "bc_offset ch = k + 1" "k < bc_offset ch"
  obtains b h ts recovered ch' where "pop_micro_block c d ch =
      Some ((map (output_digest c) (mb_outputs b), recovered, filter is_user_tx (mb_transactions b), b), ch')"
    "micro_block d (bc_epoch ch) k ch = Some b"
    "previous_block c d k ch = Some (h, prev_lsn (bc_epoch ch) k, ts)"
    "chain_inv c d ch'" "same_base ch ch'"
    "database ch' = db_delete d (block_key (LSN (bc_epoch ch) k)) (database ch)"
    "rollback_to_lsn (prev_lsn (bc_epoch ch) k) (outputs_index ch) = Some (outputs_index ch')"
    "rollback_to_lsn (prev_lsn (bc_epoch ch) k) (balances ch) = Some (balances ch')"
    "rollback_to_lsn (prev_lsn (bc_epoch ch) k) (block_by_hash ch) = Some (block_by_hash ch')"
    "rollback_to_lsn (prev_lsn (bc_epoch ch) k) (escrow ch) = Some (escrow ch')"
    "rollback_to_lsn (prev_lsn (bc_epoch ch) k) (epoch_activity ch) = Some (epoch_activity ch')"
    "bc_offset ch' = k" "last_block_hash ch' = h" "last_block_timestamp ch' = ts"
    "bc_view_change_proof ch' = None"
    "election_result ch' = map_option (\<lambda>er. er\<lparr>er_view_change := 0\<rparr>) (election_result_by_offset k ch)"
proof -
  let ?ep = "bc_epoch ch" and ?del = "ch\<lparr>database := db_delete d (block_key (LSN (bc_epoch ch) k)) (database ch)\<rparr>"
  note I = chain_invD [OF inv]
  obtain b where b: "micro_block d ?ep k ch = Some b" using I(5) k(2) by blast
  obtain h ts where prev: "previous_block c d k ch = Some (h, prev_lsn ?ep k, ts)" using previous_total [OF inv k(2)] by blast
  have "logs_ok ?del" using I(1) by (simp add: logs_ok_def)
  from rollback_maps_ok [OF this, of k] k(2)
  obtain ch1 where R: "rollback_maps (prev_lsn ?ep k) ?del = Some ch1"
    "rollback_to_lsn (prev_lsn ?ep k) (outputs_index ch) = Some (outputs_index ch1)"
    "rollback_to_lsn (prev_lsn ?ep k) (balances ch) = Some (balances ch1)"
    "rollback_to_lsn (prev_lsn ?ep k) (block_by_hash ch) = Some (block_by_hash ch1)"
    "rollback_to_lsn (prev_lsn ?ep k) (escrow ch) = Some (escrow ch1)"
    "rollback_to_lsn (prev_lsn ?ep k) (epoch_activity ch) = Some (epoch_activity ch1)"
    "rollback_to_lsn (prev_lsn ?ep k) (election_results ch) = Some (election_results ch1)"
    "same_base ?del ch1" "database ch1 = database ?del"
    by auto
  let ?ch = "ch1\<lparr>bc_offset := k, last_block_hash := h, last_block_timestamp := ts\<rparr>"
  have inv1: "chain_inv c d ?ch" by (rule chain_undo [OF laws inv k prev R(1)])
  obtain ch' where r: "reset_view_change ?ch = Some ch'" using reset_total chain_invD(1) [OF inv1] by blast
  then obtain er m where m: "election_result ch1 = Some er" "mv_put (LSN (bc_epoch ch1) k) () (er\<lparr>er_view_change := 0\<rparr>) (election_results ch1) = Some m"
    "ch' = ?ch\<lparr>election_results := m, bc_view_change_proof := None\<rparr>"
    by (auto simp: reset_view_change_def outcome_simps election_result_def)
  have inv': "chain_inv c d ch'" by (rule chain_view [OF inv1]) (use r in blast)
  have eq: "outputs_index ch' = outputs_index ch1" "balances ch' = balances ch1" "bc_offset ch' = k" by (simp_all add: m(3))
  have "\<forall>h \<in> set (mb_inputs b). mv_get (outputs_index ch') h \<noteq> None"
    unfolding eq by (rule I(8) [OF k(2) b R(2)])
  from recover_total [OF chain_invD(9) [OF inv', unfolded snapshot_ok_def, THEN conjunct1] this]
  obtain recovered where rec: "fold_option (recover_input c d ch') (mb_inputs b) [] = Some recovered" by blast
  have nz: "k + 1 \<noteq> 0" using k(2) unfolding k(1) by (metis word_not_simps(1))
  have pop: "pop_micro_block c d ch =
      Some ((map (output_digest c) (mb_outputs b), recovered, filter is_user_tx (mb_transactions b), b), ch')"
    using I(2) k(2) nz b prev R(1) r rec unfolding pop_micro_block_def k(1) by (simp add: word_gt_0)
  have er: "election_result ch' = map_option (\<lambda>er. er\<lparr>er_view_change := 0\<rparr>) (election_result_by_offset k ch)"
    using I(2) k(2) R(7) m(1) mv_put_get [OF m(2)] rollbackD(5) [OF R(7)] I(1)
    by (simp add: election_result_by_offset_def election_result_def m(3) logs_ok_def Let_def mv_ok_def)
  show thesis
    by (rule that [OF pop b prev inv' _ _ _ _ _ _ _ _ _ _ _ er]) (use R in \<open>simp_all add: m(3) same_base_def\<close>)
qed

end
