(* ===== verification/Macro.thy ===== *)
theory Macro
  imports Chain Validation
begin

text \<open>
  The epochs of the chain, \<open>blockchain/src/blockchain.rs\<close>: the awards at the end of an epoch,
  making the macro block that replaces the micro blocks of the epoch, registering it, and the
  state of a new chain. The random values of the code (the blinding factor and the keys of the
  reward output, the serial number of the award output) are arguments. The snapshots of the
  indexes that \<open>register_macro_block\<close> writes for the fast recovery, and the information about
  the epoch, go to other column families of the database and are not modelled.
\<close>

section \<open>Service awards of an epoch\<close>

text \<open>The activity of the current validators; slashed ones have left the list.\<close>

definition current_activity ::
  "StakersGroup \<Rightarrow> ('g, 'f, 'd) Blockchain \<Rightarrow> (pbc_pkey, ValidatorAwardState) btree" where
  "current_activity vs ch =
     fold (\<lambda>(k, _). bt_put k (case mv_get (epoch_activity ch) k of Some s \<Rightarrow> s | None \<Rightarrow> Active)) vs []"

text \<open>\<open>None\<close> is a panic, as for a validator without an account.\<close>

fun validators_accounts ::
  "Escrow \<Rightarrow> (pbc_pkey \<times> ValidatorAwardState) list \<Rightarrow> (b32 \<times> ValidatorAwardState) list option" where
  "validators_accounts e [] = Some []"
| "validators_accounts e ((k, v) # rest) =
     Option.bind (account_by_network_key k e) (\<lambda>account.
       map_option (\<lambda>xs. (account, v) # xs) (validators_accounts e rest))"

definition awards_from_active_epoch ::
  "VRF \<Rightarrow> ('g, 'f, 'd) Blockchain \<Rightarrow> (bool list \<times> (b32 \<times> i64) option) option" where
  "awards_from_active_epoch random ch =
     Option.bind (validators ch) (\<lambda>current.
     let activity = current_activity current ch in
     Option.bind (validators_at_epoch_start ch) (\<lambda>start.
     let activity_map = map (\<lambda>(k, _). bt_get activity k = Some Active) start in
     Option.bind (validators_accounts (escrow ch) activity) (\<lambda>accounts.
     Option.bind (finalize_epoch (service_award_per_epoch (bc_cfg ch)) accounts (bc_awards ch)) (\<lambda>awards.
       map_option (\<lambda>(winner, _). (activity_map, winner)) (check_winners (vrf_random random) awards)))))"

text \<open>
  The activity recovered from the bitmap of a macro block: a validator without an account is
  skipped, an account fails when any of its validators did.
\<close>

definition activity_from_bit ::
  "bool list \<Rightarrow> ('g, 'f, 'd) Blockchain \<Rightarrow> nat \<times> pbc_pkey \<times> i64 \<Rightarrow> (b32, ValidatorAwardState) btree \<Rightarrow>
     (b32, ValidatorAwardState) btree" where
  "activity_from_bit activity_map ch v activity =
     (case account_by_network_key (fst (snd v)) (escrow ch) of
        None \<Rightarrow> activity
      | Some account \<Rightarrow>
          let state = (if nth_opt activity_map (fst v) = Some True then Active
                       else Failed (bc_epoch ch) (bc_offset ch))
          in case bt_get activity account of
               Some (Failed _ _) \<Rightarrow> activity
             | _ \<Rightarrow> bt_put account state activity)"

definition epoch_activity_from_macro_block ::
  "bool list \<Rightarrow> ('g, 'f, 'd) Blockchain \<Rightarrow> (BlockchainError, (b32, ValidatorAwardState) btree) outcome" where
  "epoch_activity_from_macro_block activity_map ch =
     obind (or_panic (validators_at_epoch_start ch)) (\<lambda>vs.
       if length activity_map > length vs
       then blockErr (TooBigActivitymap (length activity_map) (length vs))
       else Ok (fold (activity_from_bit activity_map ch) (enumerate 0 vs) []))"

definition epoch_reward :: "ChainConfig \<Rightarrow> (b32 \<times> i64) option \<Rightarrow> i64" where
  "epoch_reward cfg winner =
     cfg_block_reward cfg * (ucast (micro_blocks_in_epoch cfg) + 1)
     + (case winner of Some (_, a) \<Rightarrow> a | None \<Rightarrow> 0)"

section \<open>Making a macro block\<close>

definition blocks_starting ::
  "('d, 'f) storage \<Rightarrow> u64 \<Rightarrow> u32 \<Rightarrow> ('g, 'f, 'd) Blockchain \<Rightarrow> 'f Block list" where
  "blocks_starting d epoch offset ch = db_from d (database ch) (block_key (LSN epoch offset))"

text \<open>The transactions of the epoch; a macro block among its blocks makes the loop panic.\<close>

fun epoch_transactions :: "'f Block list \<Rightarrow> 'f Transaction list option" where
  "epoch_transactions [] = Some []"
| "epoch_transactions (MicroBlock b # bs) = map_option (append (mb_transactions b)) (epoch_transactions bs)"
| "epoch_transactions (MacroBlock _ # bs) = None"

definition create_macro_block ::
  "('g::ab_group_add, 'f::comm_ring_1) crypto \<Rightarrow> ('d, 'f) storage \<Rightarrow> bytes \<Rightarrow> 'f \<Rightarrow> 'f \<Rightarrow> i64 \<Rightarrow> u32 \<Rightarrow>
     'g Pt \<Rightarrow> pbc_skey \<Rightarrow> pbc_pkey \<Rightarrow> Timestamp \<Rightarrow> ('g, 'f, 'd) Blockchain \<Rightarrow>
     ('f MacroBlock \<times> 'f Transaction list) option" where
  "create_macro_block c d UNIQ rnd blinding serno vc beneficiary_pkey skey pkey timestamp ch =
     (if \<not> is_epoch_full ch then None
      else
        let random = make_VRF c skey (mix c (last_macro_block_random ch) vc);
            block_reward = cfg_block_reward (bc_cfg ch)
        in
          Option.bind (with_payload c UNIQ rnd blinding None beneficiary_pkey block_reward
            (Comment (str_bytes ''Block reward''))) (\<lambda>(output, gamma, _).
          let coinbase_tx = CoinbaseTransaction \<lparr>cb_block_reward = block_reward, cb_block_fee = 0,
                cb_gamma = - gamma, cb_txouts = [PaymentOutput output]\<rparr>
          in
            Option.bind (awards_from_active_epoch random ch) (\<lambda>(activity_map, winner).
            let award_txs = (case winner of
                  Some (k, reward) \<Rightarrow>
                    [ServiceAwardTransaction \<lparr>winner_reward = [PublicPaymentOutput
                       \<lparr>pp_recipient = k, pp_serno = serno, pp_amount = reward\<rparr>]\<rparr>]
                | None \<Rightarrow> []);
                extra_transactions = coinbase_tx # award_txs;
                blocks = take (unat (micro_blocks_in_epoch (bc_cfg ch))) (blocks_starting d (bc_epoch ch) 0 ch)
            in
              Option.bind (epoch_transactions blocks) (\<lambda>transactions.
              Option.bind (next_election_result c random ch) (\<lambda>er.
                case from_transactions c (last_macro_block_hash ch) (bc_epoch ch) vc pkey random
                       (bc_difficulty ch) timestamp (epoch_reward (bc_cfg ch) winner) activity_map
                       (er_validators er) (extra_transactions @ transactions) of
                  Ok b \<Rightarrow> Some (b, extra_transactions)
                | _ \<Rightarrow> None)))))"

section \<open>Registering a macro block\<close>

text \<open>
  The outputs of the block get their index keys; an input that is among them is annihilated,
  the others are resolved in the chain. \<open>None\<close> is a panic.
\<close>

definition macro_output ::
  "('g, 'f) crypto \<Rightarrow> u64 \<Rightarrow> nat \<times> Output \<Rightarrow> (hash, Output \<times> OutputKey) btree \<Rightarrow>
     (hash, Output \<times> OutputKey) btree option" where
  "macro_output c epoch o' outputs =
     (let output_hash = output_digest c (snd o')
      in if bt_get outputs output_hash \<noteq> None then None
         else Some (bt_put output_hash (snd o', OKMacroBlock epoch (of_nat (fst o'))) outputs))"

definition macro_input ::
  "('g, 'f) crypto \<Rightarrow> ('d, 'f) storage \<Rightarrow> ('g, 'f, 'd) Blockchain \<Rightarrow> hash \<Rightarrow>
     (hash, Output \<times> OutputKey) btree \<times> (hash, Output) btree \<times> (hash, Output) btree \<Rightarrow>
     ((hash, Output \<times> OutputKey) btree \<times> (hash, Output) btree \<times> (hash, Output) btree) option" where
  "macro_input c d ch input_hash st =
     (case st of (outputs, inputs, compacted) \<Rightarrow>
        case bt_get outputs input_hash of
          Some (output, _) \<Rightarrow>
            if bt_get compacted input_hash \<noteq> None then None
            else Some (bt_del input_hash outputs, inputs, bt_put input_hash output compacted)
        | None \<Rightarrow>
            (case output_by_hash c d input_hash ch of
               Some (Some input) \<Rightarrow>
                 if bt_get inputs input_hash \<noteq> None then None
                 else Some (outputs, bt_put input_hash input inputs, compacted)
             | _ \<Rightarrow> None))"

text \<open>The awards at the end of the epoch; the genesis block has none.\<close>

definition register_awards :: "'f MacroBlockHeader \<Rightarrow> ('g, 'f, 'd) Blockchain \<Rightarrow> Awards option" where
  "register_awards h ch =
     (if 0 < ah_epoch h
      then (case epoch_activity_from_macro_block (ah_activity_map h) ch of
          Ok activity \<Rightarrow>
            Option.bind (finalize_epoch (service_award_per_epoch (bc_cfg ch)) activity (bc_awards ch)) (\<lambda>awards.
            Option.bind (check_winners (vrf_random (ah_random h)) awards) (\<lambda>(winner, awards).
              if ah_block_reward h \<noteq> epoch_reward (bc_cfg ch) winner then None else Some awards))
        | _ \<Rightarrow> None)
      else Some (bc_awards ch))"

definition validators_root :: "('g, 'f) crypto \<Rightarrow> StakersGroup \<Rightarrow> hash option" where
  "validators_root c vs = root_hash_from_array (digest c) (hash_pair hash_pbc_PublicKey hash_i64) vs"

text \<open>
  The batch is the write of the block itself, which the recovery leaves out. The maps are
  checkpointed, so that nothing before the macro block can be reverted.
\<close>

definition register_macro_block ::
  "('g::group_add, 'f::{plus, zero}) crypto \<Rightarrow> ('d, 'f) storage \<Rightarrow> (bytes \<times> 'f Block) option \<Rightarrow> LSN \<Rightarrow>
     'f MacroBlock \<Rightarrow> ('g, 'f, 'd) Blockchain \<Rightarrow>
     ((hash list \<times> (hash, Output) btree) \<times> ('g, 'f, 'd) Blockchain) option" where
  "register_macro_block c d batch lsn b ch =
     (let h = ab_header b; block_hash = macro_digest c b
      in if ah_version h \<noteq> VERSION \<or> bc_epoch ch \<noteq> ah_epoch h \<or> bc_offset ch \<noteq> 0
            \<or> ah_previous h \<noteq> last_macro_block_hash ch
            \<or> \<not> last_macro_block_timestamp ch < ah_timestamp h \<or> \<not> last_block_timestamp ch < ah_timestamp h
            \<or> \<not> length (ab_inputs b) \<le> U32_MAX \<or> ah_inputs_len h \<noteq> of_nat (length (ab_inputs b))
            \<or> \<not> length (ab_outputs b) \<le> U32_MAX \<or> ah_outputs_len h \<noteq> of_nat (length (ab_outputs b))
         then None
         else
           Option.bind (fold_option (macro_output c (ah_epoch h)) (enumerate 0 (ab_outputs b)) []) (\<lambda>outputs.
           Option.bind (fold_option (macro_input c d ch) (ab_inputs b) (outputs, [], [])) (\<lambda>(outputs, inputs, compacted).
           Option.bind (register_awards h ch) (\<lambda>awards.
           Option.bind (register_inputs_and_outputs c lsn block_hash inputs outputs (ah_gamma h)
             (ah_block_reward h) (ch\<lparr>bc_awards := awards\<rparr>)) (\<lambda>ch.
           Option.bind (next_election_result c (ah_random h) ch) (\<lambda>er.
             if ah_validators_len h \<noteq> of_nat (length (er_validators er)) then None
             else Option.bind (validators_root c (er_validators er)) (\<lambda>root.
             if ah_validators_range_hash h \<noteq> root then None
             else
               Option.bind (cache_push_block (MacroBlock b) (ch\<lparr>bc_epoch := bc_epoch ch + 1\<rparr>)) (\<lambda>ch.
               Option.bind (mv_put lsn () er (election_results ch)) (\<lambda>election.
                 if (\<exists>v \<in> set (er_validators er). account_by_network_key (fst v) (escrow ch) = None) then None
                 else
                   Some ((ab_inputs b, fold (\<lambda>(h, o'). bt_put h o') compacted
                                         (map (\<lambda>(h, o', _). (h, o')) outputs)),
                     ch\<lparr>bc_offset := 0, last_block_timestamp := ah_timestamp h, last_block_hash := block_hash,
                        last_macro_block_timestamp := ah_timestamp h,
                        last_macro_block_random := vrf_random (ah_random h),
                        last_macro_block_hash := block_hash,
                        election_results := snd (checkpoint election), bc_difficulty := ah_difficulty h,
                        block_by_hash := snd (checkpoint (block_by_hash ch)),
                        outputs_index := snd (checkpoint (outputs_index ch)),
                        escrow := snd (escrow_checkpoint (escrow ch)),
                        balances := snd (checkpoint (balances ch)),
                        epoch_activity := mv_reset INITIAL_LSN (epoch_activity ch),
                        database := (case batch of
                            Some (key, data) \<Rightarrow> db_put d key data (database ch)
                          | None \<Rightarrow> database ch)\<rparr>))))))))))"

section \<open>A new chain\<close>

text \<open>The state that \<open>Blockchain::new\<close> starts from, before the genesis block is pushed.\<close>

definition blockchain_new ::
  "('g::zero, 'f::zero) crypto \<Rightarrow> ChainConfig \<Rightarrow> 'd \<Rightarrow> 'f MacroBlock \<Rightarrow> ('g, 'f, 'd) Blockchain option" where
  "blockchain_new c cfg db genesis =
     Option.bind (mv_put INITIAL_LSN ()
       \<lparr>bal_created = pt_inf, bal_burned = pt_inf, bal_gamma = 0, bal_block_reward = 0\<rparr>
       (mv_new INITIAL_LSN)) (\<lambda>bals.
     Option.bind (awards_new (awards_difficulty cfg)) (\<lambda>awards.
       Some \<lparr>bc_cfg = cfg, database = db, block_by_hash = mv_new INITIAL_LSN,
             outputs_index = mv_new INITIAL_LSN, balances = bals, escrow = escrow_new,
             bc_difficulty = ah_difficulty (ab_header genesis), bc_epoch = 0, bc_offset = 0,
             election_results = mv_new INITIAL_LSN, bc_view_change_proof = None,
             last_macro_block_timestamp = 0, last_macro_block_hash = digest c (hash_str ''genesis''),
             last_macro_block_random = digest c (hash_str ''genesis''), last_block_timestamp = 0,
             last_block_hash = digest c (hash_str ''genesis''), bc_awards = awards,
             epoch_activity = mv_new INITIAL_LSN, block_cache = []\<rparr>))"

end
