(* ===== verification/History.thy ===== *)
theory History
  imports Supply Macro "HOL-Library.List_Lexorder"
begin

text \<open>
  The life of a chain over the epochs, from the genesis block on. The cache of macro blocks
  agrees with the disk, registering a macro block keeps the invariant of the chain, and so every
  reachable chain accounts for the money it has created.
\<close>

section \<open>The cache of macro blocks\<close>

text \<open>
  Every finished epoch has its macro block on the disk, and the cache holds the last ones, in
  the order of the epochs.
\<close>

definition macro_at :: "('d, 'f) storage \<Rightarrow> ('g, 'f, 'd) Blockchain \<Rightarrow> nat \<Rightarrow> 'f Block option" where
  "macro_at d ch e = db_get d (database ch) (block_key (LSN (of_nat e) MACRO_BLOCK_OFFSET))"

definition cache_ok :: "('d, 'f) storage \<Rightarrow> ('g, 'f, 'd) Blockchain \<Rightarrow> bool" where
  "cache_ok d ch \<longleftrightarrow>
     (\<forall>e < unat (bc_epoch ch). \<exists>b. macro_at d ch e = Some (MacroBlock b) \<and> ah_epoch (ab_header b) = of_nat e) \<and>
     block_cache ch =
       map (the \<circ> macro_at d ch) [unat (bc_epoch ch) - unat (stake_epochs (bc_cfg ch) + 1)..<unat (bc_epoch ch)]"

lemma cached_block:
  assumes "cache_ok d ch" "get_block_cached e ch = Some b"
  shows "db_get d (database ch) (block_key (LSN e MACRO_BLOCK_OFFSET)) = Some b"
proof -
  let ?n = "stake_epochs (bc_cfg ch) + 1" and ?ep = "bc_epoch ch"
  define lower where "lower = (if ?n \<le> ?ep then ?ep - ?n else 0)"
  have lower: "unat lower = unat ?ep - unat ?n"
    by (auto simp: lower_def word_le_nat_alt unat_sub)
  have e: "lower \<le> e" "unat (e - lower) < length (block_cache ch)" "b = block_cache ch ! unat (e - lower)"
    using assms(2) by (auto simp: get_block_cached_def Let_def nth_opt_def lower_def split: if_splits)
  have idx: "unat (e - lower) = unat e - unat lower" using e(1) by (simp add: unat_sub word_le_nat_alt)
  then have less: "unat e < unat ?ep" and b: "b = the (macro_at d ch (unat e))"
    using e assms(1) lower by (auto simp: cache_ok_def word_le_nat_alt)
  then obtain m where "macro_at d ch (unat e) = Some m" using assms(1) by (auto simp: cache_ok_def)
  then show ?thesis using b by (simp add: macro_at_def)
qed

lemma block_at_db: "cache_ok d ch \<Longrightarrow> block_at d lsn ch = db_get d (database ch) (block_key lsn)"
  using cached_block [of d ch "lsn_epoch lsn"]
  by (cases lsn) (auto simp: block_at_def split: option.split)

lemma upt_drop: "i < j \<Longrightarrow> [i..<j] = i # [Suc i..<j]"
  by (rule upt_rec [THEN trans]) simp

lemma cache_step:
  assumes ok: "cache_ok d ch" and ep: "bc_epoch ch \<noteq> - 1" "ah_epoch (ab_header b) = bc_epoch ch"
    and push: "cache_push_block (MacroBlock b) (ch1\<lparr>bc_epoch := bc_epoch ch + 1\<rparr>) = Some ch2"
    and same: "block_cache ch1 = block_cache ch" "bc_cfg ch1 = bc_cfg ch"
    and db: "macro_at d ch' (unat (bc_epoch ch)) = Some (MacroBlock b)"
      "\<And>e. e < unat (bc_epoch ch) \<Longrightarrow> macro_at d ch' e = macro_at d ch e"
    and ch': "block_cache ch' = block_cache ch2" "bc_epoch ch' = bc_epoch ch + 1" "bc_cfg ch' = bc_cfg ch"
  shows "cache_ok d ch'"
proof -
  let ?n = "unat (stake_epochs (bc_cfg ch) + 1)" and ?e = "unat (bc_epoch ch)"
  have e: "unat (bc_epoch ch') = Suc ?e"
    using ep(1) unatSuc [of "bc_epoch ch"] by (simp add: ch'(2) add.commute) (metis add.commute add_eq_0_iff)
  have "\<exists>m. macro_at d ch' i = Some (MacroBlock m) \<and> ah_epoch (ab_header m) = of_nat i" if "i < Suc ?e" for i
    using that ok db ep(2) by (cases "i = ?e") (auto simp: cache_ok_def)
  moreover have "block_cache ch' = map (the \<circ> macro_at d ch') [Suc ?e - ?n..<Suc ?e]"
  proof -
    have cache: "block_cache ch = map (the \<circ> macro_at d ch) [?e - ?n..<?e]" using ok by (simp add: cache_ok_def)
    have old: "map (the \<circ> macro_at d ch) [j..<?e] = map (the \<circ> macro_at d ch') [j..<?e]" for j
      using db(2) by auto
    show ?thesis
    proof (cases "length (block_cache ch) = ?n")
      case True
      then have "?n \<le> ?e" by (simp add: cache)
      moreover have "?n \<noteq> 0" using push True by (auto simp: cache_push_block_def same split: list.splits if_splits)
      ultimately show ?thesis
        using push True db(1) upt_drop [of "?e - ?n" ?e]
        by (auto simp: cache_push_block_def same ch' cache old Suc_diff_le split: list.splits if_splits)
    next
      case False
      then have "?e < ?n" by (simp add: cache)
      then show ?thesis
        using push False db(1) by (auto simp: cache_push_block_def same ch' cache old)
    qed
  qed
  ultimately show ?thesis by (simp add: cache_ok_def e ch'(3))
qed

section \<open>Registering a macro block\<close>

text \<open>What a chain needs for a macro block to be registered: it holds at the end of an epoch and
  for a new chain.\<close>

definition macro_ready ::
  "('g::ab_group_add, 'f) crypto \<Rightarrow> ('d, 'f) storage \<Rightarrow> ('g, 'f, 'd) Blockchain \<Rightarrow> bool" where
  "macro_ready c d ch \<longleftrightarrow>
     mv_inv (block_by_hash ch) \<and> mv_inv (outputs_index ch) \<and> mv_inv (balances ch) \<and> mv_inv (escrow ch) \<and>
     mv_inv (election_results ch) \<and>
     (let l = LSN (bc_epoch ch) MACRO_BLOCK_OFFSET
      in current_lsn (outputs_index ch) \<le> l \<and> current_lsn (escrow ch) \<le> l \<and>
         utxo_ok c d ch l (outputs_index ch) (balances ch)) \<and> cache_ok d ch"

definition macro_collected ::
  "('g, 'f) crypto \<Rightarrow> ('d, 'f) storage \<Rightarrow> ('g, 'f, 'd) Blockchain \<Rightarrow> 'f MacroBlock \<Rightarrow>
     (hash, Output \<times> OutputKey) btree \<Rightarrow> (hash, Output) btree \<Rightarrow> bool" where
  "macro_collected c d ch b outs ins \<longleftrightarrow>
     bt_inv outs \<and> bt_inv ins \<and> (\<forall>(h, i) \<in> set ins. output_by_hash c d h ch = Some (Some i)) \<and>
     (\<forall>(h, o', key) \<in> set outs. output_digest c o' = h \<and>
        (\<exists>j. key = OKMacroBlock (ah_epoch (ab_header b)) (of_nat j) \<and> j < U32_MAX \<and>
             nth_opt (ab_outputs b) j = Some o'))"

lemma macro_outputs_collected:
  assumes "fold_option (macro_output c (ah_epoch (ab_header b))) (enumerate 0 (ab_outputs b)) [] = Some outs"
    "length (ab_outputs b) \<le> U32_MAX"
  shows "macro_collected c d ch b outs []"
proof (rule fold_option_inv [where P = "\<lambda>outs. macro_collected c d ch b outs []", OF assms(1)])
  fix x s s'
  assume x: "x \<in> set (enumerate 0 (ab_outputs b))" "macro_collected c d ch b s []"
    "macro_output c (ah_epoch (ab_header b)) x s = Some s'"
  obtain j o' where jo: "x = (j, o')" by (cases x)
  then have j: "j < U32_MAX" "nth_opt (ab_outputs b) j = Some o'"
    using x(1) assms(2) by (auto simp: in_set_enumerate_eq nth_opt_def)
  let ?v = "(o', OKMacroBlock (ah_epoch (ab_header b)) (of_nat j))"
  have "s' = bt_put (output_digest c o') ?v s"
    using x(3) by (auto simp: macro_output_def jo Let_def split: if_splits)
  then show "macro_collected c d ch b s' []"
    using x(2) j bt_put_subset [of "output_digest c o'" ?v s] by (fastforce simp: macro_collected_def)
qed (simp add: macro_collected_def)

lemma macro_inputs_collected:
  assumes "fold_option (macro_input c d ch) hs (outs0, [], []) = Some (outs, ins, kept)"
    "macro_collected c d ch b outs0 []"
  shows "macro_collected c d ch b outs ins"
proof -
  have "case (outs, ins, kept) of (outs, ins, _) \<Rightarrow> macro_collected c d ch b outs ins"
  proof (rule fold_option_inv [where P = "\<lambda>(outs, ins, _). macro_collected c d ch b outs ins", OF assms(1)])
    fix h s s'
    assume s: "case s of (outs, ins, _) \<Rightarrow> macro_collected c d ch b outs ins" "macro_input c d ch h s = Some s'"
    obtain outs ins kept where o: "s = (outs, ins, kept)" by (cases s)
    show "case s' of (outs, ins, _) \<Rightarrow> macro_collected c d ch b outs ins"
    proof (cases "bt_get outs h")
      case None
      then obtain i where i: "output_by_hash c d h ch = Some (Some i)" "s' = (outs, bt_put h i ins, kept)"
        using s(2) by (auto simp: macro_input_def o split: option.splits if_splits)
      then show ?thesis
        using s(1) bt_put_subset [of h i ins] by (fastforce simp: o macro_collected_def)
    next
      case (Some v)
      then have "\<exists>kept'. s' = (bt_del h outs, ins, kept')"
        using s(2) by (auto simp: macro_input_def o split: option.splits if_splits prod.splits)
      then show ?thesis
        using s(1) bt_del_subset [of h outs] by (fastforce simp: o macro_collected_def)
    qed
  qed (use assms(2) in simp)
  then show ?thesis by simp
qed

text \<open>The effect of \<open>register_macro_block\<close>.\<close>

lemma register_macro_blockD:
  assumes "register_macro_block c d batch n b ch = Some (r, ch')"
  obtains outs ins aw ch1 ch2 er where
    "macro_collected c d ch b outs ins"
    "register_inputs_and_outputs c n (macro_digest c b) ins outs (ah_gamma (ab_header b))
       (ah_block_reward (ab_header b)) (ch\<lparr>bc_awards := aw\<rparr>) = Some ch1"
    "cache_push_block (MacroBlock b) (ch1\<lparr>bc_epoch := bc_epoch ch1 + 1\<rparr>) = Some ch2"
    "mv_put n () er (election_results ch1) \<noteq> None"
    "election_results ch' = snd (checkpoint (the (mv_put n () er (election_results ch1))))"
    "block_by_hash ch' = snd (checkpoint (block_by_hash ch1))" "outputs_index ch' = snd (checkpoint (outputs_index ch1))"
    "escrow ch' = snd (checkpoint (escrow ch1))" "balances ch' = snd (checkpoint (balances ch1))"
    "epoch_activity ch' = mv_new INITIAL_LSN"
    "database ch' = (case batch of Some (key, data) \<Rightarrow> db_put d key data (database ch) | None \<Rightarrow> database ch)"
    "bc_epoch ch' = bc_epoch ch + 1" "bc_offset ch' = 0" "bc_offset ch = 0" "ah_epoch (ab_header b) = bc_epoch ch"
    "bc_cfg ch' = bc_cfg ch" "block_cache ch' = block_cache ch2" "bc_epoch ch1 = bc_epoch ch"
    "last_block_hash ch' = macro_digest c b" "last_block_timestamp ch' = ah_timestamp (ab_header b)"
    "same_base (ch\<lparr>bc_awards := aw\<rparr>) ch1"
proof -
  obtain outs0 outs ins kept aw ch1 er ch2 election where s:
    "length (ab_outputs b) \<le> U32_MAX" "bc_offset ch = 0" "ah_epoch (ab_header b) = bc_epoch ch"
    "fold_option (macro_output c (ah_epoch (ab_header b))) (enumerate 0 (ab_outputs b)) [] = Some outs0"
    "fold_option (macro_input c d ch) (ab_inputs b) (outs0, [], []) = Some (outs, ins, kept)"
    "register_inputs_and_outputs c n (macro_digest c b) ins outs (ah_gamma (ab_header b))
       (ah_block_reward (ab_header b)) (ch\<lparr>bc_awards := aw\<rparr>) = Some ch1"
    "cache_push_block (MacroBlock b) (ch1\<lparr>bc_epoch := bc_epoch ch1 + 1\<rparr>) = Some ch2"
    "mv_put n () er (election_results ch2) = Some election"
    "ch' = ch2\<lparr>bc_offset := 0, last_block_timestamp := ah_timestamp (ab_header b), last_block_hash := macro_digest c b,
                        last_macro_block_timestamp := ah_timestamp (ab_header b),
                        last_macro_block_random := vrf_random (ah_random (ab_header b)),
                        last_macro_block_hash := macro_digest c b,
                        election_results := snd (checkpoint election), bc_difficulty := ah_difficulty (ab_header b),
                        block_by_hash := snd (checkpoint (block_by_hash ch2)),
                        outputs_index := snd (checkpoint (outputs_index ch2)),
                        escrow := snd (escrow_checkpoint (escrow ch2)),
                        balances := snd (checkpoint (balances ch2)),
                        epoch_activity := mv_reset INITIAL_LSN (epoch_activity ch2),
                        database := (case batch of
                            Some (key, data) \<Rightarrow> db_put d key data (database ch2)
                          | None \<Rightarrow> database ch2)\<rparr>"
    using assms unfolding register_macro_block_def Let_def
    by (auto simp: outcome_simps split: if_splits prod.splits)
  obtain cache where ch2: "ch2 = ch1\<lparr>bc_epoch := bc_epoch ch1 + 1, block_cache := cache\<rparr>"
    using s(7) by (auto simp: cache_push_block_def split: if_splits list.splits)
  note eff = register_inputs_and_outputs_effect [OF s(6)]
  have mc: "macro_collected c d ch b outs ins"
    by (rule macro_inputs_collected [OF s(5) macro_outputs_collected [OF s(4,1)]])
  have base: "bc_epoch ch1 = bc_epoch ch" "bc_cfg ch1 = bc_cfg ch" "database ch1 = database ch"
    using eff(2,3) by (simp_all add: same_base_def)
  show thesis
    by (rule that [of outs ins aw ch1 ch2 er, OF mc s(6,7)])
      (use s(2,3,8) eff(2) in \<open>simp_all add: s(9) ch2 base escrow_checkpoint_def mv_reset_def mv_new_def split: option.split\<close>)
qed

lemma checkpoint_ok:
  assumes "mv_inv m"
  shows "mv_ok (snd (checkpoint m))" "records (snd (checkpoint m)) = {}" "ckpt_lsn (snd (checkpoint m)) = current_lsn m"
    "mv_map (snd (checkpoint m)) = mv_map m" "mv_get (snd (checkpoint m)) k = mv_get m k"
proof -
  show "mv_ok (snd (checkpoint m))"
    unfolding mv_ok_def
    using mv_inv_checkpoint [OF assms] rollback_here [of "snd (checkpoint m)"] by (auto simp: checkpoint_def)
qed (simp_all add: checkpoint_def mv_get_def)

lemma rollback_fresh: "undo m = [] \<Longrightarrow> rollback_to_lsn l m = Some m' \<Longrightarrow> m' = m"
  using rollback_here [of m l] by (auto simp: rollback_to_lsn_def checkpoint_lsn_def split: if_splits)

lemma fresh_full: "undo m = [] \<Longrightarrow> mv_get m () \<noteq> None \<Longrightarrow> full m"
  unfolding full_def using rollback_fresh by blast

lemma mv_changes_le:
  "mv_changes n m m' \<Longrightarrow> mv_inv m \<Longrightarrow> current_lsn m \<le> n \<Longrightarrow> current_lsn m' \<le> n"
  using mv_changes_lsn [of n m m'] by auto

lemma prev_lsn_next: "prev_lsn (ep + 1) 0 = LSN ep MACRO_BLOCK_OFFSET"
  by (simp add: prev_lsn_def)

lemma of_nat_less_word: "e < unat w \<Longrightarrow> of_nat e < w" for w :: u64
proof -
  assume "e < unat w"
  moreover have "e < 2 ^ 64" using \<open>e < unat w\<close> unsigned_less [of w, where ?'a = nat] by simp
  ultimately show ?thesis by (simp add: word_less_nat_alt unat_of_nat take_bit_nat_eq_self)
qed

lemma no_lsns: "epoch_lsns ep 0 = {}"
  by simp

lemma word_next: "ep \<noteq> - 1 \<Longrightarrow> 0 < ep + 1 \<and> ep < ep + 1" for ep :: u64
  using word_less_add_one [of ep ep] by (metis add_eq_0_iff2 order_refl word_gt_0)

text \<open>The maps after a macro block: nothing can be undone, the numbers are those of the block.\<close>

lemma macro_logs:
  assumes ready: "macro_ready c d ch" and ep: "bc_epoch ch \<noteq> - 1"
    and reg: "register_macro_block c d batch (LSN (bc_epoch ch) MACRO_BLOCK_OFFSET) b ch = Some (r, ch')"
  shows "logs_ok ch'"
proof -
  let ?n = "LSN (bc_epoch ch) MACRO_BLOCK_OFFSET"
  obtain outs ins aw ch1 ch2 er where D:
    "register_inputs_and_outputs c ?n (macro_digest c b) ins outs (ah_gamma (ab_header b))
       (ah_block_reward (ab_header b)) (ch\<lparr>bc_awards := aw\<rparr>) = Some ch1"
    "mv_put ?n () er (election_results ch1) \<noteq> None"
    "election_results ch' = snd (checkpoint (the (mv_put ?n () er (election_results ch1))))"
    "block_by_hash ch' = snd (checkpoint (block_by_hash ch1))" "outputs_index ch' = snd (checkpoint (outputs_index ch1))"
    "escrow ch' = snd (checkpoint (escrow ch1))" "balances ch' = snd (checkpoint (balances ch1))"
    "epoch_activity ch' = mv_new INITIAL_LSN" "bc_epoch ch' = bc_epoch ch + 1" "bc_offset ch' = 0"
    using reg by (rule register_macro_blockD) blast
  obtain m where m: "mv_put ?n () er (election_results ch1) = Some m" "election_results ch' = snd (checkpoint m)"
    using D(2,3) by auto
  note E = register_inputs_and_outputs_effect [OF D(1)]
  note R = ready [unfolded macro_ready_def Let_def]
  have C: "mv_changes ?n (block_by_hash ch) (block_by_hash ch1)" "mv_changes ?n (outputs_index ch) (outputs_index ch1)"
    "mv_changes ?n (balances ch) (balances ch1)" "mv_changes ?n (escrow ch) (escrow ch1)" "mv_changes ?n (election_results ch) m"
    using E(1,5) mv_changes_put [OF m(1)] by (simp_all add: maps_change_def)
  have I: "mv_inv (block_by_hash ch1)" "mv_inv (outputs_index ch1)" "mv_inv (balances ch1)" "mv_inv (escrow ch1)" "mv_inv m"
    using R C mv_changesD(1) by blast+
  have act: "mv_ok (mv_new INITIAL_LSN :: (pbc_pkey, ValidatorAwardState, LSN) MultiVersionedMap)"
    using rollback_here [of "mv_new INITIAL_LSN :: (pbc_pkey, ValidatorAwardState, LSN) MultiVersionedMap"]
    by (auto simp: mv_ok_def current_lsn_def mv_inv_def bt_inv_def mv_new_def)
  have le: "current_lsn (outputs_index ch1) \<le> ?n" "current_lsn (escrow ch1) \<le> ?n"
    using R C mv_changes_le by blast+
  have full: "full (balances ch')" "full (election_results ch')"
    using E(9) mv_put_get [OF m(1)] by (auto intro!: fresh_full simp: D(7) m(2) checkpoint_def mv_get_def)
  have init: "INITIAL_LSN \<le> ?n" using word_neq_0_conv [of "bc_epoch ch"] by (auto simp: INITIAL_LSN_def)
  show ?thesis
    unfolding logs_ok_def Let_def D(9,10) prev_lsn_next
    using word_next [OF ep] full le E(7,8) current_lsn_put [OF m(1)] act init
      checkpoint_ok(1-3) [OF I(1)] checkpoint_ok(1-3) [OF I(2)] checkpoint_ok(1-3) [OF I(3)] checkpoint_ok(1-3) [OF I(4)]
      checkpoint_ok(1-3) [OF I(5)]
    by (simp add: D(4-8) m(2)) (simp add: mv_new_def no_lsns)
qed

lemma found_in_macro:
  assumes "block_at d (LSN ep MACRO_BLOCK_OFFSET) ch = Some (MacroBlock b)" "ah_epoch (ab_header b) = ep"
    "key = OKMacroBlock ep (of_nat j)" "j < U32_MAX" "nth_opt (ab_outputs b) j = Some o'"
  shows "out_val c d ch key = cmt_val c o'" "found c d ch (output_digest c o') key" "key_lsn key = LSN ep MACRO_BLOCK_OFFSET"
  using assms by (auto simp: out_val_def found_def macro_block_def unat_of_nat_u32)

lemma macro_push:
  fixes c :: "('g::ab_group_add, 'f::ab_group_add) crypto"
  assumes laws: "storage_laws d" and ready: "macro_ready c d ch" and ep: "bc_epoch ch \<noteq> - 1"
    and reg: "register_macro_block c d (Some (block_key (LSN (bc_epoch ch) MACRO_BLOCK_OFFSET), MacroBlock b))
      (LSN (bc_epoch ch) MACRO_BLOCK_OFFSET) b ch = Some (r, ch')"
  shows "chain_inv c d ch' \<and> cache_ok d ch'"
proof -
  let ?n = "LSN (bc_epoch ch) MACRO_BLOCK_OFFSET"
  have R: "mv_inv (outputs_index ch)" "utxo_ok c d ch ?n (outputs_index ch) (balances ch)" "cache_ok d ch"
    using ready by (simp_all add: macro_ready_def Let_def)
  obtain outs ins aw ch1 ch2 where D: "macro_collected c d ch b outs ins"
    "register_inputs_and_outputs c ?n (macro_digest c b) ins outs (ah_gamma (ab_header b))
       (ah_block_reward (ab_header b)) (ch\<lparr>bc_awards := aw\<rparr>) = Some ch1"
    "cache_push_block (MacroBlock b) (ch1\<lparr>bc_epoch := bc_epoch ch1 + 1\<rparr>) = Some ch2"
    "outputs_index ch' = snd (checkpoint (outputs_index ch1))" "balances ch' = snd (checkpoint (balances ch1))"
    "database ch' = db_put d (block_key ?n) (MacroBlock b) (database ch)"
    "bc_epoch ch' = bc_epoch ch + 1" "bc_offset ch' = 0" "ah_epoch (ab_header b) = bc_epoch ch"
    "bc_cfg ch' = bc_cfg ch" "block_cache ch' = block_cache ch2" "bc_epoch ch1 = bc_epoch ch"
    "last_block_hash ch' = macro_digest c b" "last_block_timestamp ch' = ah_timestamp (ab_header b)"
    "same_base (ch\<lparr>bc_awards := aw\<rparr>) ch1"
    using reg by (rule register_macro_blockD) simp
  have base: "block_cache ch1 = block_cache ch" "bc_cfg ch1 = bc_cfg ch" using D(15) by (simp_all add: same_base_def)
  have db: "db_get d (database ch') (block_key ?n) = Some (MacroBlock b)"
    "lsn \<noteq> ?n \<Longrightarrow> db_get d (database ch') (block_key lsn) = db_get d (database ch) (block_key lsn)" for lsn
    using laws by (auto simp: D(6) storage_laws_def)
  have small: "of_nat e \<noteq> bc_epoch ch" if "e < unat (bc_epoch ch)" for e
    using of_nat_less_word [OF that] by simp
  have cache: "cache_ok d ch'"
    by (rule cache_step [OF R(3) ep D(9) D(3) [unfolded D(12)] base])
      (use db small in \<open>auto simp: macro_at_def D(7,10,11)\<close>)
  have old: "block_at d lsn ch' = block_at d lsn ch" if "lsn < ?n" for lsn
    using that db(2) [of lsn] by (simp add: block_at_db [OF cache] block_at_db [OF R(3)])
  have at: "block_at d ?n ch' = Some (MacroBlock b)" by (simp add: block_at_db [OF cache] db(1))
  have snap: "utxo_ok c d ch' ?n (outputs_index ch) (balances ch)" using utxo_cong [OF R(2) old] .
  have res: "out_val c d ch' key = out_val c d ch key" if "(h, key) \<in> set (mv_map (outputs_index ch))" for h key
    using R(2) that resolve_cong [OF old, of key c] by (auto simp: utxo_ok_def out_val_def)
  have ins: "\<forall>(h, i) \<in> set ins. \<exists>key. mv_get (outputs_index ch) h = Some key \<and> out_val c d ch' key = cmt_val c i"
  proof clarify
    fix h i assume "(h, i) \<in> set ins"
    then obtain key where key: "mv_get (outputs_index ch) h = Some key" "out_val c d ch key = cmt_val c i"
      using D(1) input_val [of c d h ch i] by (auto simp: macro_collected_def)
    then show "\<exists>key. mv_get (outputs_index ch) h = Some key \<and> out_val c d ch' key = cmt_val c i"
      using res [of h key] by (auto simp: mv_get_def dest: map_of_SomeD)
  qed
  have next': "?n < LSN (bc_epoch ch + 1) 0" using word_next [OF ep] by simp
  have outs: "\<forall>(h, o', key) \<in> set outs. out_val c d ch' key = cmt_val c o' \<and> key_lsn key < LSN (bc_epoch ch + 1) 0 \<and> found c d ch' h key"
    using D(1) found_in_macro [OF at D(9)] next' by (fastforce simp: macro_collected_def D(9))
  have dist: "distinct (map fst ins)"
    using D(1) strict_sorted_iff [of "map fst ins"] by (simp add: bt_inv_def macro_collected_def)
  have "snapshot_ok c d ch' (LSN (bc_epoch ch + 1) 0) (outputs_index ch1) (balances ch1)"
    by (rule register_snapshot [OF D(2), of d ch' ?n])
      (use snap ins outs dist R(1) next' in \<open>simp_all add: mv_inv_def less_imp_le\<close>)
  then have snap': "snapshot_ok c d ch' (LSN (bc_epoch ch + 1) 0) (outputs_index ch') (balances ch')"
    by (simp add: snapshot_ok_def utxo_ok_def utxo_sum_def D(4,5) checkpoint_def mv_get_def)
  have fresh: "undo (outputs_index ch') = []" "undo (balances ch') = []" by (simp_all add: D(4,5) checkpoint_def)
  have macro: "macro_block d (bc_epoch ch) ch' = Some b" by (simp add: macro_block_def at)
  have "chain_inv c d ch'"
    unfolding chain_inv_def D(7,8)
    using macro_logs [OF ready ep reg] macro snap' rollback_fresh [OF fresh(1)] rollback_fresh [OF fresh(2)] D(13,14)
    by (auto simp: previous_block_def D(7))
  then show ?thesis using cache by blast
qed

section \<open>Reachable chains\<close>

text \<open>
  The life of a chain: it starts with the genesis block; then micro blocks are pushed and
  reverted, the view changes, and at the start of an epoch a macro block is pushed. A macro
  block is pushed when no micro block is left, as the node reverts them first. The number of
  epochs stays below the 64-bit limit.
\<close>

inductive chain_reach ::
  "('g::ab_group_add, 'f::ab_group_add) crypto \<Rightarrow> ('d, 'f) storage \<Rightarrow> ('g, 'f, 'd) Blockchain \<Rightarrow> bool"
  for c d where
  genesis: "blockchain_new c cfg db b = Some ch \<Longrightarrow>
    register_macro_block c d (Some (block_key (LSN 0 MACRO_BLOCK_OFFSET), MacroBlock b)) (LSN 0 MACRO_BLOCK_OFFSET) b ch
      = Some (r, ch') \<Longrightarrow> chain_reach c d ch'"
| macro: "chain_reach c d ch \<Longrightarrow> bc_epoch ch \<noteq> - 1 \<Longrightarrow>
    register_macro_block c d (Some (block_key (LSN (bc_epoch ch) MACRO_BLOCK_OFFSET), MacroBlock b))
      (LSN (bc_epoch ch) MACRO_BLOCK_OFFSET) b ch = Some (r, ch') \<Longrightarrow> chain_reach c d ch'"
| micro: "chain_reach c d ch \<Longrightarrow>
    register_micro_block c d (LSN (bc_epoch ch) (bc_offset ch)) m (written d m ch) = Some (r', ch') \<Longrightarrow> chain_reach c d ch'"
| view: "chain_reach c d ch \<Longrightarrow> set_view_change vc p ch = Some ch' \<Longrightarrow> chain_reach c d ch'"
| pop: "chain_reach c d ch \<Longrightarrow> pop_micro_block c d ch = Some (r'', ch') \<Longrightarrow> chain_reach c d ch'"

lemma utxo_mono: "utxo_ok c d ch l index bals \<Longrightarrow> l \<le> l' \<Longrightarrow> utxo_ok c d ch l' index bals"
  by (auto simp: utxo_ok_def intro: less_le_trans)

lemma new_ready:
  fixes c :: "('g::ab_group_add, 'f::ab_group_add) crypto"
  assumes "blockchain_new c cfg db b = Some ch"
  shows "macro_ready c d ch" "bc_epoch ch = 0"
proof -
  let ?bal = "\<lparr>bal_created = pt_inf, bal_burned = pt_inf, bal_gamma = 0, bal_block_reward = 0\<rparr> :: ('g, 'f) Balance"
  obtain bals aw where ch: "mv_put INITIAL_LSN () ?bal (mv_new INITIAL_LSN) = Some bals"
    "ch = \<lparr>bc_cfg = cfg, database = db, block_by_hash = mv_new INITIAL_LSN,
             outputs_index = mv_new INITIAL_LSN, balances = bals, escrow = escrow_new,
             bc_difficulty = ah_difficulty (ab_header b), bc_epoch = 0, bc_offset = 0,
             election_results = mv_new INITIAL_LSN, bc_view_change_proof = None,
             last_macro_block_timestamp = 0, last_macro_block_hash = digest c (hash_str ''genesis''),
             last_macro_block_random = digest c (hash_str ''genesis''), last_block_timestamp = 0,
             last_block_hash = digest c (hash_str ''genesis''), bc_awards = aw,
             epoch_activity = mv_new INITIAL_LSN, block_cache = []\<rparr>"
    using assms by (auto simp: blockchain_new_def outcome_simps)
  show "bc_epoch ch = 0" by (simp add: ch(2))
  have lsn: "current_lsn (mv_new INITIAL_LSN) \<le> LSN 0 MACRO_BLOCK_OFFSET"
    by (simp add: mv_new_def INITIAL_LSN_def)
  have "mv_inv bals" using mv_changesD(1) [OF mv_changes_put [OF ch(1)]] by simp
  then show "macro_ready c d ch"
    using mv_put_get [OF ch(1)] lsn
    by (simp add: macro_ready_def Let_def ch(2) escrow_new_def utxo_ok_def utxo_sum_def cache_ok_def)
      (simp add: mv_new_def)
qed

lemma chain_ready:
  assumes inv: "chain_inv c d ch" "cache_ok d ch" "bc_offset ch = 0"
  shows "macro_ready c d ch"
proof -
  note I = chain_invD [OF inv(1)]
  let ?n = "LSN (bc_epoch ch) MACRO_BLOCK_OFFSET"
  have le: "LSN (bc_epoch ch) 0 \<le> ?n" by simp
  have base: "prev_lsn (bc_epoch ch) 0 \<le> ?n" using prev_lsn_less [OF I(2), of 0] le by (simp add: less_imp_le less_le_trans)
  have L: "mv_ok (outputs_index ch)" "mv_ok (escrow ch)" "records (outputs_index ch) = {}" "records (escrow ch) = {}"
    "ckpt_lsn (outputs_index ch) \<le> prev_lsn (bc_epoch ch) 0" "ckpt_lsn (escrow ch) \<le> prev_lsn (bc_epoch ch) 0"
    using I(1) inv(3) by (simp_all add: logs_ok_def Let_def no_lsns)
  have "current_lsn (outputs_index ch) \<le> ?n" "current_lsn (escrow ch) \<le> ?n"
    using L base current_lsn_records [of "outputs_index ch"] current_lsn_records [of "escrow ch"]
    by (auto simp: mv_ok_def)
  moreover have "utxo_ok c d ch ?n (outputs_index ch) (balances ch)"
    using I(9) inv(3) by (auto simp: snapshot_ok_def intro: utxo_mono [OF _ le])
  ultimately show ?thesis
    using inv(2) I(1) by (simp add: macro_ready_def Let_def logs_ok_def mv_ok_def)
qed

lemma cache_ok_cong:
  assumes "cache_ok d ch" "same_base ch ch'"
    "\<And>e. e < bc_epoch ch \<Longrightarrow> db_get d (database ch') (block_key (LSN e MACRO_BLOCK_OFFSET)) =
       db_get d (database ch) (block_key (LSN e MACRO_BLOCK_OFFSET))"
  shows "cache_ok d ch'"
proof -
  have "macro_at d ch' e = macro_at d ch e" if "e < unat (bc_epoch ch)" for e
  proof -
    have "(of_nat e :: u64) < bc_epoch ch" using that by (rule of_nat_less_word)
    then show ?thesis using assms(3) by (simp add: macro_at_def)
  qed
  then show ?thesis
    using assms(1,2) by (simp add: cache_ok_def same_base_def)
qed

lemma chain_reach_inv:
  assumes "storage_laws d" "chain_reach c d ch"
  shows "chain_inv c d ch \<and> cache_ok d ch"
  using assms(2)
proof induction
  case (genesis cfg db b ch r ch')
  note R = new_ready(1) [OF genesis(1), where d = d] new_ready(2) [OF genesis(1)]
  show ?case
    by (rule macro_push [OF assms(1) R(1)]) (use R(2) genesis(2) in auto)
next
  case (macro ch b r ch')
  have "bc_offset ch = 0" using macro(3) by (rule register_macro_blockD)
  then show ?case
    using macro_push [OF assms(1) chain_ready macro(2,3)] macro.IH by blast
next
  case (micro ch m r' ch')
  note E = register_micro_block_effect [OF micro(2)]
  have off: "bc_offset ch \<noteq> MACRO_BLOCK_OFFSET" using offset_not_macro [of "bc_offset ch" "bc_cfg ch"] E(5) by simp
  have same: "same_block d (LSN e MACRO_BLOCK_OFFSET) ch (written d m ch)" for e
    by (rule same_block_written [OF assms(1)]) (use off in simp)
  have base: "same_base ch ch'" using E(2) by (simp add: same_base_def written_def)
  have "cache_ok d ch'"
    by (rule cache_ok_cong [OF conjunct2 [OF micro.IH] base]) (use same E(3) in \<open>simp add: same_block_def\<close>)
  then show ?case using chain_push [OF assms(1) _ micro(2)] micro.IH by blast
next
  case (view ch vc p ch')
  obtain m q where "ch' = ch\<lparr>election_results := m, bc_view_change_proof := q\<rparr>"
    using view_effect [of vc p ch ch'] view(2) by blast
  then have "cache_ok d ch'"
    by (intro cache_ok_cong [OF conjunct2 [OF view.IH]]) (simp_all add: same_base_def)
  then show ?case using chain_view view.IH view(2) by blast
next
  case (pop ch r'' ch')
  let ?k = "bc_offset ch - 1"
  have pos: "0 < bc_offset ch" using pop(2) by (auto simp: pop_micro_block_def split: if_splits)
  then have k: "bc_offset ch = ?k + 1" "?k < bc_offset ch" using word_minus_one_less [of "bc_offset ch"] by auto
  from pop.IH have inv: "chain_inv c d ch" by blast
  obtain x where x: "pop_micro_block c d ch = Some x" "chain_inv c d (snd x)" "same_base ch (snd x)"
    "database (snd x) = db_delete d (block_key (LSN (bc_epoch ch) ?k)) (database ch)"
    by (rule chain_pop [OF assms(1) inv k]) auto
  have ch': "ch' = snd x" using pop(2) x(1) by simp
  have "?k \<noteq> MACRO_BLOCK_OFFSET"
    using k(2) chain_invD(3) [OF inv] offset_not_macro [of ?k "bc_cfg ch"] by (simp add: less_le_trans)
  then have "cache_ok d ch'"
    unfolding ch' using assms(1)
    by (intro cache_ok_cong [OF conjunct2 [OF pop.IH] x(3)]) (simp add: x(4) storage_laws_def)
  then show ?case using x(2) ch' by blast
qed

section \<open>A sample chain\<close>

text \<open>
  The length of its input in place of the hash keeps the digests of the sample apart. The
  database is a sorted list of keys and blocks.
\<close>

definition count_crypto :: "(8 word, 8 word) crypto" where
  "count_crypto = sample_crypto\<lparr>sha3 := (\<lambda>bs. of_nat (length bs))\<rparr>"

definition sample_storage :: "((bytes, 8 word Block) btree, 8 word) storage" where
  "sample_storage =
     \<lparr>db_get = bt_get, db_put = bt_put, db_delete = bt_del,
      db_from = (\<lambda>db k. map snd (filter (\<lambda>(k', _). k \<le> k') db))\<rparr>"

lemma sample_storage_laws: "storage_laws sample_storage"
proof -
  have put: "bt_get (bt_put k v m) k' = (if k = k' then Some v else bt_get m k')" for k k' and v :: 'v and m :: "(bytes, 'v) btree"
    by (induction k v m rule: bt_put.induct) auto
  have del: "k \<noteq> k' \<Longrightarrow> bt_get (bt_del k m) k' = bt_get m k'" for k k' and m :: "(bytes, 'v) btree"
    by (induction k m rule: bt_del.induct) auto
  show ?thesis by (simp add: storage_laws_def sample_storage_def put del)
qed

definition sample_cfg :: ChainConfig where
  "sample_cfg = \<lparr>max_slot_count = 1, min_stake_amount = 1, stake_epochs = 2, micro_blocks_in_epoch = 2,
     awards_difficulty = 1, cfg_block_reward = 4, service_award_per_epoch = 1, vetted_timestamp_delta = 10\<rparr>"

definition sample_staked :: Output where
  "sample_staked = StakeOutput \<lparr>so_recipient = 9, so_validator = 7, so_amount = 10, so_serno = 0, so_signature = 0\<rparr>"

definition sample_root :: hash where
  "sample_root = the (validators_root count_crypto [(7, 1)])"

definition sample_genesis :: "8 word MacroBlock" where
  "sample_genesis =
     \<lparr>ab_header = \<lparr>ah_version = VERSION, ah_previous = digest count_crypto (hash_str ''genesis''), ah_epoch = 0,
        ah_view_change = 0, ah_pkey = 7, ah_random = sample_vrf, ah_difficulty = 5, ah_timestamp = 100,
        ah_block_reward = 10, ah_gamma = 0, ah_activity_map = [], ah_validators_len = 1,
        ah_validators_range_hash = sample_root, ah_inputs_len = 0, ah_inputs_range_hash = 0,
        ah_outputs_len = 1, ah_outputs_range_hash = 0, ah_canaries_range_hash = 0\<rparr>,
      ab_multisig = None, ab_multisigmap = [], ab_inputs = [], ab_outputs = [sample_staked]\<rparr>"

lemma sample_root: "validators_root count_crypto [(7, 1)] = Some sample_root"
proof -
  obtain t where "from_array (digest count_crypto) (hash_pair hash_pbc_PublicKey hash_i64) [(7 :: pbc_pkey, 1 :: i64)] = Some t"
    by (rule from_array_mtree [of "[(7 :: pbc_pkey, 1 :: i64)]"]) auto
  then show ?thesis by (simp add: sample_root_def validators_root_def root_hash_from_array_def)
qed

lemma sample_er:
  "\<exists>er. select_validators_slots c [(7, 10)] v 1 = Some er \<and> er_validators er = [(7, 1)]"
proof -
  obtain er where er: "select_validators_slots c [(7, 10)] v 1 = Some er" "slots_drawn {7} 1 (er_validators er)"
    using select_validators_slots_drawn [of "[(7, 10)]" 1 c v] by (auto simp: stakes_ok_def signed_simps)
  obtain k s rest where "er_validators er = (k, s) # rest"
    using er(2) by (cases "er_validators er") (auto simp: slots_drawn_def)
  moreover have "rest = []"
    using er(2) calculation by (cases rest) (auto simp: slots_drawn_def bt_inv_def)
  moreover have "s = 1" using er(2) calculation by (intro signed_word_eqI) (auto simp: slots_drawn_def)
  ultimately show ?thesis using er by (auto simp: slots_drawn_def)
qed

definition sample_hash :: hash where
  "sample_hash = output_digest count_crypto sample_staked"

definition sample_fresh :: "(8 word, 8 word, (bytes, 8 word Block) btree) Blockchain" where
  "sample_fresh = the (blockchain_new count_crypto sample_cfg [] sample_genesis)"

lemma sample_fresh: "blockchain_new count_crypto sample_cfg [] sample_genesis = Some sample_fresh"
  by (simp add: sample_fresh_def blockchain_new_def mv_put_def mv_insert_def mv_new_def Let_def awards_new_def sample_cfg_def
      bt_insert_def INITIAL_LSN_def)

lemma sample_outputs:
  "macro_output count_crypto 0 (0, sample_staked) [] = Some [(sample_hash, sample_staked, OKMacroBlock 0 0)]"
  by (simp add: macro_output_def sample_hash_def Let_def)

lemma genesis_simps:
  "ah_version (ab_header sample_genesis) = VERSION" "ah_previous (ab_header sample_genesis) = digest count_crypto (hash_str ''genesis'')"
  "ah_epoch (ab_header sample_genesis) = 0" "ah_timestamp (ab_header sample_genesis) = 100" "ah_block_reward (ab_header sample_genesis) = 10"
  "ah_gamma (ab_header sample_genesis) = 0" "ah_random (ab_header sample_genesis) = sample_vrf" "ah_validators_len (ab_header sample_genesis) = 1"
  "ah_validators_range_hash (ab_header sample_genesis) = sample_root" "ah_inputs_len (ab_header sample_genesis) = 0"
  "ah_outputs_len (ab_header sample_genesis) = 1" "ah_difficulty (ab_header sample_genesis) = 5"
  "ab_inputs sample_genesis = []" "ab_outputs sample_genesis = [sample_staked]"
  by (simp_all add: sample_genesis_def)

lemma count_simps [simp]:
  "smul count_crypto = (*)" "B_base count_crypto = 3" "B_blinding count_crypto = 5" "scalar_of_u64 count_crypto = ucast"
  "digest count_crypto bs = of_nat (length bs)" "decompress count_crypto b = (if b < 256 then Some (ucast b) else None)"
  by (simp_all add: count_crypto_def sample_crypto_def digest_def)

lemmas sample_eval =
  mv_put_def mv_insert_def mv_new_def Let_def awards_new_def sample_cfg_def bt_insert_def INITIAL_LSN_def current_lsn_def
  register_output_def sample_staked_def escrow_new_def monetary_balance_def fee_a_def pt_simps pt_one_def
  balance_def mv_get_def stake_def escrow_current_lsn_def signed_simps sample_fresh_def blockchain_new_def
  pt_inf_def pt_sub_def

lemma sample_register:
  "register_inputs_and_outputs count_crypto (LSN 0 MACRO_BLOCK_OFFSET) h [] [(sample_hash, sample_staked, OKMacroBlock 0 0)] 0 10
     sample_fresh = Some (sample_fresh\<lparr>
       block_by_hash := \<lparr>mv_map = [(h, LSN 0 MACRO_BLOCK_OFFSET)], undo = [URemove (LSN 0 MACRO_BLOCK_OFFSET) h], ckpt_lsn = LSN 0 0\<rparr>,
       outputs_index := \<lparr>mv_map = [(sample_hash, OKMacroBlock 0 0)], undo = [URemove (LSN 0 MACRO_BLOCK_OFFSET) sample_hash],
         ckpt_lsn = LSN 0 0\<rparr>,
       escrow := \<lparr>mv_map = [(EscrowKey 7 sample_hash, \<lparr>ev_account_pkey = 9, active_until_epoch = 2, ev_amount = 10\<rparr>)],
         undo = [URemove (LSN 0 MACRO_BLOCK_OFFSET) (EscrowKey 7 sample_hash)], ckpt_lsn = LSN 0 0\<rparr>,
       balances := \<lparr>mv_map = [((), \<lparr>bal_created = PtRaw 30, bal_burned = PtRaw 0, bal_gamma = 0, bal_block_reward = 10\<rparr>)],
         undo = [URemove (LSN 0 0) (), UInsert (LSN 0 MACRO_BLOCK_OFFSET) ()
            \<lparr>bal_created = PtRaw 0, bal_burned = PtRaw 0, bal_gamma = 0, bal_block_reward = 0\<rparr>,
           URemove (LSN 0 MACRO_BLOCK_OFFSET) ()], ckpt_lsn = LSN 0 0\<rparr>\<rparr>)"
  unfolding register_inputs_and_outputs_def
  by (simp add: sample_eval)

definition sample_elected :: ElectionResult where
  "sample_elected = the (select_validators_slots count_crypto [(7, 10)] sample_vrf 1)"

lemma sample_elected:
  "select_validators_slots count_crypto [(7, 10)] sample_vrf 1 = Some sample_elected" "er_validators sample_elected = [(7, 1)]"
  using sample_er [of count_crypto sample_vrf] by (auto simp: sample_elected_def)

lemma sample_majority:
  "get_stakers_majority 1 1 \<lparr>mv_map = [(EscrowKey 7 sample_hash, \<lparr>ev_account_pkey = 9, active_until_epoch = 2, ev_amount = 10\<rparr>)],
     undo = u, ckpt_lsn = l\<rparr> = [(7, 10)]"
  "account_by_network_key 7 \<lparr>mv_map = [(EscrowKey 7 sample_hash, \<lparr>ev_account_pkey = 9, active_until_epoch = 2, ev_amount = 10\<rparr>)],
     undo = u, ckpt_lsn = l\<rparr> = Some 9"
  by (simp_all add: get_stakers_majority_def staker_step_def mv_iter_def signed_simps account_by_network_key_def
    iter_validator_stakes_def Let_def mv_range_def less_eq_EscrowKey_def bt_entry_def bt_range_def)

definition sample_chain :: "(8 word, 8 word, (bytes, 8 word Block) btree) Blockchain" where
  "sample_chain = sample_fresh\<lparr>
       bc_epoch := 1, block_cache := [MacroBlock sample_genesis], bc_offset := 0, last_block_timestamp := 100,
       last_block_hash := macro_digest count_crypto sample_genesis, last_macro_block_timestamp := 100,
       last_macro_block_random := vrf_random sample_vrf, last_macro_block_hash := macro_digest count_crypto sample_genesis,
       election_results := \<lparr>mv_map = [((), sample_elected)], undo = [], ckpt_lsn = LSN 0 MACRO_BLOCK_OFFSET\<rparr>,
       bc_difficulty := 5,
       block_by_hash := \<lparr>mv_map = [(macro_digest count_crypto sample_genesis, LSN 0 MACRO_BLOCK_OFFSET)], undo = [],
         ckpt_lsn = LSN 0 MACRO_BLOCK_OFFSET\<rparr>,
       outputs_index := \<lparr>mv_map = [(sample_hash, OKMacroBlock 0 0)], undo = [], ckpt_lsn = LSN 0 MACRO_BLOCK_OFFSET\<rparr>,
       escrow := \<lparr>mv_map = [(EscrowKey 7 sample_hash, \<lparr>ev_account_pkey = 9, active_until_epoch = 2, ev_amount = 10\<rparr>)],
         undo = [], ckpt_lsn = LSN 0 MACRO_BLOCK_OFFSET\<rparr>,
       balances := \<lparr>mv_map = [((), \<lparr>bal_created = PtRaw 30, bal_burned = PtRaw 0, bal_gamma = 0, bal_block_reward = 10\<rparr>)],
         undo = [], ckpt_lsn = LSN 0 MACRO_BLOCK_OFFSET\<rparr>,
       epoch_activity := mv_new INITIAL_LSN,
       database := [(block_key (LSN 0 MACRO_BLOCK_OFFSET), MacroBlock sample_genesis)]\<rparr>"

lemma sample_registered:
  "register_macro_block count_crypto sample_storage
     (Some (block_key (LSN 0 MACRO_BLOCK_OFFSET), MacroBlock sample_genesis)) (LSN 0 MACRO_BLOCK_OFFSET) sample_genesis sample_fresh
   = Some (([], [(sample_hash, sample_staked)]), sample_chain)"
proof -
  have F: "bc_epoch sample_fresh = 0" "bc_offset sample_fresh = 0" "last_macro_block_hash sample_fresh = digest count_crypto (hash_str ''genesis'')"
    "last_macro_block_timestamp sample_fresh = 0" "last_block_timestamp sample_fresh = 0" "bc_cfg sample_fresh = sample_cfg"
    "block_cache sample_fresh = []" "election_results sample_fresh = mv_new INITIAL_LSN" "database sample_fresh = []"
    "max_slot_count sample_cfg = 1" "min_stake_amount sample_cfg = 1" "stake_epochs sample_cfg = 2"
    "epoch_activity sample_fresh = mv_new INITIAL_LSN"
    by (simp_all add: sample_eval)
  have P: "mv_put (LSN 0 MACRO_BLOCK_OFFSET) () sample_elected \<lparr>mv_map = [], undo = [], ckpt_lsn = INITIAL_LSN\<rparr> =
    Some \<lparr>mv_map = [((), sample_elected)], undo = [URemove (LSN 0 MACRO_BLOCK_OFFSET) ()], ckpt_lsn = LSN 0 0\<rparr>"
    by (simp add: sample_eval)
  show ?thesis
    by (simp add: register_macro_block_def Let_def genesis_simps F sample_outputs register_awards_def U32_MAX_def
      sample_register next_election_result_def sample_majority sample_elected sample_root cache_push_block_def P
      sample_chain_def checkpoint_def current_lsn_def mv_reset_def mv_new_def escrow_checkpoint_def sample_storage_def)
qed

definition sample_paid :: Output where
  "sample_paid = PublicPaymentOutput \<lparr>pp_recipient = 9, pp_serno = 0, pp_amount = 4\<rparr>"

definition sample_micro :: "8 word MicroBlock" where
  "sample_micro = MkMicro
     \<lparr>mh_version = VERSION, mh_previous = macro_digest count_crypto sample_genesis, mh_epoch = 1, mh_offset = 0,
      mh_view_change = 0, mh_view_change_proof = None, mh_pkey = 7, mh_random = sample_vrf, mh_solution = [],
      mh_timestamp = 101, mh_transactions_len = 1, mh_transactions_range_hash = 0, mh_inputs_len = 0,
      mh_inputs_range_hash = 0, mh_outputs_len = 1, mh_outputs_range_hash = 0, mh_canaries_range_hash = 0\<rparr>
     0 [CoinbaseTransaction \<lparr>cb_block_reward = 4, cb_block_fee = 0, cb_gamma = 0, cb_txouts = [sample_paid]\<rparr>]"

lemma sample_digests:
  "sample_hash = 174" "output_digest count_crypto sample_paid = 77" "macro_digest count_crypto sample_genesis = 446"
  "digest count_crypto (hash_MicroBlock sample_micro) = 396"
  by (simp_all add: sample_hash_def output_digest_def sample_staked_def sample_paid_def hash_StakeOutput_def hash_PublicPaymentOutput_def
    macro_digest_def hash_MacroBlock_def hash_MacroBlockHeader_def sample_genesis_def sample_micro_def hash_MicroBlock_def
    hash_MicroBlockHeader_def hash_str_def str_bytes_def hash_pbc_PublicKey_def hash_VRF_def hash_Fr_def hash_G1_def
    hash_enc_PublicKey_def hash_enc_pt_def)

lemma pushed_leader: "select_leader count_crypto sample_elected vc = Some 7"
  using unwrap_winner_total [of "[(7, 1)]"]
  by (auto simp: select_leader_def sample_elected stakes_ok_def signed_simps)

definition sample_pushed :: "(8 word, 8 word, (bytes, 8 word Block) btree) Blockchain" where
  "sample_pushed = snd (the (register_micro_block count_crypto sample_storage (LSN 1 0) sample_micro
     (written sample_storage sample_micro sample_chain)))"

lemma micro_simps:
  "mh_version (mb_header sample_micro) = VERSION" "mh_previous (mb_header sample_micro) = macro_digest count_crypto sample_genesis"
  "mh_epoch (mb_header sample_micro) = 1" "mh_offset (mb_header sample_micro) = 0" "mh_view_change (mb_header sample_micro) = 0"
  "mh_timestamp (mb_header sample_micro) = 101" "mh_random (mb_header sample_micro) = sample_vrf"
  "mb_transactions sample_micro = [CoinbaseTransaction \<lparr>cb_block_reward = 4, cb_block_fee = 0, cb_gamma = 0, cb_txouts = [sample_paid]\<rparr>]"
  by (simp_all add: sample_micro_def)

lemma chain_simps:
  "bc_epoch sample_chain = 1" "bc_offset sample_chain = 0" "last_block_hash sample_chain = macro_digest count_crypto sample_genesis"
  "last_block_timestamp sample_chain = 100" "bc_cfg sample_chain = sample_cfg"
  "outputs_index sample_chain = \<lparr>mv_map = [(sample_hash, OKMacroBlock 0 0)], undo = [], ckpt_lsn = LSN 0 MACRO_BLOCK_OFFSET\<rparr>"
  "block_by_hash sample_chain = \<lparr>mv_map = [(macro_digest count_crypto sample_genesis, LSN 0 MACRO_BLOCK_OFFSET)], undo = [],
         ckpt_lsn = LSN 0 MACRO_BLOCK_OFFSET\<rparr>"
  "balances sample_chain = \<lparr>mv_map = [((), \<lparr>bal_created = PtRaw 30, bal_burned = PtRaw 0, bal_gamma = 0, bal_block_reward = 10\<rparr>)],
         undo = [], ckpt_lsn = LSN 0 MACRO_BLOCK_OFFSET\<rparr>"
  "escrow sample_chain = \<lparr>mv_map = [(EscrowKey 7 sample_hash, \<lparr>ev_account_pkey = 9, active_until_epoch = 2, ev_amount = 10\<rparr>)],
         undo = [], ckpt_lsn = LSN 0 MACRO_BLOCK_OFFSET\<rparr>"
  "election_results sample_chain = \<lparr>mv_map = [((), sample_elected)], undo = [], ckpt_lsn = LSN 0 MACRO_BLOCK_OFFSET\<rparr>"
  "epoch_activity sample_chain = mv_new INITIAL_LSN"
  by (simp_all add: sample_chain_def) (simp add: sample_eval)

definition sample_tx :: "8 word Transaction" where
  "sample_tx = CoinbaseTransaction \<lparr>cb_block_reward = 4, cb_block_fee = 0, cb_gamma = 0, cb_txouts = [sample_paid]\<rparr>"

lemma sample_txs:
  "fold_option (micro_tx count_crypto sample_storage (LSN 1 0) (written sample_storage sample_micro sample_chain))
     (enumerate 0 (mb_transactions sample_micro))
     \<lparr>mr_inputs = [], mr_outputs = [], mr_gamma = 0, mr_block_reward = 0, mr_txs = [], mr_election = e\<rparr> =
   Some \<lparr>mr_inputs = [], mr_outputs = [(77, sample_paid, OKMicroBlock 1 0 0 0)], mr_gamma = 0, mr_block_reward = 4,
     mr_txs = [(digest count_crypto (hash_Transaction count_crypto sample_tx), sample_tx)], mr_election = e\<rparr>"
  by (simp add: micro_simps micro_tx_def micro_output_def U32_MAX_def Let_def sample_digests chain_simps sample_tx_def)

lemma sample_active:
  assumes "election_result ch = Some sample_elected" "epoch_activity ch = mv_new INITIAL_LSN"
  shows "update_activity count_crypto (LSN 1 0) 0 ch =
    Some (ch\<lparr>epoch_activity := \<lparr>mv_map = [(7, Active)], undo = [URemove (LSN 1 0) 7], ckpt_lsn = LSN 0 0\<rparr>\<rparr>)"
  using assms by (simp add: update_activity_def mv_get_def pushed_leader mv_put_def mv_insert_def mv_new_def
    current_lsn_def INITIAL_LSN_def bt_insert_def Let_def)

lemma sample_pushed:
  "\<exists>r. register_micro_block count_crypto sample_storage (LSN 1 0) sample_micro (written sample_storage sample_micro sample_chain)
     = Some (r, sample_pushed)"
proof -
  have "register_micro_block count_crypto sample_storage (LSN 1 0) sample_micro (written sample_storage sample_micro sample_chain) \<noteq> None"
    by (simp add: register_micro_block_def sample_txs micro_simps(1-7) chain_simps sample_digests Let_def is_epoch_full_def
       sample_cfg_def sample_active election_result_def mv_get_def del: count_simps(5))
      (simp add: register_inputs_and_outputs_def sample_digests chain_simps mv_insert_def mv_put_def Let_def bt_insert_def
       current_lsn_def register_output_def pt_inf_def pt_sub_def monetary_balance_def fee_a_def signed_simps balance_def
       mv_get_def sample_cfg_def sample_paid_def pt_one_def)
  then show ?thesis by (auto simp: sample_pushed_def)
qed

lemma sample_reach: "chain_reach count_crypto sample_storage sample_chain" "chain_reach count_crypto sample_storage sample_pushed"
proof -
  show ch: "chain_reach count_crypto sample_storage sample_chain"
    by (rule chain_reach.genesis [OF sample_fresh sample_registered])
  show "chain_reach count_crypto sample_storage sample_pushed"
    using chain_reach.micro [OF ch] sample_pushed by (auto simp: chain_simps)
qed

text \<open>Reverting right after a push gives the chain before it back.\<close>

lemma chain_pop_push:
  fixes c :: "('g::ab_group_add, 'f::ab_group_add) crypto" and ch ch' :: "('g, 'f, 'd) Blockchain"
  assumes laws: "storage_laws d" and inv: "chain_inv c d ch"
    and reg: "register_micro_block c d (LSN (bc_epoch ch) (bc_offset ch)) b (written d b ch) = Some (r, ch')"
  shows "\<exists>recovered ch''. pop_micro_block c d ch' =
      Some ((map (output_digest c) (mb_outputs b), recovered, filter is_user_tx (mb_transactions b), b), ch'') \<and>
    bc_epoch ch'' = bc_epoch ch \<and> bc_offset ch'' = bc_offset ch \<and> last_block_hash ch'' = last_block_hash ch \<and>
    last_block_timestamp ch'' = last_block_timestamp ch \<and> outputs_index ch'' = outputs_index ch \<and>
    block_by_hash ch'' = block_by_hash ch \<and> balances ch'' = balances ch \<and> escrow ch'' = escrow ch \<and>
    epoch_activity ch'' = epoch_activity ch \<and>
    election_result ch'' = map_option (\<lambda>er. er\<lparr>er_view_change := 0\<rparr>) (election_result_by_offset (bc_offset ch) ch')"
proof -
  let ?ep = "bc_epoch ch" and ?n = "bc_offset ch"
  note I = chain_invD [OF inv]
  note E = register_micro_block_effect [OF reg]
  have inv': "chain_inv c d ch'" by (rule chain_push [OF laws inv reg])
  have n: "?n \<noteq> MACRO_BLOCK_OFFSET" "?n \<noteq> - 1"
    using offset_not_macro [of ?n "bc_cfg ch"] E(5) by (simp_all add: MACRO_BLOCK_OFFSET_def)
  have base: "same_base ch ch'" using E(2) by (simp add: same_base_def written_def)
  have ep: "bc_epoch ch' = ?ep" and off: "bc_offset ch' = ?n + 1" using base E(4) by (simp_all add: same_base_def)
  have same: "same_block d lsn ch ch'" if "lsn \<le> prev_lsn ?ep ?n" for lsn
  proof -
    have "lsn \<noteq> LSN ?ep ?n" using that prev_lsn_less [OF I(2), of ?n] by (metis leD)
    from same_block_written [OF laws this, of b] show ?thesis using E(3) base by (simp add: same_block_def)
  qed
  have at: "micro_block d ?ep ?n ch' = Some b"
    using laws E(3) n(1) by (simp add: block_at_micro written_def storage_laws_def)
  have prev: "previous_block c d ?n ch' = previous_block c d ?n ch" by (rule previous_cong [OF base same])
  note undone = maps_before [OF _ E(1) [folded written_simps(1,2) [of d b ch]] order_refl, simplified, OF I(1)]
  have k: "bc_offset ch' = ?n + 1" "?n < bc_offset ch'" unfolding off using word_less_add_one [OF n(2)] by auto
  obtain x h ts recovered ch'' where P: "pop_micro_block c d ch' =
      Some ((map (output_digest c) (mb_outputs x), recovered, filter is_user_tx (mb_transactions x), x), ch'')"
    "micro_block d (bc_epoch ch') ?n ch' = Some x"
    "previous_block c d ?n ch' = Some (h, prev_lsn (bc_epoch ch') ?n, ts)"
    "same_base ch' ch''"
    "rollback_to_lsn (prev_lsn (bc_epoch ch') ?n) (outputs_index ch') = Some (outputs_index ch'')"
    "rollback_to_lsn (prev_lsn (bc_epoch ch') ?n) (balances ch') = Some (balances ch'')"
    "rollback_to_lsn (prev_lsn (bc_epoch ch') ?n) (block_by_hash ch') = Some (block_by_hash ch'')"
    "rollback_to_lsn (prev_lsn (bc_epoch ch') ?n) (escrow ch') = Some (escrow ch'')"
    "rollback_to_lsn (prev_lsn (bc_epoch ch') ?n) (epoch_activity ch') = Some (epoch_activity ch'')"
    "bc_offset ch'' = ?n" "last_block_hash ch'' = h" "last_block_timestamp ch'' = ts"
    "election_result ch'' = map_option (\<lambda>er. er\<lparr>er_view_change := 0\<rparr>) (election_result_by_offset ?n ch')"
    by (rule chain_pop [OF laws inv' k]) (rule that)
  have "x = b" using at P(2) ep by simp
  moreover have "h = last_block_hash ch" "ts = last_block_timestamp ch" using P(3) prev I(6) by simp_all
  moreover have "bc_epoch ch'' = ?ep" using P(4) ep by (simp add: same_base_def)
  moreover have "outputs_index ch'' = outputs_index ch" "balances ch'' = balances ch" "block_by_hash ch'' = block_by_hash ch"
    "escrow ch'' = escrow ch" "epoch_activity ch'' = epoch_activity ch"
    using P(5-9) undone logs_here [OF I(1)] by (simp_all add: ep)
  ultimately show ?thesis using P by (intro exI [of _ recovered] exI [of _ "ch''"]) simp
qed

section \<open>Properties\<close>

text \<open>
  C1: money is conserved. In every reachable chain the commitments of the unspent outputs sum
  up to the rewards paid by the blocks, in the base of amounts, less the sum of the gamma
  adjustments, in the base of blinding factors.
\<close>

theorem chain_supply:
  assumes "storage_laws d" "chain_reach c d ch"
  shows "\<exists>bal. balance ch = Some bal \<and> 0 \<le>s bal_block_reward bal \<and>
    utxo_sum c d ch (outputs_index ch) =
      smul c (scalar_of_u64 c (bal_block_reward bal)) (B_base c) - smul c (bal_gamma bal) (B_blinding c)"
proof -
  have "snapshot_ok c d ch (LSN (bc_epoch ch) (bc_offset ch)) (outputs_index ch) (balances ch)"
    using chain_reach_inv [OF assms] chain_invD(9) by blast
  then show ?thesis
    by (auto simp: snapshot_ok_def utxo_ok_def balance_def monetary_balance_def fee_a_def pt_simps pt_one_def signed_simps
        algebra_simps split: if_splits)
qed

theorem chain_supply_witness:
  "\<exists>bal. balance sample_pushed = Some bal \<and>
    utxo_sum count_crypto sample_storage sample_pushed (outputs_index sample_pushed) =
      ucast (bal_block_reward bal) * 3 - bal_gamma bal * 5"
  using chain_supply [OF sample_storage_laws sample_reach(2)] by auto

text \<open>
  C9: the index of unspent outputs is sound. Looking up an indexed hash never panics in a
  reachable chain and returns an output with this hash; an output that is not indexed is
  reported as missing.
\<close>

theorem chain_outputs_found:
  assumes "storage_laws d" "chain_reach c d ch"
  shows "\<exists>r. output_by_hash c d h ch = Some r \<and> (r \<noteq> None \<longleftrightarrow> contains_output h ch) \<and>
    (\<forall>o'. r = Some o' \<longrightarrow> output_digest c o' = h)"
proof (cases "mv_get (outputs_index ch) h")
  case None
  then show ?thesis by (simp add: output_by_hash_def output_by_hash_with_proof_def contains_output_def)
next
  case (Some key)
  then have "(h, key) \<in> set (mv_map (outputs_index ch))" by (auto simp: mv_get_def dest: map_of_SomeD)
  then have "found c d ch h key"
    using chain_reach_inv [OF assms] chain_invD(9) [of c d ch] by (auto simp: snapshot_ok_def utxo_ok_def)
  then show ?thesis
    using Some by (auto simp: found_def output_by_hash_def output_by_hash_with_proof_def contains_output_def)
qed

theorem chain_outputs_found_witness:
  "\<exists>r. output_by_hash count_crypto sample_storage 174 sample_chain = Some r \<and> r \<noteq> None"
proof -
  have "contains_output 174 sample_chain" by (simp add: contains_output_def chain_simps mv_get_def sample_digests)
  then show ?thesis using chain_outputs_found [OF sample_storage_laws sample_reach(1), of 174] by auto
qed

text \<open>
  C10: the cache of macro blocks is coherent. In a reachable chain a macro block found in the
  cache is the one on the disk, and the macro block of every finished epoch is found.
\<close>

theorem chain_cache_coherent:
  assumes "storage_laws d" "chain_reach c d ch"
  shows "(get_block_cached e ch = Some b \<longrightarrow>
      db_get d (database ch) (block_key (LSN e MACRO_BLOCK_OFFSET)) = Some b) \<and>
    (e < bc_epoch ch \<longrightarrow> (\<exists>m. macro_block d e ch = Some m \<and> ah_epoch (ab_header m) = e))"
proof -
  have ok: "cache_ok d ch" using chain_reach_inv [OF assms] by blast
  have "\<exists>m. macro_block d e ch = Some m \<and> ah_epoch (ab_header m) = e" if "e < bc_epoch ch"
    using ok that block_at_db [OF ok, of "LSN e MACRO_BLOCK_OFFSET"]
    by (auto simp: cache_ok_def macro_at_def macro_block_def word_less_nat_alt dest!: spec [of _ "unat e"])
  then show ?thesis using cached_block [OF ok] by blast
qed

theorem chain_cache_coherent_witness:
  "\<exists>m. macro_block sample_storage 0 sample_chain = Some m \<and> ah_epoch (ab_header m) = 0"
  using chain_cache_coherent [OF sample_storage_laws sample_reach(1), of 0] by (simp add: chain_simps)



end
