(* ===== verification/BlockValidation.thy ===== *)
theory BlockValidation
  imports History
begin

text \<open>
  The validation of blocks against the chain, \<open>blockchain/src/validation.rs\<close>, with the proofs
  of view changes (\<open>view_changes.rs\<close>) and of cheating (\<open>slashing.rs\<close>), and the operations that
  write a block and register it. The random serial numbers of confiscated outputs are an argument.
\<close>

section \<open>Proofs of a view change\<close>

record ChainInfo =
  ci_epoch :: u64
  ci_offset :: u32
  ci_view_change :: u32
  ci_last_block :: hash

definition from_micro_block :: "'f MicroBlock \<Rightarrow> ChainInfo option" where
  "from_micro_block b =
     (let h = mb_header b
      in if mh_view_change h = 0 then None
         else Some \<lparr>ci_epoch = mh_epoch h, ci_offset = mh_offset h, ci_view_change = mh_view_change h - 1,
                    ci_last_block = mh_previous h\<rparr>)"

definition from_blockchain :: "('g, 'f, 'd) Blockchain \<Rightarrow> ChainInfo option" where
  "from_blockchain ch =
     map_option (\<lambda>vc. \<lparr>ci_epoch = bc_epoch ch, ci_offset = bc_offset ch, ci_view_change = vc,
                        ci_last_block = last_block_hash ch\<rparr>)
       (view_change ch)"

definition hash_ChainInfo :: "ChainInfo \<Rightarrow> bytes" where
  "hash_ChainInfo i =
     hash_u64 (ci_epoch i) @ hash_u32 (ci_offset i) @ hash_u32 (ci_view_change i) @ hash_hash (ci_last_block i)"

text \<open>
  A sum of signatures that do not decode is \<open>G1None\<close>, on which encoding the proof panics; the
  model panics here.
\<close>

definition ViewChangeProof_new ::
  "('g, 'f) crypto \<Rightarrow> (u32 \<times> pbc_sig) list \<Rightarrow> nat \<Rightarrow> ViewChangeProof option" where
  "ViewChangeProof_new c signatures validators_len =
     Option.bind (create_multi_signature_index c signatures validators_len) (\<lambda>(sig, bits).
       map_option (\<lambda>sig. \<lparr>multimap = bits, multisig = sig\<rparr>) sig)"

definition validate_ViewChangeProof ::
  "('g, 'f) crypto \<Rightarrow> ViewChangeProof \<Rightarrow> ChainInfo \<Rightarrow> ('g, 'f, 'd) Blockchain \<Rightarrow>
     (MultisignatureError, unit) outcome" where
  "validate_ViewChangeProof c p i ch =
     obind (or_panic (election_result_by_offset (ci_offset i) ch)) (\<lambda>er.
       check_multi_signature c (digest c (hash_ChainInfo i)) (Some (multisig p)) (multimap p)
         (er_validators er) (total_slots ch))"

section \<open>Proofs of cheating\<close>

fun map_err :: "('e \<Rightarrow> 'd) \<Rightarrow> ('e, 'a) outcome \<Rightarrow> ('d, 'a) outcome" where
  "map_err f (Ok x) = Ok x"
| "map_err f (Err e) = Err (f e)"
| "map_err f Panic = Panic"

definition slashErr :: "SlashingError \<Rightarrow> (BlockchainError, 'a) outcome" where
  "slashErr e = Err (of_SlashingError e)"

definition validate_SlashingProof ::
  "('g, 'f) crypto \<Rightarrow> 'f SlashingProof \<Rightarrow> ('g, 'f, 'd) Blockchain \<Rightarrow> (BlockchainError, unit) outcome" where
  "validate_SlashingProof c p ch =
     (let h1 = mb_header (block1 p); h2 = mb_header (block2 p);
          block1_hash = digest c (hash_MicroBlock (block1 p));
          block2_hash = digest c (hash_MicroBlock (block2 p))
      in if mh_epoch h1 \<noteq> mh_epoch h2 then slashErr (DifferentEpoch (mh_epoch h1) (mh_epoch h2))
         else if mh_offset h1 \<noteq> mh_offset h2 then slashErr (DifferentOffset (mh_offset h1) (mh_offset h2))
         else if mh_epoch h1 \<noteq> bc_epoch ch then slashErr (InvalidProofEpoch (mh_epoch h1) (bc_epoch ch))
         else if mh_previous h1 \<noteq> mh_previous h2 then slashErr (DifferentHistory (mh_previous h1) (mh_previous h2))
         else if mh_view_change h1 \<noteq> mh_view_change h2
         then slashErr (DifferentLeader (mh_view_change h1) (mh_view_change h2))
         else if block1_hash = block2_hash
         then slashErr (BlockWithoutConflicts (mh_epoch h1) (mh_offset h1) block1_hash)
         else
           obind (or_panic (election_result_by_offset (mh_offset h1) ch)) (\<lambda>er.
           obind (or_panic (select_leader c er (mh_view_change h1))) (\<lambda>leader.
           obind (map_err BlockchainError.CryptoError (check_hash c block1_hash (Some (mb_sig (block1 p))) (Some leader))) (\<lambda>_.
             map_err BlockchainError.CryptoError (check_hash c block2_hash (Some (mb_sig (block2 p))) (Some leader))))))"

text \<open>
  The stake of the cheater is shared among the other validators; the remainder goes to the
  validator that makes the transaction.
\<close>

definition confiscated ::
  "u64 \<Rightarrow> (hash \<times> i64 \<times> b32 \<times> u64) list \<Rightarrow> hash list \<times> i64" where
  "confiscated epoch vs =
     fold (\<lambda>(h, amount, _, active_until) (result, stake).
             if active_until \<ge> epoch then (result @ [h], stake + amount) else (result, stake))
       vs ([], 0)"

fun confiscate_outputs ::
  "(nat \<Rightarrow> i64) \<Rightarrow> pbc_pkey \<Rightarrow> i64 \<Rightarrow> i64 \<Rightarrow> Escrow \<Rightarrow> nat \<Rightarrow> pbc_pkey list \<Rightarrow> Output list option" where
  "confiscate_outputs sernos our_key piece change e i [] = Some []"
| "confiscate_outputs sernos our_key piece change e i (v # vs) =
     Option.bind (account_by_network_key v e) (\<lambda>key.
       map_option (\<lambda>outputs. PublicPaymentOutput
           \<lparr>pp_recipient = key, pp_serno = sernos i, pp_amount = (if v = our_key then piece + change else piece)\<rparr>
           # outputs)
         (confiscate_outputs sernos our_key piece change e (i + 1) vs))"

definition confiscate_tx ::
  "('g, 'f) crypto \<Rightarrow> (nat \<Rightarrow> i64) \<Rightarrow> pbc_pkey \<Rightarrow> 'f SlashingProof \<Rightarrow> ('g, 'f, 'd) Blockchain \<Rightarrow>
     (BlockchainError, 'f SlashingTransaction) outcome" where
  "confiscate_tx c sernos our_key p ch =
     (if mh_pkey (mb_header (block1 p)) \<noteq> mh_pkey (mb_header (block2 p)) then Panic
      else
        let cheat = mh_pkey (mb_header (block1 p));
            (inputs, stake) = confiscated (bc_epoch ch) (iter_validator_stakes cheat (escrow ch))
        in obind (or_panic (validators ch)) (\<lambda>group.
           let vs = filter (\<lambda>k. k \<noteq> cheat) (map fst group)
           in if vs = [] then slashErr (LastValidator cheat)
              else if inputs = [] then slashErr (NotValidator cheat)
              else
                obind (validate_SlashingProof c p ch) (\<lambda>_.
                  if \<not> 0 <s stake then Panic
                  else
                    let piece = i64_div stake (of_nat (length vs));
                        change = i64_rem stake (of_nat (length vs))
                    in obind (or_panic (confiscate_outputs sernos our_key piece change (escrow ch) 0 vs))
                         (\<lambda>outputs. Ok (MkSlashing p inputs outputs)))))"

fun same_txouts :: "('g, 'f) crypto \<Rightarrow> hash \<Rightarrow> (Output \<times> Output) list \<Rightarrow> (BlockchainError, unit) outcome" where
  "same_txouts c tx_hash [] = Ok ()"
| "same_txouts c tx_hash ((PublicPaymentOutput o1, PublicPaymentOutput o2) # rest) =
     (if \<not> pt_eq c (PtCmpr (pp_recipient o1)) (PtCmpr (pp_recipient o2)) \<or> pp_amount o1 \<noteq> pp_amount o2
      then slashErr (IncorrectTxins tx_hash)
      else same_txouts c tx_hash rest)"
| "same_txouts c tx_hash (_ # rest) = slashErr (IncorrectTxouts tx_hash)"

definition validate_SlashingTransaction ::
  "('g, 'f) crypto \<Rightarrow> (nat \<Rightarrow> i64) \<Rightarrow> 'f SlashingTransaction \<Rightarrow> pbc_pkey \<Rightarrow> ('g, 'f, 'd) Blockchain \<Rightarrow>
     (BlockchainError, unit) outcome" where
  "validate_SlashingTransaction c sernos tx leader ch =
     obind (validate_SlashingProof c (st_proof tx) ch) (\<lambda>_.
     obind (confiscate_tx c sernos leader (st_proof tx) ch) (\<lambda>tx'.
       let tx_hash = digest c (hash_SlashingTransaction tx)
       in if st_txins tx' \<noteq> st_txins tx then slashErr (IncorrectTxins tx_hash)
          else same_txouts c tx_hash (zip (st_txouts tx') (st_txouts tx))))"

section \<open>Micro blocks\<close>

definition validate_block_timestamp ::
  "u64 \<Rightarrow> hash \<Rightarrow> Timestamp \<Rightarrow> Timestamp \<Rightarrow> ('g, 'f, 'd) Blockchain \<Rightarrow> (BlockchainError, unit) outcome" where
  "validate_block_timestamp epoch block_hash block_timestamp timestamp ch =
     (if block_timestamp \<le> last_block_timestamp ch
      then blockErr (OutdatedBlock epoch block_hash block_timestamp (last_block_timestamp ch))
      else if block_timestamp \<ge> timestamp \<and> block_timestamp - timestamp > vetted_timestamp_delta (bc_cfg ch)
      then blockErr (OutOfSyncTimestamp epoch block_hash block_timestamp timestamp)
      else Ok ())"

text \<open>
  The loops of \<open>validate_micro_block_tx\<close>, with the inputs claimed and the outputs made by the
  transactions before.
\<close>

fun resolve_inputs ::
  "('g, 'f) crypto \<Rightarrow> ('d, 'f) storage \<Rightarrow> ('g, 'f, 'd) Blockchain \<Rightarrow> hash \<Rightarrow> hash list \<Rightarrow> hash set \<Rightarrow> Output list \<Rightarrow>
     (BlockchainError, hash set \<times> Output list) outcome" where
  "resolve_inputs c d ch tx_hash [] inputs_set inputs = Ok (inputs_set, inputs)"
| "resolve_inputs c d ch tx_hash (input_hash # hs) inputs_set inputs =
     obind (or_panic (output_by_hash c d input_hash ch)) (\<lambda>r.
       case r of
         None \<Rightarrow> txErr (MissingInput tx_hash input_hash)
       | Some input \<Rightarrow>
           if input_hash \<in> inputs_set then txErr (DuplicateInput tx_hash input_hash)
           else resolve_inputs c d ch tx_hash hs (insert input_hash inputs_set) (inputs @ [input]))"

fun claim_outputs ::
  "('g, 'f) crypto \<Rightarrow> ('g, 'f, 'd) Blockchain \<Rightarrow> hash \<Rightarrow> Output list \<Rightarrow> (hash, Output) btree \<Rightarrow>
     (BlockchainError, (hash, Output) btree) outcome" where
  "claim_outputs c ch tx_hash [] outputs_set = Ok outputs_set"
| "claim_outputs c ch tx_hash (output # os) outputs_set =
     (let output_hash = output_digest c output
      in if bt_get outputs_set output_hash \<noteq> None \<or> contains_output output_hash ch
         then txErr (TransactionError.OutputHashCollision tx_hash output_hash)
         else claim_outputs c ch tx_hash os (bt_put output_hash output outputs_set))"

fun validate_tx ::
  "('g::ab_group_add, 'f) crypto \<Rightarrow> (nat \<Rightarrow> i64) \<Rightarrow> 'f Transaction \<Rightarrow> Output list \<Rightarrow> pbc_pkey \<Rightarrow> ('g, 'f, 'd) Blockchain \<Rightarrow>
     (BlockchainError, unit) outcome" where
  "validate_tx c sernos (CoinbaseTransaction tx) inputs leader ch =
     (if inputs \<noteq> [] then Panic else validate_CoinbaseTransaction c tx)"
| "validate_tx c sernos (PaymentTransaction tx) inputs leader ch = validate_PaymentTransaction c tx inputs"
| "validate_tx c sernos (RestakeTransaction tx) inputs leader ch = validate_RestakeTransaction c tx inputs"
| "validate_tx c sernos (SlashingTransaction tx) inputs leader ch = validate_SlashingTransaction c sernos tx leader ch"
| "validate_tx c sernos (ServiceAwardTransaction tx) inputs leader ch = txErr UnexpectedTxType"

fun is_slashing :: "'f Transaction \<Rightarrow> bool" where
  "is_slashing (SlashingTransaction _) = True"
| "is_slashing _ = False"

definition validate_micro_block_tx ::
  "('g::ab_group_add, 'f) crypto \<Rightarrow> ('d, 'f) storage \<Rightarrow> (nat \<Rightarrow> i64) \<Rightarrow> ('g, 'f, 'd) Blockchain \<Rightarrow> pbc_pkey \<Rightarrow>
     'f Transaction \<Rightarrow> hash set \<times> (hash, Output) btree \<Rightarrow>
     (BlockchainError, hash set \<times> (hash, Output) btree) outcome" where
  "validate_micro_block_tx c d sernos ch leader tx sets =
     (case sets of (inputs_set, outputs_set) \<Rightarrow>
        let tx_hash = digest c (hash_Transaction c tx)
        in obind (resolve_inputs c d ch tx_hash (txins tx) inputs_set []) (\<lambda>(inputs_set, inputs).
           obind (claim_outputs c ch tx_hash (txouts tx) outputs_set) (\<lambda>outputs_set.
           obind (if is_slashing tx then Ok () else validate_stakes c inputs (txouts tx) (bc_epoch ch) (escrow ch)) (\<lambda>_.
           obind (validate_tx c sernos tx inputs leader ch) (\<lambda>_.
             Ok (inputs_set, outputs_set))))))"

fun is_coinbase :: "'f Transaction \<Rightarrow> bool" where
  "is_coinbase (CoinbaseTransaction _) = True"
| "is_coinbase _ = False"

fun coinbase_fee :: "'f Transaction \<Rightarrow> i64" where
  "coinbase_fee (CoinbaseTransaction tx) = cb_block_fee tx"
| "coinbase_fee _ = 0"

text \<open>The state of the loop: the two sets, the fees and the fee the coinbase claims.\<close>

fun validate_micro_block_txs ::
  "('g::ab_group_add, 'f) crypto \<Rightarrow> ('d, 'f) storage \<Rightarrow> (nat \<Rightarrow> i64) \<Rightarrow> ('g, 'f, 'd) Blockchain \<Rightarrow> pbc_pkey \<Rightarrow> hash \<Rightarrow>
     (nat \<times> 'f Transaction) list \<Rightarrow> (hash set \<times> (hash, Output) btree) \<times> i64 \<times> i64 \<Rightarrow>
     (BlockchainError, (hash set \<times> (hash, Output) btree) \<times> i64 \<times> i64) outcome" where
  "validate_micro_block_txs c d sernos ch leader block_hash [] acc = Ok acc"
| "validate_micro_block_txs c d sernos ch leader block_hash ((i, tx) # txs) (sets, fee, cb_fee) =
     (if is_coinbase tx \<and> i > 0 then blockErr (CoinbaseMustBeFirst block_hash)
      else
        obind (validate_micro_block_tx c d sernos ch leader tx sets) (\<lambda>sets.
          validate_micro_block_txs c d sernos ch leader block_hash txs
            (sets, fee + tx_fee tx, cb_fee + coinbase_fee tx)))"

fun validate_outputs :: "('g, 'f) crypto \<Rightarrow> Output list \<Rightarrow> (BlockchainError, unit) outcome" where
  "validate_outputs c [] = Ok ()"
| "validate_outputs c (o' # os) = obind (validate_Output c o') (\<lambda>_. validate_outputs c os)"

text \<open>The checks of the header that need no transaction, up to the reward.\<close>

definition validate_micro_view_change ::
  "('g, 'f) crypto \<Rightarrow> 'f MicroBlock \<Rightarrow> ('g, 'f, 'd) Blockchain \<Rightarrow> (BlockchainError, unit) outcome" where
  "validate_micro_view_change c b ch =
     (let h = mb_header b; block_hash = digest c (hash_MicroBlock b)
      in obind (or_panic (view_change ch)) (\<lambda>vc.
           if mh_view_change h < vc
           then blockErr (InvalidViewChange (mh_epoch h) block_hash (mh_view_change h) vc)
           else if mh_view_change h > 0
           then (case mh_view_change_proof h of
               Some p \<Rightarrow>
                 obind (or_panic (from_micro_block b)) (\<lambda>i.
                   map_err (\<lambda>_. BlockchainError.BlockError (InvalidViewChangeProof (mh_epoch h) p))
                     (validate_ViewChangeProof c p i ch))
             | None \<Rightarrow> blockErr (NoProofWasFound (mh_epoch h) (mh_offset h) block_hash (mh_view_change h) vc))
           else Ok ()))"

fun first_reward :: "'f Transaction list \<Rightarrow> i64 option" where
  "first_reward (CoinbaseTransaction tx # _) = Some (cb_block_reward tx)"
| "first_reward _ = None"

text \<open>The lengths and the Merkle roots of the header.\<close>

definition validate_micro_ranges ::
  "('g, 'f) crypto \<Rightarrow> 'f MicroBlock \<Rightarrow> (BlockchainError, unit) outcome" where
  "validate_micro_ranges c b =
     (let h = mb_header b; epoch = mh_epoch h; offset = mh_offset h;
          block_hash = digest c (hash_MicroBlock b)
      in if unat (mh_transactions_len h) \<noteq> length (mb_transactions b)
         then blockErr (InvalidMicroBlockTransactionsLen epoch offset block_hash
                (unat (mh_transactions_len h)) (length (mb_transactions b)))
         else
           obind (or_panic (calculate_range_hashes c (mb_transactions b))) (\<lambda>r.
             if mh_transactions_range_hash h \<noteq> transactions_range_hash r
             then blockErr (InvalidMicroBlockTransactionsHash epoch offset block_hash
                    (transactions_range_hash r) (mh_transactions_range_hash h))
             else if unat (mh_inputs_len h) \<noteq> length (input_hashes r)
             then blockErr (InvalidMicroBlockInputsLen epoch offset block_hash
                    (unat (mh_inputs_len h)) (length (input_hashes r)))
             else if mh_inputs_range_hash h \<noteq> inputs_range_hash r
             then blockErr (InvalidMicroBlockInputsHash epoch offset block_hash
                    (inputs_range_hash r) (mh_inputs_range_hash h))
             else if unat (mh_outputs_len h) \<noteq> length (output_hashes r)
             then blockErr (InvalidMicroBlockOutputsLen epoch offset block_hash
                    (unat (mh_outputs_len h)) (length (output_hashes r)))
             else if mh_outputs_range_hash h \<noteq> outputs_range_hash r
             then blockErr (InvalidMicroBlockOutputsHash epoch offset block_hash
                    (outputs_range_hash r) (mh_outputs_range_hash h))
             else if mh_canaries_range_hash h \<noteq> canaries_range_hash r
             then blockErr (InvalidMicroBlockCanariesHash epoch offset block_hash
                    (canaries_range_hash r) (mh_canaries_range_hash h))
             else Ok ()))"

definition validate_micro_header ::
  "('g, 'f) crypto \<Rightarrow> 'f MicroBlock \<Rightarrow> Timestamp \<Rightarrow> ('g, 'f, 'd) Blockchain \<Rightarrow>
     (BlockchainError, unit) outcome" where
  "validate_micro_header c b timestamp ch =
     (let h = mb_header b; epoch = mh_epoch h; offset = mh_offset h;
          block_hash = digest c (hash_MicroBlock b)
      in if mh_version h \<noteq> VERSION
         then blockErr (InvalidBlockVersion epoch block_hash (mh_version h) VERSION)
         else if is_epoch_full ch then Err (ExpectedMacroBlock (bc_epoch ch) (bc_offset ch) block_hash)
         else if epoch \<noteq> bc_epoch ch \<or> offset \<noteq> bc_offset ch
         then blockErr (OutOfOrderMicroBlock block_hash epoch offset (bc_epoch ch) (bc_offset ch))
         else if contains_block block_hash ch then blockErr (MicroBlockHashCollision epoch offset block_hash)
         else if last_block_hash ch \<noteq> mh_previous h
         then blockErr (InvalidMicroBlockPreviousHash epoch offset block_hash (mh_previous h) (last_block_hash ch))
         else
           obind (validate_micro_view_change c b ch) (\<lambda>_.
           obind (or_panic (chain_select_leader c (mh_view_change h) ch)) (\<lambda>leader.
             if leader \<noteq> mh_pkey h then blockErr (DifferentPublicKey leader (mh_pkey h))
             else if \<not> is_ok (check_hash c block_hash (Some (mb_sig b)) (Some leader))
             then blockErr (InvalidLeaderSignature epoch block_hash)
             else (case first_reward (mb_transactions b) of
                 None \<Rightarrow> blockErr (CoinbaseMustBeFirst block_hash)
               | Some reward \<Rightarrow>
                   if reward \<noteq> cfg_block_reward (bc_cfg ch)
                   then blockErr (InvalidMicroBlockReward epoch offset block_hash reward (cfg_block_reward (bc_cfg ch)))
                   else
                     obind (validate_block_timestamp epoch block_hash (mh_timestamp h) timestamp ch) (\<lambda>_.
                     obind (or_panic (last_random ch)) (\<lambda>random.
                       if \<not> is_ok (validate_VRF_source c (mh_random h) leader (mix c random (mh_view_change h)))
                       then blockErr (IncorrectRandom epoch block_hash)
                       else if \<not> vdf_verify c (be_bytes 32 random) (bc_difficulty ch) (mh_solution h)
                       then blockErr (InvalidVDFProof epoch block_hash)
                       else Ok ()))))))"

definition validate_micro_block ::
  "('g::ab_group_add, 'f) crypto \<Rightarrow> ('d, 'f) storage \<Rightarrow> (nat \<Rightarrow> i64) \<Rightarrow>
     'f MicroBlock \<Rightarrow> Timestamp \<Rightarrow> bool \<Rightarrow> ('g, 'f, 'd) Blockchain \<Rightarrow> (BlockchainError, unit) outcome" where
  "validate_micro_block c d sernos b timestamp validate_utxo ch =
     (let h = mb_header b; block_hash = digest c (hash_MicroBlock b)
      in obind (validate_micro_header c b timestamp ch) (\<lambda>_.
         obind (validate_micro_ranges c b) (\<lambda>_.
         obind (validate_micro_block_txs c d sernos ch (mh_pkey h) block_hash (enumerate 0 (mb_transactions b))
                  (({}, []), 0, 0)) (\<lambda>((_, outputs_set), fee, cb_fee).
           if cb_fee \<noteq> fee
           then blockErr (InvalidMicroBlockFee (mh_epoch h) (mh_offset h) block_hash fee cb_fee)
           else if validate_utxo then validate_outputs c (map snd outputs_set)
           else Ok ()))))"

section \<open>Macro blocks\<close>

definition validate_macro_block_basic ::
  "('g, 'f) crypto \<Rightarrow> hash \<Rightarrow> 'f MacroBlockHeader \<Rightarrow> Timestamp \<Rightarrow> ('g, 'f, 'd) Blockchain \<Rightarrow>
     (BlockchainError, unit) outcome" where
  "validate_macro_block_basic c block_hash h timestamp ch =
     (let epoch = ah_epoch h
      in if ah_version h \<noteq> VERSION
         then blockErr (InvalidBlockVersion epoch block_hash (ah_version h) VERSION)
         else if epoch \<noteq> bc_epoch ch then blockErr (OutOfOrderMacroBlock block_hash epoch (bc_epoch ch))
         else if contains_block block_hash ch then blockErr (MacroBlockHashCollision epoch block_hash)
         else if last_macro_block_hash ch \<noteq> ah_previous h
         then blockErr (InvalidMacroBlockPreviousHash epoch block_hash (ah_previous h) (last_macro_block_hash ch))
         else
           obind (validate_block_timestamp epoch block_hash (ah_timestamp h) timestamp ch) (\<lambda>_.
             if epoch > 0 \<and> ah_difficulty h \<noteq> bc_difficulty ch
             then blockErr (UnexpectedVDFComplexity epoch block_hash (bc_difficulty ch) (ah_difficulty h))
             else if \<not> is_ok (validate_VRF_source c (ah_random h) (ah_pkey h)
                               (mix c (last_macro_block_random ch) (ah_view_change h)))
             then blockErr (IncorrectRandom epoch block_hash)
             else Ok ()))"

text \<open>\<open>validate_macro_block\<close>, the rewards.\<close>

definition validate_macro_reward ::
  "hash \<Rightarrow> 'f MacroBlockHeader \<Rightarrow> ('g, 'f, 'd) Blockchain \<Rightarrow> (BlockchainError, unit) outcome" where
  "validate_macro_reward block_hash h ch =
     (if ah_epoch h > 0
      then
        obind (epoch_activity_from_macro_block (ah_activity_map h) ch) (\<lambda>activity.
        obind (or_panic (finalize_epoch (service_award_per_epoch (bc_cfg ch)) activity (bc_awards ch))) (\<lambda>awards.
        obind (or_panic (check_winners (vrf_random (ah_random h)) awards)) (\<lambda>(winner, _).
          let full_reward = epoch_reward (bc_cfg ch) winner
          in if ah_block_reward h \<noteq> full_reward
             then blockErr (InvalidMacroBlockReward (ah_epoch h) block_hash (ah_block_reward h) full_reward)
             else Ok ())))
      else Ok ())"

text \<open>A wrong number of outputs is reported as a wrong number of inputs.\<close>

definition validate_macro_ranges ::
  "('g, 'f) crypto \<Rightarrow> 'f MacroBlock \<Rightarrow> (BlockchainError, unit) outcome" where
  "validate_macro_ranges c b =
     (let h = ab_header b; epoch = ah_epoch h; block_hash = macro_digest c b
      in if unat (ah_outputs_len h) \<noteq> length (ab_outputs b)
         then blockErr (InvalidMacroBlockInputsLen epoch block_hash (unat (ah_outputs_len h)) (length (ab_inputs b)))
         else
           obind (or_panic (merkle_root c (map (output_digest c) (ab_outputs b)))) (\<lambda>outputs_root.
             if ah_outputs_range_hash h \<noteq> outputs_root
             then blockErr (InvalidMacroBlockOutputsHash epoch block_hash outputs_root (ah_outputs_range_hash h))
             else
               obind (or_panic (canary_digests c (ab_outputs b))) (\<lambda>canaries.
               obind (or_panic (merkle_root c canaries)) (\<lambda>canaries_root.
                 if ah_canaries_range_hash h \<noteq> canaries_root
                 then blockErr (InvalidMacroBlockCanariesHash epoch block_hash canaries_root (ah_canaries_range_hash h))
                 else
                   obind (validate_outputs c (ab_outputs b)) (\<lambda>_.
                     if unat (ah_inputs_len h) \<noteq> length (ab_inputs b)
                     then blockErr (InvalidMacroBlockInputsLen epoch block_hash (unat (ah_inputs_len h)) (length (ab_inputs b)))
                     else
                       obind (or_panic (merkle_root c (ab_inputs b))) (\<lambda>inputs_root.
                         if ah_inputs_range_hash h \<noteq> inputs_root
                         then blockErr (InvalidMacroBlockInputsHash epoch block_hash inputs_root (ah_inputs_range_hash h))
                         else Ok ()))))))"

fun resolve_macro_inputs ::
  "('g, 'f) crypto \<Rightarrow> ('d, 'f) storage \<Rightarrow> ('g, 'f, 'd) Blockchain \<Rightarrow> u64 \<Rightarrow> hash \<Rightarrow> (hash, Output) btree \<Rightarrow> hash list \<Rightarrow>
     (BlockchainError, Output list) outcome" where
  "resolve_macro_inputs c d ch epoch block_hash outputs [] = Ok []"
| "resolve_macro_inputs c d ch epoch block_hash outputs (input_hash # hs) =
     obind (case bt_get outputs input_hash of
         Some input \<Rightarrow> Ok input
       | None \<Rightarrow>
           obind (or_panic (output_by_hash c d input_hash ch)) (\<lambda>r.
             case r of
               Some input \<Rightarrow> Ok input
             | None \<Rightarrow> blockErr (MissingBlockInput epoch block_hash input_hash))) (\<lambda>input.
     obind (resolve_macro_inputs c d ch epoch block_hash outputs hs) (\<lambda>inputs. Ok (input # inputs)))"

definition validate_macro_block ::
  "('g::ab_group_add, 'f) crypto \<Rightarrow> ('d, 'f) storage \<Rightarrow> 'f MacroBlock \<Rightarrow> Timestamp \<Rightarrow> ('g, 'f, 'd) Blockchain \<Rightarrow>
     (BlockchainError, unit) outcome" where
  "validate_macro_block c d b timestamp ch =
     (let h = ab_header b; epoch = ah_epoch h; block_hash = macro_digest c b
      in if bc_epoch ch \<noteq> epoch \<or> bc_offset ch \<noteq> 0 then Panic
         else
           obind (if epoch > 0
             then obind (or_panic (validators_at_epoch_start ch)) (\<lambda>vs.
               map_err (\<lambda>e. BlockchainError.BlockError (InvalidBlockSignature e epoch block_hash))
                 (check_multi_signature c block_hash (ab_multisig b) (ab_multisigmap b) vs (total_slots ch)))
             else Ok ()) (\<lambda>_.
           obind (validate_macro_block_basic c block_hash h timestamp ch) (\<lambda>_.
           obind (validate_macro_reward block_hash h ch) (\<lambda>_.
           obind (validate_macro_ranges c b) (\<lambda>_.
           let outputs = fold (\<lambda>o'. bt_put (output_digest c o') o') (ab_outputs b) []
           in obind (resolve_macro_inputs c d ch epoch block_hash outputs (ab_inputs b)) (\<lambda>inputs.
                validate_balance c b inputs))))))"

text \<open>
  \<open>validate_proposed_macro_block\<close>: the award transaction must pay the winner, and the block
  rebuilt from the transactions must have the proposed hash.
\<close>

definition validate_award_tx ::
  "('g, 'f) crypto \<Rightarrow> hash \<Rightarrow> b32 \<Rightarrow> i64 \<Rightarrow> 'f Transaction option \<Rightarrow> (BlockchainError, unit) outcome" where
  "validate_award_tx c block_hash k reward tx =
     (case tx of
        Some (ServiceAwardTransaction tx) \<Rightarrow>
          (case winner_reward tx of
             [PublicPaymentOutput out] \<Rightarrow>
               if \<not> pt_eq c (PtCmpr (pp_recipient out)) (PtCmpr k)
               then blockErr (AwardDifferentWinner block_hash (pp_recipient out) k)
               else if pp_amount out \<noteq> reward
               then blockErr (AwardDifferentReward block_hash (pp_amount out) reward)
               else Ok ()
           | [_] \<Rightarrow> blockErr (AwardDifferentOutputType block_hash)
           | rewards \<Rightarrow> blockErr (AwardMoreThanOneWinner block_hash (length rewards)))
      | _ \<Rightarrow> blockErr (NoServiceAwardTx block_hash))"

definition validate_proposed_coinbase ::
  "('g::ab_group_add, 'f) crypto \<Rightarrow> u64 \<Rightarrow> hash \<Rightarrow> 'f Transaction list \<Rightarrow> ChainConfig \<Rightarrow> (BlockchainError, unit) outcome" where
  "validate_proposed_coinbase c epoch block_hash transactions cfg =
     (case transactions of
        CoinbaseTransaction tx # _ \<Rightarrow>
          obind (validate_CoinbaseTransaction c tx) (\<lambda>_.
            if cb_block_reward tx \<noteq> cfg_block_reward cfg
            then blockErr (InvalidMacroBlockReward epoch block_hash (cb_block_reward tx) (cfg_block_reward cfg))
            else if cb_block_fee tx \<noteq> 0 then blockErr (InvalidMacroBlockFee epoch block_hash (cb_block_fee tx) 0)
            else Ok ())
      | _ \<Rightarrow> blockErr (CoinbaseMustBeFirst block_hash))"

definition validate_proposed_macro_block ::
  "('g::ab_group_add, 'f::comm_ring_1) crypto \<Rightarrow> ('d, 'f) storage \<Rightarrow> Timestamp \<Rightarrow> u32 \<Rightarrow> hash \<Rightarrow> 'f MacroBlockHeader \<Rightarrow>
     'f Transaction list \<Rightarrow> ('g, 'f, 'd) Blockchain \<Rightarrow> (BlockchainError, 'f MacroBlock) outcome" where
  "validate_proposed_macro_block c d now vc block_hash h transactions ch =
     (let epoch = ah_epoch h; cfg = bc_cfg ch
      in if epoch \<noteq> bc_epoch ch then blockErr (InvalidBlockEpoch epoch (bc_epoch ch))
         else if \<not> is_epoch_full ch then Panic
         else if ah_view_change h > vc then blockErr (OutOfSyncViewChange epoch block_hash (ah_view_change h) vc)
         else
           obind (or_panic (validators_at_epoch_start ch)) (\<lambda>start.
             if length (ah_activity_map h) \<noteq> length start
             then blockErr (TooBigActivitymap (length (ah_activity_map h)) (length start))
             else
               obind (validate_macro_block_basic c block_hash h now ch) (\<lambda>_.
               obind (or_panic (awards_from_active_epoch (ah_random h) ch)) (\<lambda>(activity_map, winner).
               obind (validate_proposed_coinbase c epoch block_hash transactions cfg) (\<lambda>_.
               obind (case winner of
                   None \<Rightarrow> Ok ()
                 | Some (k, reward) \<Rightarrow> validate_award_tx c block_hash k reward (nth_opt transactions 1)) (\<lambda>_.
               let tx_len = (if winner = None then 1 else 2)
               in if length transactions > tx_len then blockErr (InvalidBlockBalance epoch block_hash)
                  else
                    obind (or_panic (epoch_transactions
                      (take (unat (micro_blocks_in_epoch cfg)) (blocks_starting d epoch 0 ch)))) (\<lambda>txs.
                    obind (or_panic (next_election_result c (ah_random h) ch)) (\<lambda>er.
                    obind (map_err BlockchainError.TransactionError
                      (from_transactions c (ah_previous h) epoch (ah_view_change h) (ah_pkey h) (ah_random h)
                         (ah_difficulty h) (ah_timestamp h) (epoch_reward cfg winner) activity_map
                         (er_validators er) (transactions @ txs))) (\<lambda>b.
                      if block_hash \<noteq> macro_digest c b
                      then blockErr (InvalidBlockProposal (ah_epoch (ab_header b)) (macro_digest c b) block_hash)
                      else Ok b)))))))))"

section \<open>Adding blocks\<close>

datatype ConsistencyCheck = NoCheck | LoadChain | Incoming | Full

fun check_level :: "ConsistencyCheck \<Rightarrow> nat" where
  "check_level NoCheck = 0"
| "check_level LoadChain = 1"
| "check_level Incoming = 2"
| "check_level Full = 3"

text \<open>The level of checks is a field of the chain in the code. \<open>None\<close> is a panic.\<close>

definition push_micro_block ::
  "('g::ab_group_add, 'f::{plus, zero}) crypto \<Rightarrow> ('d, 'f) storage \<Rightarrow>
     (nat \<Rightarrow> i64) \<Rightarrow> ConsistencyCheck \<Rightarrow> 'f MicroBlock \<Rightarrow> Timestamp \<Rightarrow> ('g, 'f, 'd) Blockchain \<Rightarrow>
     ((hash list \<times> (hash, Output) btree \<times> (hash, 'f Transaction) btree) \<times> ('g, 'f, 'd) Blockchain) option" where
  "push_micro_block c d sernos check b timestamp ch =
     (if bc_epoch ch \<noteq> mh_epoch (mb_header b) \<or> bc_offset ch \<noteq> mh_offset (mb_header b) then None
      else if check_level check \<ge> check_level Incoming \<and>
              validate_micro_block c d sernos b timestamp True ch \<noteq> Ok () then None
      else
        let lsn = LSN (bc_epoch ch) (bc_offset ch)
        in register_micro_block c d lsn b
             (ch\<lparr>database := db_put d (block_key lsn) (MicroBlock b) (database ch)\<rparr>))"

definition push_macro_block ::
  "('g::ab_group_add, 'f::{plus, zero}) crypto \<Rightarrow> ('d, 'f) storage \<Rightarrow> ConsistencyCheck \<Rightarrow> 'f MacroBlock \<Rightarrow> Timestamp \<Rightarrow>
     ('g, 'f, 'd) Blockchain \<Rightarrow> ((hash list \<times> (hash, Output) btree) \<times> ('g, 'f, 'd) Blockchain) option" where
  "push_macro_block c d check b timestamp ch =
     (if bc_epoch ch \<noteq> ah_epoch (ab_header b) \<or> bc_offset ch \<noteq> 0 then None
      else if check_level check \<ge> check_level Incoming \<and> validate_macro_block c d b timestamp ch \<noteq> Ok () then None
      else
        let lsn = LSN (bc_epoch ch) MACRO_BLOCK_OFFSET
        in register_macro_block c d (Some (block_key lsn, MacroBlock b)) lsn b ch)"

text \<open>Recovering a chain from the blocks on the disk, in the order of their keys.\<close>

definition recover_block ::
  "('g::ab_group_add, 'f::{plus, zero}) crypto \<Rightarrow> ('d, 'f) storage \<Rightarrow>
     (nat \<Rightarrow> i64) \<Rightarrow> ConsistencyCheck \<Rightarrow> Timestamp \<Rightarrow> 'f Block \<Rightarrow> ('g, 'f, 'd) Blockchain \<Rightarrow>
     (BlockchainError, ('g, 'f, 'd) Blockchain) outcome" where
  "recover_block c d sernos check timestamp block ch =
     (case block of
        MicroBlock b \<Rightarrow>
          obind (if check = Full then validate_micro_block c d sernos b timestamp True ch else Ok ()) (\<lambda>_.
          obind (or_panic (register_micro_block c d (LSN (mh_epoch (mb_header b)) (mh_offset (mb_header b))) b ch))
            (\<lambda>(_, ch). Ok ch))
      | MacroBlock b \<Rightarrow>
          obind (if check = Full then validate_macro_block c d b timestamp ch else Ok ()) (\<lambda>_.
          obind (or_panic (register_macro_block c d None (LSN (ah_epoch (ab_header b)) MACRO_BLOCK_OFFSET) b ch))
            (\<lambda>(_, ch). Ok ch)))"

fun recover_blocks ::
  "('g::ab_group_add, 'f::{plus, zero}) crypto \<Rightarrow> ('d, 'f) storage \<Rightarrow>
     (nat \<Rightarrow> i64) \<Rightarrow> ConsistencyCheck \<Rightarrow> Timestamp \<Rightarrow> 'f Block list \<Rightarrow> ('g, 'f, 'd) Blockchain \<Rightarrow>
     (BlockchainError, ('g, 'f, 'd) Blockchain) outcome" where
  "recover_blocks c d sernos check timestamp [] ch = Ok ch"
| "recover_blocks c d sernos check timestamp (b # bs) ch =
     obind (recover_block c d sernos check timestamp b ch)
       (recover_blocks c d sernos check timestamp bs)"

definition try_recover_blocks ::
  "('g::ab_group_add, 'f::{plus, zero}) crypto \<Rightarrow> ('d, 'f) storage \<Rightarrow>
     (nat \<Rightarrow> i64) \<Rightarrow> hash \<Rightarrow> ConsistencyCheck \<Rightarrow> Timestamp \<Rightarrow> ('g, 'f, 'd) Blockchain \<Rightarrow>
     (BlockchainError, bool \<times> ('g, 'f, 'd) Blockchain) outcome" where
  "try_recover_blocks c d sernos genesis_hash check timestamp ch =
     (case db_from d (database ch) [] of
        [] \<Rightarrow> Ok (False, ch)
      | block # blocks \<Rightarrow>
          obind (recover_block c d sernos check timestamp block ch) (\<lambda>ch.
            if genesis_hash \<noteq> last_block_hash ch then Err (IncompatibleGenesis genesis_hash (last_block_hash ch))
            else
              obind (recover_blocks c d sernos check timestamp blocks ch) (\<lambda>ch. Ok (True, ch))))"

section \<open>Slashing\<close>

text \<open>What the comparison of outputs accepts.\<close>

fun same_payment :: "('g, 'f) crypto \<Rightarrow> Output \<times> Output \<Rightarrow> bool" where
  "same_payment c (PublicPaymentOutput o1, PublicPaymentOutput o2) \<longleftrightarrow>
     pt_eq c (PtCmpr (pp_recipient o1)) (PtCmpr (pp_recipient o2)) \<and> pp_amount o1 = pp_amount o2"
| "same_payment c _ \<longleftrightarrow> False"

lemma same_txouts_iff: "same_txouts c h ps = Ok () \<longleftrightarrow> (\<forall>p \<in> set ps. same_payment c p)"
  by (induction c h ps rule: same_txouts.induct) (auto simp: slashErr_def)

lemma validate_slashing_iff:
  "validate_SlashingTransaction c sernos (MkSlashing p ins outs) leader ch = Ok () \<longleftrightarrow>
   validate_SlashingProof c p ch = Ok () \<and>
   (\<exists>tx. confiscate_tx c sernos leader p ch = Ok tx \<and> st_txins tx = ins \<and>
      (\<forall>p \<in> set (zip (st_txouts tx) outs). same_payment c p))"
  by (auto simp: validate_SlashingTransaction_def outcome_simps Let_def slashErr_def same_txouts_iff split: if_splits)

lemma zip_take_subset: "set (zip xs (take n ys)) \<subseteq> set (zip xs ys)"
  by (auto simp: set_zip)

definition headers_conflict :: "MicroBlockHeader \<Rightarrow> MicroBlockHeader \<Rightarrow> bool" where
  "headers_conflict h1 h2 \<longleftrightarrow> mh_epoch h1 = mh_epoch h2 \<and> mh_offset h1 = mh_offset h2 \<and>
     mh_previous h1 = mh_previous h2 \<and> mh_view_change h1 = mh_view_change h2"

lemma confiscate_outputs_total:
  assumes "\<forall>v \<in> set vs. \<exists>a x. account_by_network_key v e = Some a \<and> decompress c a = Some x"
  shows "\<exists>outs. confiscate_outputs sernos our piece change e i vs = Some outs \<and> (\<forall>o' \<in> set outs. same_payment c (o', o'))"
  using assms
proof (induction vs arbitrary: i)
  case (Cons v vs)
  obtain a x where "account_by_network_key v e = Some a" "decompress c a = Some x" using Cons.prems by auto
  moreover obtain outs where "confiscate_outputs sernos our piece change e (i + 1) vs = Some outs" "\<forall>o' \<in> set outs. same_payment c (o', o')"
    using Cons by fastforce
  ultimately show ?case by auto
qed simp

lemma framed_slashing:
  assumes "election_result_by_offset (mh_offset h1) ch = Some er" "select_leader c er (mh_view_change h1) = Some leader"
    and "headers_conflict h1 h2" "mh_epoch h1 = bc_epoch ch" "mh_pkey h1 = victim" "mh_pkey h2 = victim"
    and "digest c (hash_MicroBlockHeader h1) \<noteq> digest c (hash_MicroBlockHeader h2)"
    and "check_hash c (digest c (hash_MicroBlockHeader h1)) (Some s1) (Some leader) = Ok ()"
    and "check_hash c (digest c (hash_MicroBlockHeader h2)) (Some s2) (Some leader) = Ok ()"
    and "validators ch = Some vs" "\<exists>v \<in> fst ` set vs. v \<noteq> victim"
    and "\<forall>v \<in> fst ` set vs. \<exists>a x. account_by_network_key v (escrow ch) = Some a \<and> decompress c a = Some x"
    and "confiscated (bc_epoch ch) (iter_validator_stakes victim (escrow ch)) = (inputs, amount)" "inputs \<noteq> []" "0 <s amount"
  shows "\<exists>outs. validate_SlashingTransaction c sernos
      (MkSlashing (MkProof (MkMicro h1 s1 t1) (MkMicro h2 s2 t2)) inputs outs) our_key ch = Ok ()"
proof -
  let ?p = "MkProof (MkMicro h1 s1 t1) (MkMicro h2 s2 t2)" and ?vs = "filter (\<lambda>k. k \<noteq> victim) (map fst vs)"
  have proof_ok: "validate_SlashingProof c ?p ch = Ok ()"
    using assms(1-9) by (simp add: validate_SlashingProof_def headers_conflict_def hash_MicroBlock_def Let_def)
  have "?vs \<noteq> []" using assms(11) by (auto simp: filter_empty_conv)
  moreover obtain outs where "confiscate_outputs sernos our_key (i64_div amount (of_nat (length ?vs)))
      (i64_rem amount (of_nat (length ?vs))) (escrow ch) 0 ?vs = Some outs" and outs: "\<forall>o' \<in> set outs. same_payment c (o', o')"
    using confiscate_outputs_total [of ?vs "escrow ch" c] assms(12) by fastforce
  ultimately have "confiscate_tx c sernos our_key ?p ch = Ok (MkSlashing ?p inputs outs)"
    using assms proof_ok by (simp add: confiscate_tx_def Let_def)
  moreover have "\<forall>p \<in> set (zip outs outs). same_payment c p"
    using outs by (auto simp: set_zip simp del: same_payment.simps)
  ultimately show ?thesis using proof_ok unfolding validate_slashing_iff by fastforce
qed

definition staked_chain :: "(8 word, 8 word, (bytes, 8 word Block) btree) Blockchain" where
  "staked_chain = sample_chain\<lparr>escrow := \<lparr>mv_map =
     [(EscrowKey 7 sample_hash, \<lparr>ev_account_pkey = 9, active_until_epoch = 2, ev_amount = 10\<rparr>),
      (EscrowKey 8 1, \<lparr>ev_account_pkey = 11, active_until_epoch = 2, ev_amount = 20\<rparr>)],
     undo = [], ckpt_lsn = LSN 0 MACRO_BLOCK_OFFSET\<rparr>\<rparr>"

definition framed_header :: "bytes \<Rightarrow> MicroBlockHeader" where
  "framed_header solution = (mb_header sample_micro)\<lparr>mh_pkey := 8, mh_solution := solution\<rparr>"

lemma framed_simps:
  "mh_epoch (framed_header x) = 1" "mh_offset (framed_header x) = 0" "mh_view_change (framed_header x) = 0"
  "mh_pkey (framed_header x) = 8" "mh_previous (framed_header x) = 446"
  by (simp_all add: framed_header_def micro_simps sample_digests)

lemma framed_length: "length (hash_MicroBlockHeader (framed_header x)) = 396 + length x"
  by (simp add: framed_header_def sample_micro_def hash_MicroBlockHeader_def hash_str_def str_bytes_def hash_pbc_PublicKey_def
    hash_VRF_def hash_G1_def)

lemma staked_simps:
  "bc_epoch staked_chain = 1" "bc_offset staked_chain = 0" "validators staked_chain = Some [(7, 1)]"
  "election_result_by_offset 0 staked_chain = Some sample_elected"
  "account_by_network_key 7 (escrow staked_chain) = Some 9"
  "iter_validator_stakes 8 (escrow staked_chain) = [(1, 20, 11, 2)]"
  by (simp_all add: staked_chain_def chain_simps validators_def election_result_def mv_get_def sample_elected
    election_result_by_offset_def rollback_here prev_lsn_def current_lsn_def account_by_network_key_def iter_validator_stakes_def
    mv_range_def bt_range_def less_eq_EscrowKey_def Let_def)

lemma count_bls: "g1_decodes count_crypto x" "g2_decodes count_crypto y" "bls_verify count_crypto pk h s \<longleftrightarrow> s = ucast pk * ucast h"
  by (simp_all add: count_crypto_def sample_crypto_def)

lemma framed_accepted:
  "\<exists>outs. validate_SlashingTransaction count_crypto sernos
      (MkSlashing (MkProof (MkMicro (framed_header []) 2772 []) (MkMicro (framed_header [0]) 2779 [])) [1] outs) 7 staked_chain = Ok ()"
  using framed_slashing [of "framed_header []" staked_chain sample_elected count_crypto 7 "framed_header [0]" 8 2772 2779
      "[(7, 1)]" "[1]" 20 sernos "[]" "[]" 7]
  by (simp add: framed_simps framed_length staked_simps pushed_leader headers_conflict_def check_hash_Ok_iff confiscated_def
    signed_simps count_bls)

section \<open>Properties\<close>

text \<open>
  C30: a validator is slashed for blocks of another one. Whoever leads a view can sign two
  conflicting headers that carry the key of a victim; the proof is accepted, since the key in
  the header is not compared with the leader, and a transaction that spends the stakes of the
  victim, shared among the other validators, is accepted.
\<close>

theorem innocent_validator_slashed:
  assumes "election_result_by_offset (mh_offset h1) ch = Some er" "select_leader c er (mh_view_change h1) = Some leader"
    and "headers_conflict h1 h2" "mh_epoch h1 = bc_epoch ch" "mh_pkey h1 = victim" "mh_pkey h2 = victim"
    and "digest c (hash_MicroBlockHeader h1) \<noteq> digest c (hash_MicroBlockHeader h2)"
    and "check_hash c (digest c (hash_MicroBlockHeader h1)) (Some s1) (Some leader) = Ok ()"
    and "check_hash c (digest c (hash_MicroBlockHeader h2)) (Some s2) (Some leader) = Ok ()"
    and "validators ch = Some vs" "\<exists>v \<in> fst ` set vs. v \<noteq> victim"
    and "\<forall>v \<in> fst ` set vs. \<exists>a x. account_by_network_key v (escrow ch) = Some a \<and> decompress c a = Some x"
    and "confiscated (bc_epoch ch) (iter_validator_stakes victim (escrow ch)) = (inputs, amount)" "inputs \<noteq> []" "0 <s amount"
  shows "\<exists>outs. validate_SlashingTransaction c sernos
      (MkSlashing (MkProof (MkMicro h1 s1 t1) (MkMicro h2 s2 t2)) inputs outs) our_key ch = Ok ()"
  by (rule framed_slashing [OF assms])

theorem innocent_validator_slashed_witness:
  "select_leader count_crypto sample_elected 0 = Some 7 \<and>
   (\<exists>outs. validate_SlashingTransaction count_crypto (\<lambda>_. 0)
      (MkSlashing (MkProof (MkMicro (framed_header []) 2772 []) (MkMicro (framed_header [0]) 2779 [])) [1] outs) 7 staked_chain = Ok ())"
  using innocent_validator_slashed [of "framed_header []" staked_chain sample_elected count_crypto 7 "framed_header [0]" 8 2772 2779
      "[(7, 1)]" "[1]" 20 "\<lambda>_. 0" "[]" "[]" 7]
  by (simp add: framed_simps framed_length staked_simps pushed_leader headers_conflict_def check_hash_Ok_iff confiscated_def
    signed_simps count_bls)

text \<open>
  C31: the number of outputs of a slashing transaction is not checked. An accepted transaction
  stays accepted when any of its last outputs are dropped, so that the stake of the cheater is
  destroyed, and when it has all outputs and any others are appended, so that money is created.
\<close>

theorem slashing_outputs_unchecked:
  assumes "validate_SlashingTransaction c sernos (MkSlashing p ins outs) leader ch = Ok ()"
  shows "validate_SlashingTransaction c sernos (MkSlashing p ins (take n outs)) leader ch = Ok () \<and>
    (\<exists>tx. confiscate_tx c sernos leader p ch = Ok tx \<and>
      (length (st_txouts tx) \<le> length outs \<longrightarrow>
        validate_SlashingTransaction c sernos (MkSlashing p ins (outs @ extra)) leader ch = Ok ()))"
  using assms zip_take_subset [of _ n outs] unfolding validate_slashing_iff by (fastforce simp: zip_append2)

theorem slashing_outputs_unchecked_witness:
  "validate_SlashingTransaction count_crypto (\<lambda>_. 0)
      (MkSlashing (MkProof (MkMicro (framed_header []) 2772 []) (MkMicro (framed_header [0]) 2779 [])) [1] []) 7 staked_chain = Ok ()"
  using framed_accepted [of "\<lambda>_. 0"] slashing_outputs_unchecked [where n = 0] by (metis take0)

text \<open>
  C32: a slashing transaction with a proof about an offset that the chain has not reached makes
  the validating node panic. The blocks of the proof need not be signed by anybody.
\<close>

theorem future_slashing_proof_panics:
  assumes "mh_epoch (mb_header b1) = bc_epoch ch" "mh_epoch (mb_header b2) = bc_epoch ch"
    and "mh_offset (mb_header b1) = mh_offset (mb_header b2)" "bc_offset ch < mh_offset (mb_header b1)"
    and "mh_previous (mb_header b1) = mh_previous (mb_header b2)"
    and "mh_view_change (mb_header b1) = mh_view_change (mb_header b2)"
    and "digest c (hash_MicroBlock b1) \<noteq> digest c (hash_MicroBlock b2)"
  shows "validate_micro_block_tx c d sernos ch leader (SlashingTransaction (MkSlashing (MkProof b1 b2) [] [])) sets = Panic"
  using assms
  by (cases sets) (simp add: validate_micro_block_tx_def validate_SlashingTransaction_def validate_SlashingProof_def Let_def
    election_result_by_offset_def not_le)

theorem future_slashing_proof_panics_witness:
  "validate_micro_block_tx count_crypto sample_storage (\<lambda>_. 0) staked_chain 7 (SlashingTransaction (MkSlashing
     (MkProof (MkMicro ((framed_header [])\<lparr>mh_offset := 5\<rparr>) 0 []) (MkMicro ((framed_header [0])\<lparr>mh_offset := 5\<rparr>) 0 [])) [] []))
     ({}, []) = Panic"
  by (rule future_slashing_proof_panics)
    (simp_all add: framed_header_def micro_simps staked_simps hash_MicroBlock_def hash_MicroBlockHeader_def)

end
