(* ===== verification/Fork.thy ===== *)
theory Fork
  imports BlockValidation
begin

text \<open>
  The resolution of forks by a node, \<open>node/src/lib.rs\<close>: a micro block or a proof of a view change
  that contradicts the own chain. The part of the node that it works on is the chain, the proofs
  of cheating, the transactions handed back to the mempool for every reverted block and the
  requests sent to other nodes; clocks, notifications and metrics are left out. \<open>None\<close> is a panic;
  otherwise the result is the node and the error returned, if any.
\<close>

section \<open>Data\<close>

record SealedViewChangeProof =
  sp_chain :: ChainInfo
  sp_proof :: ViewChangeProof

datatype ForkError = Canceled | ForkFailure BlockError

datatype ForkRequest = SendBlocks pbc_pkey u64 u32 | RequestHistory pbc_pkey

record ('g, 'f, 'd) NodeService =
  nd_chain :: "('g, 'f, 'd) Blockchain"
  cheating_proofs :: "(pbc_pkey, 'f SlashingProof) btree"
  nd_reverted :: "'f Transaction list list"
  nd_requests :: "ForkRequest list"

section \<open>Reverting blocks\<close>

definition node_pop_micro_block ::
  "('g, 'f) crypto \<Rightarrow> ('d, 'f) storage \<Rightarrow> ('g, 'f, 'd) NodeService \<Rightarrow> ('g, 'f, 'd) NodeService option" where
  "node_pop_micro_block c d nd =
     map_option (\<lambda>((_, _, txs, _), ch). nd\<lparr>nd_chain := ch, nd_reverted := nd_reverted nd @ [txs]\<rparr>)
       (pop_micro_block c d (nd_chain nd))"

text \<open>The loop that truncates the chain to an offset; \<open>None\<close> is a panic or an endless loop.\<close>

partial_function (option) truncate_chain ::
  "('g, 'f) crypto \<Rightarrow> ('d, 'f) storage \<Rightarrow> u32 \<Rightarrow> ('g, 'f, 'd) NodeService \<Rightarrow> ('g, 'f, 'd) NodeService option" where
  "truncate_chain c d offset nd =
     (if bc_offset (nd_chain nd) > offset
      then Option.bind (node_pop_micro_block c d nd) (truncate_chain c d offset)
      else Some nd)"

definition handle_pop_micro_block ::
  "('g, 'f) crypto \<Rightarrow> ('d, 'f) storage \<Rightarrow> ('g, 'f, 'd) NodeService \<Rightarrow> (('g, 'f, 'd) NodeService \<times> bool) option" where
  "handle_pop_micro_block c d nd =
     (if bc_offset (nd_chain nd) = 0 then Some (nd, False)
      else map_option (\<lambda>nd. (nd, True)) (node_pop_micro_block c d nd))"

section \<open>Resolving a fork\<close>

definition local_info ::
  "('d, 'f) storage \<Rightarrow> u32 \<Rightarrow> ('g, 'f, 'd) Blockchain \<Rightarrow> ChainInfo option" where
  "local_info d offset ch =
     (if offset < bc_offset ch
      then map_option (\<lambda>b. \<lparr>ci_epoch = bc_epoch ch, ci_offset = mh_offset (mb_header b),
               ci_view_change = mh_view_change (mb_header b), ci_last_block = mh_previous (mb_header b)\<rparr>)
             (micro_block d (bc_epoch ch) offset ch)
      else from_blockchain ch)"

definition try_rollback ::
  "('g, 'f) crypto \<Rightarrow> ('d, 'f) storage \<Rightarrow> pbc_pkey \<Rightarrow> SealedViewChangeProof \<Rightarrow> ('g, 'f, 'd) NodeService \<Rightarrow>
     (('g, 'f, 'd) NodeService \<times> ForkError option) option" where
  "try_rollback c d pkey p nd =
     (let ch = nd_chain nd; i = sp_chain p; offset = ci_offset i
      in if ci_epoch i < bc_epoch ch then Some (nd, Some Canceled)
         else if offset > bc_offset ch then Some (nd, Some Canceled)
         else
           Option.bind (local_info d offset ch) (\<lambda>own.
             if ci_view_change i < ci_view_change own then Some (nd, Some Canceled)
             else if ci_last_block i \<noteq> ci_last_block own
             then Some (nd\<lparr>nd_requests := nd_requests nd @ [RequestHistory pkey]\<rparr>, Some Canceled)
             else (case validate_ViewChangeProof c (sp_proof p) i ch of
                 Panic \<Rightarrow> None
               | Err _ \<Rightarrow> Some (nd, Some (ForkFailure (InvalidViewChangeProof (bc_epoch ch) (sp_proof p))))
               | Ok _ \<Rightarrow>
                   Option.bind (truncate_chain c d offset nd) (\<lambda>nd.
                     if offset \<noteq> bc_offset (nd_chain nd) then None
                     else map_option (\<lambda>ch. (nd\<lparr>nd_chain := ch\<rparr>, None))
                            (set_view_change (ci_view_change i + 1) (sp_proof p) (nd_chain nd))))))"

definition resolve_fork ::
  "('g, 'f) crypto \<Rightarrow> ('d, 'f) storage \<Rightarrow> 'f MicroBlock \<Rightarrow> ('g, 'f, 'd) NodeService \<Rightarrow>
     (('g, 'f, 'd) NodeService \<times> ForkError option) option" where
  "resolve_fork c d remote nd =
     (let ch = nd_chain nd; h = mb_header remote; offset = mh_offset h;
          remote_hash = digest c (hash_MicroBlock remote)
      in if mh_epoch h \<noteq> bc_epoch ch \<or> \<not> offset < bc_offset ch then None
         else
           Option.bind (micro_block d (bc_epoch ch) offset ch) (\<lambda>own.
             let l = mb_header own
             in if mh_view_change h = mh_view_change l
                then
                  if mh_pkey h \<noteq> mh_pkey l then None
                  else if remote_hash = digest c (hash_MicroBlock own) then Some (nd, Some Canceled)
                  else Some (nd\<lparr>cheating_proofs := bt_put (mh_pkey h) (MkProof remote own) (cheating_proofs nd)\<rparr>,
                             Some Canceled)
                else if mh_view_change h < mh_view_change l
                then Some (nd\<lparr>nd_requests := nd_requests nd @ [SendBlocks (mh_pkey h) (bc_epoch ch) offset]\<rparr>,
                           Some Canceled)
                else
                  Option.bind (from_micro_block remote) (\<lambda>i.
                    case mh_view_change_proof h of
                      Some p \<Rightarrow> try_rollback c d (mh_pkey h) \<lparr>sp_chain = i, sp_proof = p\<rparr> nd
                    | None \<Rightarrow> Some (nd, Some (ForkFailure
                        (NoProofWasFound (bc_epoch ch) offset remote_hash (mh_view_change h) 0))))))"

section \<open>Truncation ends\<close>

lemma truncate_total:
  fixes c :: "('g::ab_group_add, 'f::ab_group_add) crypto" and nd :: "('g, 'f, 'd) NodeService"
  assumes "storage_laws d" "chain_reach c d (nd_chain nd)" "k \<le> bc_offset (nd_chain nd)"
  shows "\<exists>nd'. truncate_chain c d k nd = Some nd' \<and> chain_reach c d (nd_chain nd') \<and>
    bc_epoch (nd_chain nd') = bc_epoch (nd_chain nd) \<and> bc_offset (nd_chain nd') = k \<and>
    (if k = bc_offset (nd_chain nd) then nd' = nd else view_change (nd_chain nd') = Some 0)"
  using assms(2,3)
proof (induction "unat (bc_offset (nd_chain nd))" arbitrary: nd rule: less_induct)
  case less
  let ?ch = "nd_chain nd"
  show ?case
  proof (cases "k = bc_offset ?ch")
    case True
    then show ?thesis using less.prems by (subst truncate_chain.simps) simp
  next
    case False
    then have k: "k < bc_offset ?ch" using less.prems(2) by simp
    define j where "j = bc_offset ?ch - 1"
    have j: "bc_offset ?ch = j + 1" "j < bc_offset ?ch" "k \<le> j"
    proof -
      have nz: "bc_offset ?ch \<noteq> 0" using k by auto
      then show "bc_offset ?ch = j + 1" "j < bc_offset ?ch" "k \<le> j"
        using k word_le_minus_one [OF nz, of k] word_minus_one_less [of "bc_offset ?ch"] by (auto simp: j_def word_gt_0)
    qed
    have inv: "chain_inv c d ?ch" using chain_reach_inv [OF assms(1) less.prems(1)] by blast
    obtain b recovered ch' where P: "pop_micro_block c d ?ch =
        Some ((map (output_digest c) (mb_outputs b), recovered, filter is_user_tx (mb_transactions b), b), ch')"
      "chain_inv c d ch'" "same_base ?ch ch'" "bc_offset ch' = j"
      "election_result ch' = map_option (\<lambda>er. er\<lparr>er_view_change := 0\<rparr>) (election_result_by_offset j ?ch)"
      by (rule chain_pop [OF assms(1) inv j(1,2)]) (rule that)
    have reach: "chain_reach c d ch'" by (rule chain_reach.pop [OF less.prems(1) P(1)])
    have "election_result ch' \<noteq> None" using view_total [OF chain_invD(1) [OF P(2)]] by auto
    then have view: "view_change ch' = Some 0" using P(5) by (auto simp: view_change_def)
    define nd1 where "nd1 = nd\<lparr>nd_chain := ch', nd_reverted := nd_reverted nd @ [filter is_user_tx (mb_transactions b)]\<rparr>"
    have pop: "node_pop_micro_block c d nd = Some nd1" by (simp add: node_pop_micro_block_def P(1) nd1_def)
    have nd1: "nd_chain nd1 = ch'" by (simp add: nd1_def)
    have ep: "bc_epoch ch' = bc_epoch ?ch" using P(3) by (simp add: same_base_def)
    from less.hyps [of nd1] j(2,3) reach obtain nd' where "truncate_chain c d k nd1 = Some nd'"
      "chain_reach c d (nd_chain nd')" "bc_epoch (nd_chain nd') = bc_epoch ch'" "bc_offset (nd_chain nd') = k"
      "if k = j then nd' = nd1 else view_change (nd_chain nd') = Some 0"
      by (auto simp: nd1 P(4) word_less_nat_alt)
    with pop k False view ep nd1 show ?thesis by (subst truncate_chain.simps) (auto split: if_splits)
  qed
qed

lemma set_view_change_total:
  assumes "logs_ok ch" "view_change ch = Some v" "v < vc"
  shows "\<exists>ch'. set_view_change vc p ch = Some ch' \<and> view_change ch' = Some vc \<and> bc_view_change_proof ch' = Some p \<and>
    bc_epoch ch' = bc_epoch ch \<and> bc_offset ch' = bc_offset ch"
proof -
  obtain er where er: "election_result ch = Some er" "er_view_change er = v" using assms(2) by (auto simp: view_change_def)
  obtain m where m: "mv_put (LSN (bc_epoch ch) (bc_offset ch)) () (er\<lparr>er_view_change := vc\<rparr>) (election_results ch) = Some m"
    using view_total [OF assms(1)] by blast
  show ?thesis
    using er m assms(3) mv_put_get [OF m] by (simp add: set_view_change_def view_change_def election_result_def)
qed

section \<open>Properties\<close>

text \<open>
  C5: a valid proof of a view change resolves the fork. On a node with a reachable chain, a proof
  for an offset of the own epoch that the chain has reached, with a view that is not lower than
  the own one and the same previous block, makes \<open>try_rollback\<close> return without error, and the loop
  ends: the chain is cut to that offset, is at the view after the proven one, stores the proof and
  is reachable again.
\<close>

theorem fork_resolved:
  assumes "storage_laws d" "chain_reach c d (nd_chain nd)"
    and "bc_epoch (nd_chain nd) \<le> ci_epoch (sp_chain p)" "ci_offset (sp_chain p) \<le> bc_offset (nd_chain nd)"
    and "local_info d (ci_offset (sp_chain p)) (nd_chain nd) = Some own" "ci_view_change own \<le> ci_view_change (sp_chain p)"
    and "ci_last_block own = ci_last_block (sp_chain p)" "ci_view_change (sp_chain p) \<noteq> - 1"
    and "validate_ViewChangeProof c (sp_proof p) (sp_chain p) (nd_chain nd) = Ok ()"
  shows "\<exists>nd'. try_rollback c d pkey p nd = Some (nd', None) \<and> chain_reach c d (nd_chain nd') \<and>
    bc_epoch (nd_chain nd') = bc_epoch (nd_chain nd) \<and> bc_offset (nd_chain nd') = ci_offset (sp_chain p) \<and>
    view_change (nd_chain nd') = Some (ci_view_change (sp_chain p) + 1) \<and>
    bc_view_change_proof (nd_chain nd') = Some (sp_proof p)"
proof -
  let ?k = "ci_offset (sp_chain p)" and ?vc = "ci_view_change (sp_chain p)"
  obtain nd1 where T: "truncate_chain c d ?k nd = Some nd1" "chain_reach c d (nd_chain nd1)"
    "bc_epoch (nd_chain nd1) = bc_epoch (nd_chain nd)" "bc_offset (nd_chain nd1) = ?k"
    "if ?k = bc_offset (nd_chain nd) then nd1 = nd else view_change (nd_chain nd1) = Some 0"
    using truncate_total [OF assms(1,2,4)] by blast
  have logs: "logs_ok (nd_chain nd1)" using chain_invD(1) chain_reach_inv [OF assms(1) T(2)] by blast
  have above: "v < ?vc + 1" if "v \<le> ?vc" for v using that word_less_add_one [OF assms(8)] by simp
  obtain v where v: "view_change (nd_chain nd1) = Some v" "v < ?vc + 1"
  proof (cases "?k = bc_offset (nd_chain nd)")
    case True
    then have "view_change (nd_chain nd1) = Some (ci_view_change own)"
      using T(5) assms(5) by (auto simp: local_info_def from_blockchain_def)
    then show ?thesis using that above [OF assms(6)] by blast
  next
    case False
    then show ?thesis using that [of 0] T(5) above [of 0] by simp
  qed
  obtain ch' where ch': "set_view_change (?vc + 1) (sp_proof p) (nd_chain nd1) = Some ch'"
    "view_change ch' = Some (?vc + 1)" "bc_view_change_proof ch' = Some (sp_proof p)"
    "bc_epoch ch' = bc_epoch (nd_chain nd1)" "bc_offset ch' = bc_offset (nd_chain nd1)"
    using set_view_change_total [OF logs v] by blast
  have "try_rollback c d pkey p nd = Some (nd1\<lparr>nd_chain := ch'\<rparr>, None)"
    using assms T(1,4) ch'(1) by (simp add: try_rollback_def Let_def not_less)
  then show ?thesis using chain_reach.view [OF T(2) ch'(1)] ch' T(3,4) by auto
qed

definition sample_node :: "(8 word, 8 word, (bytes, 8 word Block) btree) NodeService" where
  "sample_node = \<lparr>nd_chain = sample_pushed, cheating_proofs = [], nd_reverted = [], nd_requests = []\<rparr>"

definition sample_sealed :: SealedViewChangeProof where
  "sample_sealed = \<lparr>sp_chain = \<lparr>ci_epoch = 1, ci_offset = 0, ci_view_change = 0, ci_last_block = 446\<rparr>,
     sp_proof = \<lparr>multimap = [True], multisig = 7 * 48\<rparr>\<rparr>"

lemma sample_sealed:
  "bc_epoch sample_pushed = 1" "bc_offset sample_pushed = 1" "bc_cfg sample_pushed = sample_cfg"
  "local_info sample_storage 0 sample_pushed = Some \<lparr>ci_epoch = 1, ci_offset = 0, ci_view_change = 0, ci_last_block = 446\<rparr>"
  "election_result_by_offset 0 sample_pushed = Some sample_elected"
proof -
  obtain r where reg: "register_micro_block count_crypto sample_storage (LSN 1 0) sample_micro
      (written sample_storage sample_micro sample_chain) = Some (r, sample_pushed)" using sample_pushed by blast
  note E = register_micro_block_effect [OF reg]
  show ep: "bc_epoch sample_pushed = 1" and off: "bc_offset sample_pushed = 1" and "bc_cfg sample_pushed = sample_cfg"
    using E(2,4) by (simp_all add: same_base_def chain_simps)
  have "micro_block sample_storage 1 0 sample_pushed = Some sample_micro"
    using E(3) sample_storage_laws by (simp add: block_at_micro MACRO_BLOCK_OFFSET_def storage_laws_def written_def chain_simps)
  then show "local_info sample_storage 0 sample_pushed = Some \<lparr>ci_epoch = 1, ci_offset = 0, ci_view_change = 0, ci_last_block = 446\<rparr>"
    by (simp add: local_info_def ep off micro_simps sample_digests)
  have inv: "chain_inv count_crypto sample_storage sample_chain"
    using chain_reach_inv [OF sample_storage_laws sample_reach(1)] by blast
  then have ok: "mv_ok (election_results sample_chain)" using chain_invD(1) [OF inv] by (simp add: logs_ok_def Let_def)
  have "rollback_to_lsn (prev_lsn 1 0) (election_results sample_pushed) = rollback_to_lsn (prev_lsn 1 0) (election_results sample_chain)"
    using E(1) ok by (intro mv_changes_rollback [where n = "LSN 1 0"])
      (auto simp: maps_change_def prev_lsn_def chain_simps less_LSN_def)
  also have "\<dots> = Some (election_results sample_chain)"
    by (rule rollback_here) (simp_all add: chain_simps current_lsn_def prev_lsn_def)
  finally show "election_result_by_offset 0 sample_pushed = Some sample_elected"
    by (simp add: election_result_by_offset_def ep chain_simps current_lsn_def prev_lsn_def mv_get_def)
qed

lemma count_sum: "g2_sum count_crypto = (+)" "g2_zero count_crypto = 0"
  by (simp_all add: count_crypto_def sample_crypto_def)

lemma sample_sealed_valid:
  "validate_ViewChangeProof count_crypto (sp_proof sample_sealed) (sp_chain sample_sealed) sample_pushed = Ok ()"
  by (simp add: validate_ViewChangeProof_def sample_sealed_def sample_sealed check_multi_signature_def sample_elected total_slots_def
    hash_ChainInfo_def g2_add_def check_hash_def count_bls check_supermajority_def sample_cfg_def i64_div_def signed_simps count_sum)

theorem fork_resolved_witness:
  "\<exists>nd'. try_rollback count_crypto sample_storage 7 sample_sealed sample_node = Some (nd', None) \<and> bc_offset (nd_chain nd') = 0 \<and>
     view_change (nd_chain nd') = Some 1"
  using fork_resolved [of sample_storage count_crypto sample_node sample_sealed
      "\<lparr>ci_epoch = 1, ci_offset = 0, ci_view_change = 0, ci_last_block = 446\<rparr>" 7] sample_sealed_valid sample_reach(2) sample_storage_laws
  by (auto simp: sample_node_def sample_sealed sample_sealed_def)

end
