(* ===== verification/Spec2Isabelle.thy ===== *)
theory Spec2Isabelle
  imports Mvcc Merkle Payload Escrow Awards Validation Agreement Fork
begin

text \<open>
  \<^bold>\<open>Stegos: a verification library for a proof-of-stake block chain with confidential payments.\<close>

  \<^bold>\<open>The program.\<close> A node keeps a chain of epochs. An epoch is a sequence of micro blocks, each
  signed by the leader that the last random value selects, and a macro block that replaces them
  and that the validators agree on by voting (\<open>consensus/\<close>). Money is held by outputs that
  commit to their amounts (\<open>blockchain/src/output.rs\<close>); transactions spend and create outputs;
  stakes are outputs locked in an escrow, which elects the validators of the next epoch. All
  indexes of the chain are multi-versioned maps, so that micro blocks can be reverted.

  \<^bold>\<open>Conventions.\<close> Machine integers are words of their width; \<open>i64\<close> is a 64-bit word compared with
  the signed orders, and sums wrap as in a release build. A function that can only panic returns
  an option with \<open>None\<close> for the panic; one with a \<open>Result\<close> returns an \<open>outcome\<close>: a value, an error
  or a panic. A \<open>BTreeMap\<close> is a sorted association list; a \<open>HashMap\<close> is walked in the order of its
  keys. Cryptography of third-party crates is the record \<open>crypto\<close>, an argument of the definitions;
  what the theorems use of it is stated by \<open>dalek_laws\<close>, \<open>scalar_laws\<close>, \<open>bulletproof_laws\<close> and
  \<open>bls_laws\<close>, which \<open>sample_crypto\<close> satisfies. The database is the record \<open>storage\<close> with
  \<open>storage_laws\<close>, which \<open>sample_storage\<close> satisfies. Random values and the time are arguments.

  \<^bold>\<open>Theories.\<close>
  \<^item> \<open>Prelude\<close>: outcomes, folds that can fail, signed words, big-endian bytes, the collections
    \<open>outcome_simps\<close> and \<open>signed_simps\<close>.
  \<^item> \<open>BTreeMap\<close>: the ordered map as a locale \<open>ordered_map\<close> and its interpretation.
  \<^item> \<open>Mvcc\<close> (\<open>blockchain/src/mvcc.rs\<close>): the versioned map with its undo log; a locale \<open>undo_log\<close> for
    what roll-backs promise, interpreted by the map and by the escrow. A roll-back restores the
    earlier state and does not panic, a checkpoint persists.
  \<^item> \<open>Hashing\<close>, \<open>Scc\<close>, \<open>Pbc\<close> (\<open>crypto/src/hash\<close>, \<open>scc\<close>, \<open>pbc\<close>, \<open>bulletproofs\<close>): the bytes that are
    hashed, points and their three representations, Schnorr signatures, encryption, BLS
    signatures, the random function.
  \<^item> \<open>Errors\<close> (\<open>blockchain/src/error.rs\<close>): the error types.
  \<^item> \<open>Output\<close>, \<open>Payload\<close> (\<open>output.rs\<close>): the three kinds of outputs, the encrypted payload with its
    format, payment certificates.
  \<^item> \<open>Merkle\<close> (\<open>merkle.rs\<close>): trees from arrays, against a reference tree; lookup, pruning, binding of
    the root, serialization.
  \<^item> \<open>Escrow\<close> (\<open>escrow.rs\<close>): stakes, locked stakes, the majority of stakers.
  \<^item> \<open>Multisignature\<close>, \<open>Election\<close>, \<open>Awards\<close> (\<open>multisignature.rs\<close>, \<open>election.rs\<close>, \<open>awards.rs\<close>): quorums as
    a locale \<open>quorum_system\<close>, the draw of slots and leaders, the service award.
  \<^item> \<open>Ledger\<close> (\<open>transaction.rs\<close>, \<open>block.rs\<close>): transactions and blocks, their hashes and how they are made.
  \<^item> \<open>Validation\<close> (\<open>validation.rs\<close>): coinbase, payment and restake transactions.
  \<^item> \<open>Consensus\<close>, \<open>Agreement\<close> (\<open>consensus/src/state.rs\<close>, \<open>message.rs\<close>): the state machine of one node;
    reachability, an invariant, totality of handling messages, validity and intersection of commits.
    A handler calls itself through its own votes; \<open>feed_depth\<close> levels of calls are shown to be enough.
  \<^item> \<open>Chain\<close>, \<open>Macro\<close> (\<open>blockchain.rs\<close>): the state of the chain, registering and reverting micro
    blocks, the end of an epoch, making and registering macro blocks.
  \<^item> \<open>Revert\<close>, \<open>Supply\<close>, \<open>History\<close>: what a block changes in the maps, that reverting restores it, the
    monetary invariant, and the relation \<open>chain_reach\<close> of the chains reachable from a genesis block by
    macro blocks, micro blocks, view changes and reverts. In a reachable chain the commitments of the
    unspent outputs account for the money created, every indexed output is found under its hash, the
    cache of macro blocks agrees with the disk, and reverting undoes pushing.
  \<^item> \<open>BlockValidation\<close> (\<open>validation.rs\<close>, \<open>slashing.rs\<close>, \<open>view_changes.rs\<close>): the checks of micro and macro
    blocks and of proposals, slashing, proofs of view changes, pushing blocks and recovering the
    chain from the blocks on the disk.
  \<^item> \<open>Fork\<close> (\<open>node/src/lib.rs\<close>): the resolution of forks by a node. Truncating the chain is a loop that
    is shown to end, and a valid proof of a view change is shown to resolve the fork.

  \<^bold>\<open>Flaws.\<close> Theorems of this library exhibit inputs on which the code departs from its intent: keys
  that do not decode make any signature acceptable or make nodes panic, stakes can leave the escrow
  while locked or change their owner, sums of restakes wrap, a node loses its lock in the consensus, a
  leader can have another validator slashed, and slashing transactions may create or destroy money
  or make nodes panic.

  \<^bold>\<open>Bounds.\<close> Loops of the code are structural recursions or have termination proofs. Only the
  consensus handler uses fuel, see above, and the truncation of the chain is a partial function
  that is shown to return.

  \<^bold>\<open>Not modelled.\<close> The network, the event loop of the node (apart from the resolution of forks) with its loader
  and replication, the mempool, the wallet with Snowball and DiceMix (a C++ solver), key files, the API, the binaries and
  the metrics: asynchronous input and output over third-party frameworks. Serialization to protobuf:
  the message types are generated at build time. The fast recovery and the epoch information of the
  chain: serialized indexes in further column families of the database. The collector of view
  changes, of which only the proof it makes is modelled.
\<close>

end
